(* ===== verification/Prelude.thy ===== *)
theory Prelude
  imports Main "HOL-Library.Word" "HOL-Library.Multiset" "HOL-Library.Monad_Syntax"
begin

text \<open>
  Shared vocabulary of the development.

  \<^item> \<open>'a cells\<close> is a C array: a list of cells, each holding a value or indeterminate
    (\<open>None\<close>, memory that was allocated and never written). \<open>aread\<close> and \<open>awrite\<close> return \<open>None\<close>
    when C leaves the access undefined: an index outside the array, or a read of an
    indeterminate cell. A model function with an \<open>option\<close> result returns \<open>None\<close> exactly when the
    code runs into such an access (or, for \<open>partial_function\<close>, never returns).
  \<^item> \<open>buf n xs\<close> is an array of \<open>n\<close> cells whose first cells hold \<open>xs\<close>.
  \<^item> \<open>seg\<close> (segment) is the list between two indices.
  \<^item> \<open>size_t\<close> arithmetic is 32 bits wide: the programs are built for the ARM BeagleBone
    (\<open>ARCH=arm\<close> in the makefiles). Sums and products that can leave the range are written with
    \<open>wrap32\<close>.
\<close>

section \<open>Collections of facts\<close>

named_theorems array_simps \<open>reading and writing C arrays\<close>

text \<open>Recursive calls under a bind may use what the bound computation returned.\<close>

declare Option.bind_cong [fundef_cong]

section \<open>C arrays with indeterminate cells\<close>

type_synonym 'a cells = "'a option list"
type_synonym addr = nat
type_synonym int32 = "32 word"
type_synonym byte = "8 word"

definition aread :: "'a cells \<Rightarrow> nat \<Rightarrow> 'a option" where
  "aread a i = (if i < length a then a ! i else None)"

definition awrite :: "'a cells \<Rightarrow> nat \<Rightarrow> 'a \<Rightarrow> 'a cells option" where
  "awrite a i v = (if i < length a then Some (a[i := Some v]) else None)"

abbreviation uninit :: "nat \<Rightarrow> 'a cells" where
  "uninit n \<equiv> replicate n None"

definition buf :: "nat \<Rightarrow> 'a list \<Rightarrow> 'a cells" where
  "buf n xs = map Some xs @ uninit (n - length xs)"

definition seg :: "'a list \<Rightarrow> nat \<Rightarrow> nat \<Rightarrow> 'a list" where
  "seg xs i n = take (n - i) (drop i xs)"

definition wrap32 :: "nat \<Rightarrow> nat" where
  "wrap32 n = n mod 2 ^ 32"

lemma aread_map_Some [array_simps]: "i < length xs \<Longrightarrow> aread (map Some xs) i = Some (xs ! i)"
  by (simp add: aread_def)

lemma aread_beyond [array_simps]: "length a \<le> i \<Longrightarrow> aread a i = None"
  by (simp add: aread_def)

lemma awrite_map_Some [array_simps]:
  "i < length xs \<Longrightarrow> awrite (map Some xs) i v = Some (map Some (xs[i := v]))"
  by (simp add: awrite_def map_update)

lemma awrite_beyond [array_simps]: "length a \<le> i \<Longrightarrow> awrite a i v = None"
  by (simp add: awrite_def)

lemma awrite_length: "awrite a i v = Some b \<Longrightarrow> length b = length a \<and> i < length a"
  by (auto simp: awrite_def split: if_splits)

lemma buf_Nil [simp]: "buf n [] = uninit n"
  by (simp add: buf_def)

lemma length_buf [simp]: "length xs \<le> n \<Longrightarrow> length (buf n xs) = n"
  by (simp add: buf_def)

lemma buf_full: "length xs = n \<Longrightarrow> buf n xs = map Some xs"
  by (simp add: buf_def)

lemma awrite_buf [array_simps]:
  "length xs < n \<Longrightarrow> awrite (buf n xs) (length xs) v = Some (buf n (xs @ [v]))"
proof -
  assume less: "length xs < n"
  then obtain m where m: "n - length xs = Suc m" by (cases "n - length xs") auto
  then have "n - length (xs @ [v]) = m" by simp
  with less m show ?thesis
    by (simp add: awrite_def buf_def list_update_append)
qed

lemma aread_buf [array_simps]: "i < length xs \<Longrightarrow> length xs \<le> n \<Longrightarrow> aread (buf n xs) i = Some (xs ! i)"
  by (simp add: aread_def buf_def nth_append)

lemma aread_buf_uninit [array_simps]: "length xs \<le> i \<Longrightarrow> aread (buf n xs) i = None"
  by (simp add: aread_def buf_def nth_append)

text \<open>Reading an array whose cells are all initialised.\<close>

definition nth_opt :: "'a list \<Rightarrow> nat \<Rightarrow> 'a option" where
  "nth_opt xs i = (if i < length xs then Some (xs ! i) else None)"

lemma nth_opt_in [simp]: "i < length xs \<Longrightarrow> nth_opt xs i = Some (xs ! i)"
  by (simp add: nth_opt_def)

section \<open>Signed 32 bit integers\<close>

text \<open>The value of an \<^verbatim>\<open>int\<close> computation, undefined when it overflows.\<close>

definition in_int :: "int \<Rightarrow> bool" where
  "in_int v \<longleftrightarrow> - (2 ^ 31) \<le> v \<and> v < 2 ^ 31"

definition checked :: "int \<Rightarrow> int option" where
  "checked v = (if in_int v then Some v else None)"

section \<open>Slices\<close>

lemma length_seg [simp]: "n \<le> length xs \<Longrightarrow> length (seg xs i n) = n - i"
  by (simp add: seg_def)

lemma seg_empty [simp]: "n \<le> i \<Longrightarrow> seg xs i n = []"
  by (simp add: seg_def)

lemma seg_Cons: "i < n \<Longrightarrow> n \<le> length xs \<Longrightarrow> seg xs i n = xs ! i # seg xs (Suc i) n"
proof -
  assume "i < n" "n \<le> length xs"
  moreover from \<open>i < n\<close> obtain m where "n - i = Suc m" "n - Suc i = m"
    by (cases "n - i") auto
  ultimately show ?thesis
    by (simp add: seg_def Cons_nth_drop_Suc [symmetric])
qed

lemma seg_append: "i \<le> m \<Longrightarrow> m \<le> n \<Longrightarrow> seg xs i m @ seg xs m n = seg xs i n"
proof -
  assume "i \<le> m" "m \<le> n"
  then have "n - i = (m - i) + (n - m)" "m = (m - i) + i" by auto
  then show ?thesis
    by (metis seg_def take_add drop_drop)
qed

lemma seg_whole [simp]: "seg xs 0 (length xs) = xs"
  by (simp add: seg_def)

lemma take_seg_drop: "i \<le> n \<Longrightarrow> take i xs @ seg xs i n @ drop n xs = xs"
  by (metis append.assoc append_take_drop_id seg_append seg_def diff_zero drop0 le0)

section \<open>Replacing a segment\<close>

definition put :: "'a list \<Rightarrow> nat \<Rightarrow> 'a list \<Rightarrow> 'a list" where
  "put xs i ys = take i xs @ ys @ drop (i + length ys) xs"

lemma length_put [simp]: "i + length ys \<le> length xs \<Longrightarrow> length (put xs i ys) = length xs"
  by (simp add: put_def)

lemma seg_put_same [simp]:
  "i + length ys \<le> length xs \<Longrightarrow> seg (put xs i ys) i (i + length ys) = ys"
  by (simp add: seg_def put_def)

lemma seg_put_above [simp]:
  "i + length ys \<le> k \<Longrightarrow> i + length ys \<le> length xs \<Longrightarrow> seg (put xs i ys) k n = seg xs k n"
  by (simp add: seg_def put_def)

lemma put_put_same [simp]:
  "length ys \<le> length zs \<Longrightarrow> i + length ys \<le> length xs \<Longrightarrow> put (put xs i ys) i zs = put xs i zs"
  by (simp add: put_def add.commute)

lemma put_put_append:
  "j = i + length ys \<Longrightarrow> j + length zs \<le> length xs \<Longrightarrow> put (put xs i ys) j zs = put xs i (ys @ zs)"
  by (simp add: put_def add.commute add.left_commute)

lemma put_seg [simp]: "i \<le> n \<Longrightarrow> n \<le> length xs \<Longrightarrow> put xs i (seg xs i n) = xs"
  by (simp add: put_def take_seg_drop)

section \<open>Arithmetic modulo the machine word\<close>

lemma wrap32_id [simp]: "n < 2 ^ 32 \<Longrightarrow> wrap32 n = n"
  by (simp add: wrap32_def)

lemma wrap32_less: "wrap32 n < 2 ^ 32"
  by (simp add: wrap32_def)

lemma wrap32_le: "wrap32 n \<le> n"
  by (simp add: wrap32_def)

section \<open>Error codes\<close>

definition EPERM :: int where "EPERM = 1"
definition ESRCH :: int where "ESRCH = 3"
definition EAGAIN :: int where "EAGAIN = 11"
definition ENOMEM :: int where "ENOMEM = 12"
definition EACCES :: int where "EACCES = 13"
definition EFAULT :: int where "EFAULT = 14"
definition EINVAL :: int where "EINVAL = 22"
definition ENOSPC :: int where "ENOSPC = 28"

lemmas errno_defs = EPERM_def ESRCH_def EAGAIN_def ENOMEM_def EACCES_def EFAULT_def EINVAL_def ENOSPC_def

section \<open>Options that hold a whole list\<close>

lemma those_map_Some [simp]: "those (map Some xs) = Some xs"
  by (induction xs) auto

section \<open>Invariants of sequences of calls\<close>

text \<open>The interface of a component whose state is only changed by calls: every allowed call keeps an
  invariant. Then every sequence of allowed calls does.\<close>

locale call_invariant =
  fixes step :: "'c \<Rightarrow> 's \<Rightarrow> 's" and allowed :: "'c \<Rightarrow> bool" and inv :: "'s \<Rightarrow> bool"
  assumes step_keeps: "inv s \<Longrightarrow> allowed c \<Longrightarrow> inv (step c s)"
begin

lemma run_keeps:
  assumes "inv s" "\<And>c. c \<in> set cs \<Longrightarrow> allowed c"
  shows "inv (fold step cs s)"
  using assms by (induction cs arbitrary: s) (simp_all add: step_keeps)

end

section \<open>Schedules\<close>

text \<open>\<open>run\<close> follows a schedule, the list of what happens next, and stops where something cannot happen. A run
  of a schedule is a run of the step relation.\<close>

primrec run :: "('a \<Rightarrow> 's \<Rightarrow> 's option) \<Rightarrow> 'a list \<Rightarrow> 's \<Rightarrow> 's option" where
  "run f [] s = Some s"
| "run f (a # as) s = (case f a s of None \<Rightarrow> None | Some t \<Rightarrow> run f as t)"

lemma run_append: "run f (as @ bs) s = (case run f as s of None \<Rightarrow> None | Some t \<Rightarrow> run f bs t)"
  by (induction as arbitrary: s) (auto split: option.splits)

lemma run_reaches:
  assumes "\<And>a s t. f a s = Some t \<Longrightarrow> R s t" "run f as s = Some t"
  shows "R\<^sup>*\<^sup>* s t"
  using assms(2)
proof (induction as arbitrary: s)
  case (Cons a as)
  then obtain u where "f a s = Some u" "run f as u = Some t" by (auto split: option.splits)
  with assms(1) Cons.IH show ?case by (blast intro: converse_rtranclp_into_rtranclp)
qed simp

lemma run_invariant:
  assumes "\<And>a s t. P s \<Longrightarrow> f a s = Some t \<Longrightarrow> P t" "P s" "run f as s = Some t"
  shows "P t"
  using assms(2,3) by (induction as arbitrary: s) (auto split: option.splits dest: assms(1))

end
