(* ===== verification/MySort.thy ===== *)
theory MySort
  imports Prelude
begin

text \<open>
  The sort system call added to the kernel: \<open>merge\<close>, \<open>mergesort\<close>, \<open>my_sort\<close> (number 399) and
  \<open>viks_hello\<close> (number 398) of \<^verbatim>\<open>HW2_APES/PROBLEM5/system_call/sys.c\<close>.

  Arrays are \<open>int32 cells\<close>; every access is checked, so \<open>None\<close> means that the C code leaves the
  array (or, for \<open>mergesort\<close>, never returns). Loop counters are \<open>nat\<close>: they are used as indices
  before they grow further, so they stay within an allocated array and cannot wrap; the sum in
  the midpoint and the products with \<open>sizeof\<close>, which can, are taken modulo \<open>2 ^ 32\<close>.
\<close>

section \<open>merge\<close>

text \<open>
  \<^verbatim>\<open>int32_t temp[256]\<close>, the array used for merging, and the loop over both subarrays. The
  comparison is the signed one.
\<close>

function merge_both ::
  "int32 cells \<Rightarrow> nat \<Rightarrow> nat \<Rightarrow> nat \<Rightarrow> nat \<Rightarrow> nat \<Rightarrow> int32 cells
    \<Rightarrow> (nat \<times> nat \<times> nat \<times> int32 cells) option" where
  "merge_both a j1 j2 i j k temp =
     (if i \<le> j1 \<and> j \<le> j2 then do {
        x \<leftarrow> aread a i;
        y \<leftarrow> aread a j;
        if x <s y
        then do { temp' \<leftarrow> awrite temp k x; merge_both a j1 j2 (i + 1) j (k + 1) temp' }
        else do { temp' \<leftarrow> awrite temp k y; merge_both a j1 j2 i (j + 1) (k + 1) temp' }
      } else Some (i, j, k, temp))"
  by pat_completeness auto
termination
  by (relation "measure (\<lambda>(a, j1, j2, i, j, k, temp). (Suc j1 - i) + (Suc j2 - j))") auto

text \<open>The loop that copies the rest of one subarray; the code has it twice.\<close>

function merge_rest ::
  "int32 cells \<Rightarrow> nat \<Rightarrow> nat \<Rightarrow> nat \<Rightarrow> int32 cells \<Rightarrow> (nat \<times> int32 cells) option" where
  "merge_rest a hi i k temp =
     (if i \<le> hi then do {
        x \<leftarrow> aread a i;
        temp' \<leftarrow> awrite temp k x;
        merge_rest a hi (i + 1) (k + 1) temp'
      } else Some (k, temp))"
  by pat_completeness auto
termination
  by (relation "measure (\<lambda>(a, hi, i, k, temp). Suc hi - i)") auto

text \<open>The loop that moves the merged elements back.\<close>

function merge_back :: "int32 cells \<Rightarrow> nat \<Rightarrow> nat \<Rightarrow> nat \<Rightarrow> int32 cells \<Rightarrow> int32 cells option" where
  "merge_back a j2 i j temp =
     (if i \<le> j2 then do {
        x \<leftarrow> aread temp j;
        a' \<leftarrow> awrite a i x;
        merge_back a' j2 (i + 1) (j + 1) temp
      } else Some a)"
  by pat_completeness auto
termination
  by (relation "measure (\<lambda>(a, j2, i, j, temp). Suc j2 - i)") auto

declare merge_both.simps [simp del] merge_rest.simps [simp del] merge_back.simps [simp del]

definition temp_size :: nat where
  "temp_size = 256"

definition merge :: "int32 cells \<Rightarrow> nat \<Rightarrow> nat \<Rightarrow> nat \<Rightarrow> nat \<Rightarrow> int32 cells option" where
  "merge a i1 j1 i2 j2 = do {
     (i, j, k, temp) \<leftarrow> merge_both a j1 j2 i1 i2 0 (uninit temp_size);
     (k, temp) \<leftarrow> merge_rest a j1 i k temp;
     (k, temp) \<leftarrow> merge_rest a j2 j k temp;
     merge_back a j2 i1 0 temp }"

section \<open>mergesort\<close>

definition midpoint :: "nat \<Rightarrow> nat \<Rightarrow> nat" where
  "midpoint i j = wrap32 (i + j) div 2"

partial_function (option) mergesort :: "int32 cells \<Rightarrow> nat \<Rightarrow> nat \<Rightarrow> int32 cells option" where
  "mergesort a i j =
     (if i < j then
        Option.bind (mergesort a i (midpoint i j)) (\<lambda>a1.
        Option.bind (mergesort a1 (midpoint i j + 1) j) (\<lambda>a2.
        merge a2 i (midpoint i j) (midpoint i j + 1) j))
      else Some a)"

section \<open>The reference merge sort on lists\<close>

text \<open>Merging as the code does it: the left element first only when it is strictly smaller.\<close>

fun lmerge :: "int32 list \<Rightarrow> int32 list \<Rightarrow> int32 list" where
  "lmerge [] ys = ys"
| "lmerge xs [] = xs"
| "lmerge (x # xs) (y # ys) =
     (if x <s y then x # lmerge xs (y # ys) else y # lmerge (x # xs) ys)"

lemma lmerge_Nil2 [simp]: "lmerge xs [] = xs"
  by (cases xs) auto

lemma mset_lmerge: "mset (lmerge xs ys) = mset xs + mset ys"
  by (induction xs ys rule: lmerge.induct) auto

lemma set_lmerge: "set (lmerge xs ys) = set xs \<union> set ys"
  by (metis mset_lmerge set_mset_mset set_mset_union)

lemma length_lmerge [simp]: "length (lmerge xs ys) = length xs + length ys"
  by (metis mset_lmerge size_mset size_union)

lemma sorted_lmerge:
  "sorted (map sint xs) \<Longrightarrow> sorted (map sint ys) \<Longrightarrow> sorted (map sint (lmerge xs ys))"
  by (induction xs ys rule: lmerge.induct) (auto simp: set_lmerge word_sless_alt)

text \<open>A sorted permutation is unique, because \<open>sint\<close> is injective.\<close>

abbreviation sort_signed :: "int32 list \<Rightarrow> int32 list" where
  "sort_signed \<equiv> sort_key sint"

lemma sorted_perm_unique:
  assumes "sorted (map sint xs)" and "mset xs = mset ys"
  shows "xs = sort_signed ys"
proof -
  have "inj_on sint (set ys)" by (simp add: inj_on_subset [OF inj_signed])
  with assms have "sort_key sint ys = xs"
    by (intro sort_key_inj_key_eq) auto
  then show ?thesis by simp
qed

section \<open>The loops of merge compute the reference\<close>

lemma merge_both_exit: "\<not> (i \<le> j1 \<and> j \<le> j2) \<Longrightarrow> merge_both a j1 j2 i j k t = Some (i, j, k, t)"
  by (subst merge_both.simps) auto

lemma merge_rest_exit: "hi < i \<Longrightarrow> merge_rest a hi i k t = Some (k, t)"
  by (subst merge_rest.simps) auto

lemma merge_back_exit: "j2 < i \<Longrightarrow> merge_back a j2 i j t = Some a"
  by (subst merge_back.simps) auto

lemma merge_both_spec:
  assumes "j1 < length xs" "j2 < length xs" "i \<le> Suc j1" "j \<le> Suc j2"
    and "length ts + (Suc j1 - i) + (Suc j2 - j) \<le> n"
  shows "\<exists>i' j' ts'. merge_both (map Some xs) j1 j2 i j (length ts) (buf n ts)
             = Some (i', j', length ts', buf n ts')
           \<and> i' \<le> Suc j1 \<and> j' \<le> Suc j2 \<and> (i' = Suc j1 \<or> j' = Suc j2)
           \<and> length ts' + (Suc j1 - i') + (Suc j2 - j') = length ts + (Suc j1 - i) + (Suc j2 - j)
           \<and> ts' @ seg xs i' (Suc j1) @ seg xs j' (Suc j2)
             = ts @ lmerge (seg xs i (Suc j1)) (seg xs j (Suc j2))"
  using assms
proof (induction "(Suc j1 - i) + (Suc j2 - j)" arbitrary: i j ts rule: less_induct)
  case less
  show ?case
  proof (cases "i \<le> j1 \<and> j \<le> j2")
    case False
    then have "i = Suc j1 \<or> j = Suc j2" using less.prems by auto
    moreover from this have "lmerge (seg xs i (Suc j1)) (seg xs j (Suc j2))
        = seg xs i (Suc j1) @ seg xs j (Suc j2)" by auto
    ultimately show ?thesis using False less.prems
      by (auto simp: merge_both_exit)
  next
    case True
    then have room: "length ts < n" using less.prems(5) by arith
    have segs: "seg xs i (Suc j1) = xs ! i # seg xs (Suc i) (Suc j1)"
      "seg xs j (Suc j2) = xs ! j # seg xs (Suc j) (Suc j2)"
      using True less.prems by (auto intro: seg_Cons)
    show ?thesis
    proof (cases "xs ! i <s xs ! j")
      case lt: True
      have "\<exists>i' j' ts'. merge_both (map Some xs) j1 j2 (Suc i) j (length (ts @ [xs ! i]))
               (buf n (ts @ [xs ! i])) = Some (i', j', length ts', buf n ts')
           \<and> i' \<le> Suc j1 \<and> j' \<le> Suc j2 \<and> (i' = Suc j1 \<or> j' = Suc j2)
           \<and> length ts' + (Suc j1 - i') + (Suc j2 - j')
             = length (ts @ [xs ! i]) + (Suc j1 - Suc i) + (Suc j2 - j)
           \<and> ts' @ seg xs i' (Suc j1) @ seg xs j' (Suc j2)
             = (ts @ [xs ! i]) @ lmerge (seg xs (Suc i) (Suc j1)) (seg xs j (Suc j2))"
        by (rule less.hyps) (use True less.prems in auto)
      with True lt room less.prems segs show ?thesis
        by (subst merge_both.simps) (simp add: array_simps Suc_diff_le)
    next
      case ge: False
      have "\<exists>i' j' ts'. merge_both (map Some xs) j1 j2 i (Suc j) (length (ts @ [xs ! j]))
               (buf n (ts @ [xs ! j])) = Some (i', j', length ts', buf n ts')
           \<and> i' \<le> Suc j1 \<and> j' \<le> Suc j2 \<and> (i' = Suc j1 \<or> j' = Suc j2)
           \<and> length ts' + (Suc j1 - i') + (Suc j2 - j')
             = length (ts @ [xs ! j]) + (Suc j1 - i) + (Suc j2 - Suc j)
           \<and> ts' @ seg xs i' (Suc j1) @ seg xs j' (Suc j2)
             = (ts @ [xs ! j]) @ lmerge (seg xs i (Suc j1)) (seg xs (Suc j) (Suc j2))"
        by (rule less.hyps) (use True less.prems in auto)
      with True ge room less.prems segs show ?thesis
        by (subst merge_both.simps) (simp add: array_simps Suc_diff_le)
    qed
  qed
qed

lemma merge_rest_spec:
  assumes "hi < length xs" "i \<le> Suc hi" "length ts + (Suc hi - i) \<le> n"
  shows "merge_rest (map Some xs) hi i (length ts) (buf n ts)
           = Some (length (ts @ seg xs i (Suc hi)), buf n (ts @ seg xs i (Suc hi)))"
  using assms
proof (induction "Suc hi - i" arbitrary: i ts)
  case 0
  then show ?case by (simp add: merge_rest_exit)
next
  case (Suc d)
  have "merge_rest (map Some xs) hi (Suc i) (length (ts @ [xs ! i])) (buf n (ts @ [xs ! i]))
      = Some (length ((ts @ [xs ! i]) @ seg xs (Suc i) (Suc hi)),
              buf n ((ts @ [xs ! i]) @ seg xs (Suc i) (Suc hi)))"
    by (rule Suc.hyps) (use Suc in auto)
  moreover have "i \<le> hi" "length ts < n" using Suc by auto
  ultimately show ?case using Suc.prems
    by (subst merge_rest.simps) (simp add: array_simps seg_Cons Suc_diff_le)
qed

lemma merge_back_spec:
  assumes "length pre + length ms \<le> length xs" "drop j ts = ms" "j \<le> length ts" "length ts \<le> n"
    and "Suc j2 = i + length ms" "i = length pre" "take i xs = pre"
  shows "merge_back (map Some xs) j2 i j (buf n ts)
           = Some (map Some (pre @ ms @ drop (Suc j2) xs))"
  using assms
proof (induction ms arbitrary: xs pre i j)
  case Nil
  then have "xs = pre @ drop (Suc j2) xs"
    by (metis append_take_drop_id list.size(3) add_0_right)
  with Nil show ?case by (simp add: merge_back_exit)
next
  case (Cons m ms)
  then have j: "j < length ts" by (metis drop_eq_Nil list.distinct(1) not_le)
  with Cons.prems have m: "ts ! j = m" "drop (Suc j) ts = ms"
    by (simp_all add: Cons_nth_drop_Suc [symmetric])
  let ?xs = "xs[i := m]"
  have "take (Suc i) ?xs = pre @ [m]" using Cons.prems
    by (simp add: take_Suc_conv_app_nth)
  then have "merge_back (map Some ?xs) j2 (Suc i) (Suc j) (buf n ts)
      = Some (map Some ((pre @ [m]) @ ms @ drop (Suc j2) ?xs))"
    by (intro Cons.IH) (use Cons.prems j m in auto)
  moreover have "drop (Suc j2) ?xs = drop (Suc j2) xs" using Cons.prems by simp
  ultimately show ?case using Cons.prems j m
    by (subst merge_back.simps) (simp add: array_simps)
qed

text \<open>
  One call of \<open>merge\<close>: within the 256 cells of \<open>temp\<close> it replaces the two segments by their merge.
\<close>

lemma merge_spec:
  assumes "i1 \<le> j1" "j1 < j2" "j2 < length xs" "Suc j2 - i1 \<le> temp_size"
  shows "merge (map Some xs) i1 j1 (Suc j1) j2
           = Some (map Some (put xs i1 (lmerge (seg xs i1 (Suc j1)) (seg xs (Suc j1) (Suc j2)))))"
proof -
  let ?m = "lmerge (seg xs i1 (Suc j1)) (seg xs (Suc j1) (Suc j2))"
  note merge_both_spec [of j1 xs j2 i1 "Suc j1" "[]" temp_size]
  then obtain i' j' ts' where both: "merge_both (map Some xs) j1 j2 i1 (Suc j1) 0 (uninit temp_size)
        = Some (i', j', length ts', buf temp_size ts')"
    and b: "i' \<le> Suc j1" "j' \<le> Suc j2"
    and len: "length ts' + (Suc j1 - i') + (Suc j2 - j') = Suc j2 - i1"
    and eq: "ts' @ seg xs i' (Suc j1) @ seg xs j' (Suc j2) = ?m"
    using assms by (auto simp: Suc_diff_le)
  let ?t1 = "ts' @ seg xs i' (Suc j1)"
  have r1: "merge_rest (map Some xs) j1 i' (length ts') (buf temp_size ts')
      = Some (length ?t1, buf temp_size ?t1)"
    by (rule merge_rest_spec) (use assms b len in auto)
  have r2: "merge_rest (map Some xs) j2 j' (length ?t1) (buf temp_size ?t1)
      = Some (length (?t1 @ seg xs j' (Suc j2)), buf temp_size (?t1 @ seg xs j' (Suc j2)))"
    by (rule merge_rest_spec) (use assms b len in auto)
  have t: "?t1 @ seg xs j' (Suc j2) = ?m" using eq by simp
  have "length ?m = Suc j2 - i1" using assms by simp
  then have "merge_back (map Some xs) j2 i1 0 (buf temp_size ?m)
      = Some (map Some (take i1 xs @ ?m @ drop (Suc j2) xs))" and "Suc j2 = i1 + length ?m"
    by (intro merge_back_spec) (use assms in auto)
  with both r1 r2 t show ?thesis by (simp add: merge_def put_def)
qed

section \<open>mergesort sorts every range that fits into temp\<close>

lemma midpoint_bounds: "i < j \<Longrightarrow> i + j < 2 ^ 32 \<Longrightarrow> i \<le> midpoint i j \<and> midpoint i j < j"
  by (auto simp: midpoint_def)

lemma lmerge_sorts:
  "lmerge (sort_signed xs) (sort_signed ys) = sort_signed (xs @ ys)"
  by (rule sorted_perm_unique) (simp_all add: sorted_lmerge mset_lmerge)

lemma mergesort_spec:
  assumes "lo \<le> hi" "hi < length xs" "length xs \<le> 2 ^ 31" "Suc hi - lo \<le> temp_size"
  shows "mergesort (map Some xs) lo hi
           = Some (map Some (put xs lo (sort_signed (seg xs lo (Suc hi)))))"
  using assms
proof (induction "hi - lo" arbitrary: lo hi xs rule: less_induct)
  case less
  show ?case
  proof (cases "lo < hi")
    case False
    with less.prems have "lo = hi" by simp
    then have "seg xs lo (Suc hi) = [xs ! lo]" using less.prems by (simp add: seg_Cons)
    then have "sort_signed (seg xs lo (Suc hi)) = seg xs lo (Suc hi)" by simp
    with \<open>lo = hi\<close> less.prems show ?thesis by (subst mergesort.simps) simp
  next
    case True
    define m where "m = midpoint lo hi"
    have m: "lo \<le> m" "m < hi"
      using midpoint_bounds [of lo hi] True less.prems unfolding m_def by auto
    let ?l = "sort_signed (seg xs lo (Suc m))" and ?r = "sort_signed (seg xs (Suc m) (Suc hi))"
    have len: "Suc m = lo + length ?l" "Suc hi = Suc m + length ?r" using m less.prems by auto
    have "mergesort (map Some xs) lo m = Some (map Some (put xs lo ?l))"
      by (rule less.hyps) (use m less.prems in auto)
    moreover have "mergesort (map Some (put xs lo ?l)) (Suc m) hi
        = Some (map Some (put (put xs lo ?l) (Suc m) (sort_signed (seg (put xs lo ?l) (Suc m) (Suc hi)))))"
      by (rule less.hyps) (use m len less.prems in auto)
    moreover have "put (put xs lo ?l) (Suc m) (sort_signed (seg (put xs lo ?l) (Suc m) (Suc hi)))
        = put xs lo (?l @ ?r)" (is "_ = ?xs")
      using m len less.prems by (simp add: put_put_append)
    moreover have "merge (map Some ?xs) lo m (Suc m) hi
        = Some (map Some (put ?xs lo (lmerge (seg ?xs lo (Suc m)) (seg ?xs (Suc m) (Suc hi)))))"
      by (rule merge_spec) (use m len less.prems in auto)
    moreover have "seg ?xs lo (Suc m) = ?l" "seg ?xs (Suc m) (Suc hi) = ?r"
      using m len less.prems by (simp_all add: seg_def put_def)
    moreover have "put ?xs lo (lmerge ?l ?r) = put xs lo (lmerge ?l ?r)"
      using m len less.prems by simp
    moreover have "lmerge ?l ?r = sort_signed (seg xs lo (Suc hi))"
      using m by (simp add: lmerge_sorts seg_append)
    ultimately show ?thesis using True
      by (subst mergesort.simps) (simp add: m_def [symmetric])
  qed
qed

section \<open>A longer range overruns temp\<close>

lemma merge_both_count:
  "merge_both a j1 j2 i j k t = Some (i', j', k', t') \<Longrightarrow> k \<le> length t \<Longrightarrow>
     i \<le> Suc j1 \<Longrightarrow> j \<le> Suc j2 \<Longrightarrow>
     k' + (Suc j1 - i') + (Suc j2 - j') = k + (Suc j1 - i) + (Suc j2 - j)
     \<and> i' \<le> Suc j1 \<and> j' \<le> Suc j2 \<and> k' \<le> length t' \<and> length t' = length t"
proof (induction a j1 j2 i j k t rule: merge_both.induct)
  case (1 a j1 j2 i j k t)
  show ?case
  proof (cases "i \<le> j1 \<and> j \<le> j2")
    case False
    with 1 show ?thesis by (auto simp: merge_both_exit)
  next
    case True
    with "1.prems"(1) obtain x y where x: "aread a i = Some x" and y: "aread a j = Some y"
      by (subst (asm) merge_both.simps) (auto simp: bind_eq_Some_conv split: if_splits)
    show ?thesis
    proof (cases "x <s y")
      case lt: True
      with True x y "1.prems"(1) obtain u where u: "awrite t k x = Some u"
        and rec: "merge_both a j1 j2 (i + 1) j (k + 1) u = Some (i', j', k', t')"
        by (subst (asm) merge_both.simps) (auto simp: bind_eq_Some_conv)
      from awrite_length [OF u] "1.IH"(1) [OF True x y lt u rec] "1.prems" True show ?thesis
        by (auto simp: Suc_diff_le)
    next
      case ge: False
      with True x y "1.prems"(1) obtain u where u: "awrite t k y = Some u"
        and rec: "merge_both a j1 j2 i (j + 1) (k + 1) u = Some (i', j', k', t')"
        by (subst (asm) merge_both.simps) (auto simp: bind_eq_Some_conv)
      from awrite_length [OF u] "1.IH"(2) [OF True x y ge u rec] "1.prems" True show ?thesis
        by (auto simp: Suc_diff_le)
    qed
  qed
qed

lemma merge_rest_count:
  "merge_rest a hi i k t = Some (k', t') \<Longrightarrow> k \<le> length t \<Longrightarrow>
     k' = k + (Suc hi - i) \<and> k' \<le> length t' \<and> length t' = length t"
proof (induction a hi i k t rule: merge_rest.induct)
  case (1 a hi i k t)
  show ?case
  proof (cases "i \<le> hi")
    case False
    with 1 show ?thesis by (simp add: merge_rest_exit)
  next
    case True
    with "1.prems"(1) obtain x u where x: "aread a i = Some x" and u: "awrite t k x = Some u"
      and rec: "merge_rest a hi (i + 1) (k + 1) u = Some (k', t')"
      by (subst (asm) merge_rest.simps) (auto simp: bind_eq_Some_conv)
    from awrite_length [OF u] "1.IH" [OF True x u rec] True show ?thesis by (auto simp: Suc_diff_le)
  qed
qed

lemma merge_fits:
  assumes "merge a i1 j1 (Suc j1) j2 = Some b" "i1 \<le> j1" "j1 \<le> j2"
  shows "Suc j2 - i1 \<le> temp_size"
proof -
  from assms(1) obtain i j k t k2 t2 k3 t3
    where both: "merge_both a j1 j2 i1 (Suc j1) 0 (uninit temp_size) = Some (i, j, k, t)"
      and r1: "merge_rest a j1 i k t = Some (k2, t2)"
      and r2: "merge_rest a j2 j k2 t2 = Some (k3, t3)"
    by (auto simp: merge_def bind_eq_Some_conv)
  from merge_both_count [OF both] merge_rest_count [OF r1] merge_rest_count [OF r2] assms(2,3)
  show ?thesis by auto
qed

lemma mergesort_fits:
  assumes "mergesort a 0 hi = Some b" "0 < hi" "hi < 2 ^ 32"
  shows "Suc hi \<le> temp_size"
proof -
  have m: "midpoint 0 hi < hi" using midpoint_bounds [of 0 hi] assms by simp
  from assms(1,2) obtain c where "merge c 0 (midpoint 0 hi) (Suc (midpoint 0 hi)) hi = Some b"
    by (subst (asm) mergesort.simps) (auto simp: bind_eq_Some_conv)
  from merge_fits [OF this] m show ?thesis by simp
qed

section \<open>The system call\<close>

text \<open>
  Kernel state seen by the handler: the live \<open>kmalloc\<close> blocks, the memory of the calling process
  (of an arbitrary type, only accessed through the kernel's copy routines) and the kernel log.
\<close>

datatype kmsg = SizeTooSmall | SortEntry | SrcAllocFailed | TempAllocFailed
  | CopyFromFailed | CopyToFailed | SortExit | HelloVikrant

type_synonym kblocks = "addr \<rightharpoonup> int32 cells"

record 'u kernel =
  kheap :: kblocks
  umem :: 'u
  klog :: "kmsg list"

text \<open>
  Services of the kernel that \<^verbatim>\<open>sys.c\<close> only calls: \<open>kmalloc\<close> chooses an address or fails;
  \<open>copy_from_user\<close> gives the words it copied, or \<open>None\<close> for a nonzero return; \<open>copy_to_user\<close>
  gives the new user memory and the number of bytes it could not copy.
\<close>

record 'u kapi =
  kmalloc :: "kblocks \<Rightarrow> nat \<Rightarrow> addr option"
  copy_from_user :: "'u \<Rightarrow> addr \<Rightarrow> nat \<Rightarrow> int32 list option"
  copy_to_user :: "'u \<Rightarrow> addr \<Rightarrow> int32 list \<Rightarrow> 'u \<times> nat"

definition printk :: "kmsg \<Rightarrow> 'u kernel \<Rightarrow> 'u kernel" where
  "printk m s = s\<lparr>klog := klog s @ [m]\<rparr>"

definition kblock :: "addr \<Rightarrow> int32 cells \<Rightarrow> 'u kernel \<Rightarrow> 'u kernel" where
  "kblock p c s = s\<lparr>kheap := (kheap s)(p \<mapsto> c)\<rparr>"

definition kfree :: "addr \<Rightarrow> 'u kernel \<Rightarrow> 'u kernel" where
  "kfree p s = s\<lparr>kheap := (kheap s)(p := None)\<rparr>"

text \<open>\<^verbatim>\<open>*(kernel_src_buffer + i) = *(temp_kernel_src_buffer + buffer_size - 1 - i)\<close>\<close>

function reverse_into :: "int32 cells \<Rightarrow> int32 cells \<Rightarrow> nat \<Rightarrow> nat \<Rightarrow> int32 cells option" where
  "reverse_into dst src n i =
     (if i < n then do {
        x \<leftarrow> aread src (n - 1 - i);
        dst' \<leftarrow> awrite dst i x;
        reverse_into dst' src n (i + 1)
      } else Some dst)"
  by pat_completeness auto
termination
  by (relation "measure (\<lambda>(dst, src, n, i). n - i)") auto

declare reverse_into.simps [simp del]

text \<open>
  The handler once the user's words are in the temporary buffer \<open>temp_p\<close>: sort, reverse into
  \<open>src_p\<close>, copy out. Only \<open>src_p\<close> is freed.
\<close>

definition my_sort_body ::
  "'u kapi \<Rightarrow> 'u kernel \<Rightarrow> addr \<Rightarrow> addr \<Rightarrow> nat \<Rightarrow> addr \<Rightarrow> (int \<times> 'u kernel) option" where
  "my_sort_body api s src_p temp_p n sorted_buffer = do {
     temp \<leftarrow> kheap s temp_p;
     temp \<leftarrow> mergesort temp 0 (n - 1);
     let s = kblock temp_p temp s;
     dst \<leftarrow> kheap s src_p;
     dst \<leftarrow> reverse_into dst temp n 0;
     let s = kblock src_p dst s;
     ws \<leftarrow> those dst;
     let (u, left) = copy_to_user api (umem s) sorted_buffer ws;
     let s = s\<lparr>umem := u\<rparr>;
     (if left \<noteq> 0
      then Some (- EFAULT, kfree src_p (printk CopyToFailed s))
      else Some (0, printk SortExit (kfree src_p s))) }"

definition my_sort ::
  "'u kapi \<Rightarrow> 'u kernel \<Rightarrow> addr \<Rightarrow> 32 word \<Rightarrow> addr \<Rightarrow> (int \<times> 'u kernel) option" where
  "my_sort api s src_buffer buffer_size sorted_buffer =
     (let n = unat buffer_size; bytes = wrap32 (4 * n) in
      if n < 256 then Some (- EINVAL, printk SizeTooSmall s)
      else
        let s = printk SortEntry s in
        case kmalloc api (kheap s) bytes of
          None \<Rightarrow> Some (- ENOSPC, printk SrcAllocFailed s)
        | Some src_p \<Rightarrow>
            let s = kblock src_p (uninit (bytes div 4)) s in
            (case kmalloc api (kheap s) bytes of
               None \<Rightarrow> Some (- ENOSPC, printk TempAllocFailed s)
             | Some temp_p \<Rightarrow>
                 let s = kblock temp_p (uninit (bytes div 4)) s in
                 (case copy_from_user api (umem s) src_buffer bytes of
                    None \<Rightarrow> Some (- EFAULT, kfree src_p (printk CopyFromFailed s))
                  | Some xs \<Rightarrow>
                      my_sort_body api (kblock temp_p (map Some xs) s) src_p temp_p n sorted_buffer)))"

definition viks_hello :: "'u kernel \<Rightarrow> int \<times> 'u kernel" where
  "viks_hello s = (0, printk HelloVikrant s)"

lemma reverse_into_spec:
  assumes "length ys + (n - i) = n" "length xs = n" "i \<le> n" "ys = take i (rev xs)"
  shows "reverse_into (buf n ys) (map Some xs) n i = Some (map Some (rev xs))"
  using assms
proof (induction "n - i" arbitrary: i ys)
  case 0
  then show ?case by (subst reverse_into.simps) (simp add: buf_full)
next
  case (Suc d)
  then have i: "i < n" "length ys = i" by auto
  have "rev xs ! i = xs ! (n - 1 - i)" using i Suc.prems by (simp add: rev_nth)
  then have "ys @ [xs ! (n - 1 - i)] = take (Suc i) (rev xs)"
    using i Suc.prems by (simp add: take_Suc_conv_app_nth)
  moreover have "reverse_into (buf n (take (Suc i) (rev xs))) (map Some xs) n (Suc i)
      = Some (map Some (rev xs))"
    by (rule Suc.hyps) (use i Suc in auto)
  moreover have "awrite (buf n ys) i (xs ! (n - 1 - i)) = Some (buf n (ys @ [xs ! (n - 1 - i)]))"
    using awrite_buf [of ys n] i by simp
  ultimately show ?case using i Suc.prems
    by (subst reverse_into.simps) (simp add: array_simps)
qed

section \<open>What the handler does on each path\<close>

definition kmalloc_fresh :: "'u kapi \<Rightarrow> bool" where
  "kmalloc_fresh api \<longleftrightarrow> (\<forall>h n p. kmalloc api h n = Some p \<longrightarrow> h p = None)"

lemma mergesort_256:
  assumes "length xs = 256"
  shows "mergesort (map Some xs) 0 255 = Some (map Some (sort_signed xs))"
proof -
  have "seg xs 0 (Suc 255) = xs" using assms by (simp add: seg_def)
  with mergesort_spec [of 0 255 xs] assms show ?thesis by (simp add: temp_size_def put_def)
qed

lemma my_sort_body_256:
  assumes "kheap s p = Some (uninit 256)" "kheap s q = Some (map Some xs)" "p \<noteq> q" "length xs = 256"
  shows "my_sort_body api s p q 256 dst =
     (let (u, left) = copy_to_user api (umem s) dst (rev (sort_signed xs));
          s' = s\<lparr>kheap := (kheap s)(q \<mapsto> map Some (sort_signed xs), p := None), umem := u\<rparr>
      in Some (if left \<noteq> 0 then (- EFAULT, printk CopyToFailed s') else (0, printk SortExit s')))"
proof -
  have "reverse_into (uninit 256) (map Some (sort_signed xs)) 256 0
      = Some (map Some (rev (sort_signed xs)))"
    using reverse_into_spec [of "[]" 256 0 "sort_signed xs"] assms by simp
  with mergesort_256 [OF assms(4)] assms(1-3) show ?thesis
    by (simp add: my_sort_body_def kblock_def kfree_def printk_def Let_def fun_upd_twist split: prod.split)
qed

text \<open>The whole handler on a buffer of 256 words, once it has its memory and its input.\<close>

lemma my_sort_256:
  assumes p: "kmalloc api (kheap s) 1024 = Some p" "kheap s p = None"
    and q: "kmalloc api ((kheap s)(p \<mapsto> uninit 256)) 1024 = Some q" "((kheap s)(p \<mapsto> uninit 256)) q = None"
    and xs: "copy_from_user api (umem s) src 1024 = Some xs" "length xs = 256"
  shows "my_sort api s src 256 dst =
     (let (u, left) = copy_to_user api (umem s) dst (rev (sort_signed xs));
          s' = s\<lparr>kheap := (kheap s)(q \<mapsto> map Some (sort_signed xs)), umem := u\<rparr>
      in Some (if left \<noteq> 0 then (- EFAULT, s'\<lparr>klog := klog s @ [SortEntry, CopyToFailed]\<rparr>)
               else (0, s'\<lparr>klog := klog s @ [SortEntry, SortExit]\<rparr>)))"
proof -
  have pq: "p \<noteq> q" using q(2) by auto
  let ?s = "kblock q (map Some xs) (kblock q (uninit 256) (kblock p (uninit 256) (printk SortEntry s)))"
  have "kheap ?s p = Some (uninit 256)" "kheap ?s q = Some (map Some xs)"
    using pq by (simp_all add: kblock_def printk_def)
  note body = my_sort_body_256 [OF this pq xs(2), of api dst]
  have "(kheap s)(p := None) = kheap s" using p(2) by (simp add: fun_upd_idem)
  then have "(kheap s)(q \<mapsto> c, p := None) = (kheap s)(q \<mapsto> c)" for c
    using pq by (simp add: fun_upd_twist)
  with p q xs body show ?thesis
    by (simp add: my_sort_def printk_def kblock_def Let_def fun_upd_twist [OF pq] split: prod.split)
qed

lemma my_sort_small [simp]:
  "unat n < 256 \<Longrightarrow> my_sort api s src n dst = Some (- EINVAL, printk SizeTooSmall s)"
  by (simp add: my_sort_def)

lemma my_sort_body_long:
  assumes "my_sort_body api s p q n dst = Some r" "256 \<le> n" "n < 2 ^ 32"
  shows "n = 256"
proof -
  from assms(1) obtain a b where "mergesort a 0 (n - 1) = Some b"
    by (auto simp: my_sort_body_def bind_eq_Some_conv)
  from mergesort_fits [OF this] assms(2,3) show ?thesis by (simp add: temp_size_def)
qed

lemma my_sort_body_Some:
  assumes "my_sort_body api s p q n dst = Some (r, s')"
  shows "(r = 0 \<or> r = - 14) \<and> (\<exists>t. kheap s' = (kheap s)(q \<mapsto> t, p := None))"
  using assms
  by (auto simp: my_sort_body_def bind_eq_Some_conv case_prod_unfold Let_def kblock_def kfree_def
      printk_def errno_defs split: if_splits)

section \<open>The contract of the kernel's services\<close>

text \<open>
  What the handler relies on: a copy from the user delivers as many words as it was asked for, a
  complete copy to the user can be read back, and \<open>kmalloc\<close> never returns a live block.
\<close>

locale user_access =
  fixes cfu :: "'u \<Rightarrow> addr \<Rightarrow> nat \<Rightarrow> int32 list option"
    and ctu :: "'u \<Rightarrow> addr \<Rightarrow> int32 list \<Rightarrow> 'u \<times> nat"
  assumes cfu_length: "cfu u p n = Some xs \<Longrightarrow> length xs = n div 4"
    and ctu_cfu: "ctu u p xs = (u', 0) \<Longrightarrow> cfu u' p (4 * length xs) = Some xs"

locale kernel_services = user_access +
  fixes km :: "kblocks \<Rightarrow> nat \<Rightarrow> addr option"
  assumes km_fresh: "km h n = Some p \<Longrightarrow> h p = None"
begin

lemma whole_buffer:
  assumes "km (kheap s) 1024 = Some p" "km ((kheap s)(p \<mapsto> uninit 256)) 1024 = Some q"
    and "cfu (umem s) src 1024 = Some xs"
  shows "my_sort \<lparr>kmalloc = km, copy_from_user = cfu, copy_to_user = ctu\<rparr> s src 256 dst =
     (let (u, left) = ctu (umem s) dst (rev (sort_signed xs));
          s' = s\<lparr>kheap := (kheap s)(q \<mapsto> map Some (sort_signed xs)), umem := u\<rparr>
      in Some (if left \<noteq> 0 then (- EFAULT, s'\<lparr>klog := klog s @ [SortEntry, CopyToFailed]\<rparr>)
               else (0, s'\<lparr>klog := klog s @ [SortEntry, SortExit]\<rparr>)))"
  using my_sort_256 [of "\<lparr>kmalloc = km, copy_from_user = cfu, copy_to_user = ctu\<rparr>" s p q src xs dst]
    assms km_fresh [OF assms(1)] km_fresh [OF assms(2)] cfu_length [OF assms(3)] by simp

lemma success_sorts:
  assumes "my_sort \<lparr>kmalloc = km, copy_from_user = cfu, copy_to_user = ctu\<rparr> s src n dst = Some (0, s')"
  shows "unat n = 256 \<and> (\<exists>xs. cfu (umem s) src 1024 = Some xs
           \<and> cfu (umem s') dst 1024 = Some (rev (sort_signed xs)))"
proof -
  let ?api = "\<lparr>kmalloc = km, copy_from_user = cfu, copy_to_user = ctu\<rparr>"
  let ?b = "wrap32 (4 * unat n)"
  have "\<not> unat n < 256" using assms by (auto simp: EINVAL_def)
  with assms obtain p q xs where
    p: "km (kheap s) ?b = Some p" and
    q: "km ((kheap s)(p \<mapsto> uninit (?b div 4))) ?b = Some q" and
    xs: "cfu (umem s) src ?b = Some xs" and
    body: "my_sort_body ?api (kblock q (map Some xs) (kblock q (uninit (?b div 4))
             (kblock p (uninit (?b div 4)) (printk SortEntry s)))) p q (unat n) dst = Some (0, s')"
    by (auto simp: my_sort_def Let_def printk_def kblock_def ENOSPC_def EFAULT_def
        split: option.splits if_splits)
  have "unat n < 2 ^ 32" using unsigned_less [of n] by simp
  with my_sort_body_long [OF body] \<open>\<not> unat n < 256\<close> have n: "unat n = 256" by simp
  then have b: "?b = 1024" by simp
  from km_fresh [OF q] have "p \<noteq> q" by auto
  have len: "length xs = 256" using cfu_length [OF xs] b by simp
  let ?s = "kblock q (map Some xs) (kblock q (uninit 256) (kblock p (uninit 256) (printk SortEntry s)))"
  have "my_sort_body ?api ?s p q 256 dst = Some (0, s')" using body b by (simp add: n)
  moreover have "kheap ?s p = Some (uninit 256)" "kheap ?s q = Some (map Some xs)" "umem ?s = umem s"
    using \<open>p \<noteq> q\<close> by (simp_all add: kblock_def printk_def)
  ultimately have "ctu (umem s) dst (rev (sort_signed xs)) = (umem s', 0)"
    using my_sort_body_256 [of ?s p q xs ?api dst] \<open>p \<noteq> q\<close> len
    by (auto simp: printk_def EFAULT_def Let_def split: prod.splits if_splits)
  from ctu_cfu [OF this] xs b n len show ?thesis by auto
qed

end

section \<open>Properties\<close>

text \<open>A concrete kernel for the witnesses: two addresses, and a user buffer of sevens.\<close>

definition demo_api :: "int32 list kapi" where
  "demo_api = \<lparr>kmalloc = (\<lambda>h n. if h 1 = None then Some 1 else if h 2 = None then Some 2 else None),
     copy_from_user = (\<lambda>u p n. Some (replicate (n div 4) 7)),
     copy_to_user = (\<lambda>u p ws. (ws, 0))\<rparr>"

definition demo_kernel :: "int32 list kernel" where
  "demo_kernel = \<lparr>kheap = Map.empty, umem = [], klog = []\<rparr>"

lemma demo_fresh: "kmalloc_fresh demo_api"
  by (auto simp: kmalloc_fresh_def demo_api_def split: if_splits)

text \<open>C1: with a buffer of exactly 256 words, memory for both kernel buffers and working copies,
  the system call returns 0, hands the user the words in descending signed order, writes its two
  log lines, and leaves the caller's other state alone; of its two kernel buffers only one is
  freed, the temporary one (\<open>q\<close>) stays allocated.\<close>

theorem my_sort_result:
  assumes "kmalloc_fresh api"
    and p: "kmalloc api (kheap s) 1024 = Some p"
    and q: "kmalloc api ((kheap s)(p \<mapsto> uninit 256)) 1024 = Some q"
    and xs: "copy_from_user api (umem s) src 1024 = Some xs" "length xs = 256"
    and out: "copy_to_user api (umem s) dst (rev (sort_signed xs)) = (u, 0)"
  shows "my_sort api s src 256 dst
    = Some (0, s\<lparr>kheap := (kheap s)(q \<mapsto> map Some (sort_signed xs)), umem := u,
                 klog := klog s @ [SortEntry, SortExit]\<rparr>)"
proof -
  have "kheap s p = None" "((kheap s)(p \<mapsto> uninit 256)) q = None"
    using assms(1) p q unfolding kmalloc_fresh_def by blast+
  from my_sort_256 [OF p this(1) q this(2) xs] out show ?thesis by simp
qed

theorem my_sort_result_witness:
  "\<exists>s'. my_sort demo_api demo_kernel 100 256 200 = Some (0, s') \<and> umem s' = rev (sort_signed (replicate 256 7))
     \<and> kheap s' = [2 \<mapsto> map Some (sort_signed (replicate 256 7))]"
  using my_sort_result [of demo_api demo_kernel 1 2 100 "replicate 256 7" 200
      "rev (sort_signed (replicate 256 7))", OF demo_fresh]
  by (simp add: demo_api_def demo_kernel_def)

text \<open>C2: the recursive merge sort of the kernel, on any range of at most 256 cells of an
  initialised array, returns (no access leaves the array or \<open>temp\<close>) and replaces exactly that
  range by its sorted permutation.\<close>

theorem mergesort_sorts_range:
  assumes "lo \<le> hi" "hi < length xs" "length xs \<le> 2 ^ 31" "hi - lo < 256"
  shows "\<exists>ys. mergesort (map Some xs) lo hi = Some (map Some ys) \<and> length ys = length xs
     \<and> take lo ys = take lo xs \<and> drop (Suc hi) ys = drop (Suc hi) xs
     \<and> mset ys = mset xs \<and> sorted (map sint (seg ys lo (Suc hi)))"
proof -
  let ?seg = "seg xs lo (Suc hi)"
  let ?ys = "put xs lo (sort_signed ?seg)"
  have len: "lo + length (sort_signed ?seg) = Suc hi" using assms by simp
  have "mset ?ys = mset (take lo xs @ ?seg @ drop (Suc hi) xs)" using len by (simp add: put_def)
  also have "\<dots> = mset xs" using assms(1) take_seg_drop [of lo "Suc hi" xs] by simp
  finally have "mset ?ys = mset xs" .
  moreover have "seg ?ys lo (Suc hi) = sort_signed ?seg"
    using seg_put_same [of lo "sort_signed ?seg" xs] assms by (simp add: len)
  moreover have "take lo ?ys = take lo xs" "drop (Suc hi) ?ys = drop (Suc hi) xs"
    "length ?ys = length xs"
    using assms len by (simp_all add: put_def)
  ultimately show ?thesis
    using mergesort_spec [OF assms(1-3)] assms(4) by (auto simp: temp_size_def)
qed

theorem mergesort_sorts_range_witness:
  "\<exists>ys. mergesort (map Some [3, 1, 2]) 0 1 = Some (map Some ys) \<and> mset ys = mset [3, 1, 2 :: int32]"
  using mergesort_sorts_range [of 0 1 "[3, 1, 2]"] by auto

text \<open>Sorting more than 256 elements always runs off the 256 cells of \<open>temp\<close> (or never
  returns): the final \<open>merge\<close> stores one element of the whole range after another.\<close>

lemma mergesort_overruns_temp:
  assumes "256 \<le> hi" "hi < 2 ^ 32"
  shows "mergesort a 0 hi = None"
proof (rule ccontr)
  assume "mergesort a 0 hi \<noteq> None"
  then obtain b where "mergesort a 0 hi = Some b" by auto
  from mergesort_fits [OF this] assms show False by (simp add: temp_size_def)
qed

lemma my_sort_too_long:
  assumes "256 < unat n"
    and "kmalloc api (kheap s) (wrap32 (4 * unat n)) = Some p"
    and "kmalloc api ((kheap s)(p \<mapsto> uninit (wrap32 (4 * unat n) div 4))) (wrap32 (4 * unat n)) = Some q"
    and "copy_from_user api (umem s) src (wrap32 (4 * unat n)) = Some xs"
  shows "my_sort api s src n dst = None"
proof (rule ccontr)
  assume "my_sort api s src n dst \<noteq> None"
  with assms obtain r s' where "my_sort_body api s' p q (unat n) dst = Some r"
    by (auto simp: my_sort_def printk_def kblock_def Let_def)
  moreover have "unat n < 2 ^ 32" using unsigned_less [of n] by simp
  ultimately show False using my_sort_body_long assms(1) by fastforce
qed

text \<open>C5: for every buffer size above 256 (which the size check lets pass) the system call, once
  it has its two buffers and the user's words, has undefined behaviour.\<close>

theorem my_sort_overrun:
  assumes "256 < unat n"
    and "kmalloc api (kheap s) (wrap32 (4 * unat n)) = Some p"
    and "kmalloc api ((kheap s)(p \<mapsto> uninit (wrap32 (4 * unat n) div 4))) (wrap32 (4 * unat n)) = Some q"
    and "copy_from_user api (umem s) src (wrap32 (4 * unat n)) = Some xs"
  shows "my_sort api s src n dst = None"
  using my_sort_too_long [OF assms] .

theorem my_sort_overrun_witness: "my_sort demo_api demo_kernel 100 257 200 = None"
  by (rule my_sort_overrun [where p = 1 and q = 2 and xs = "replicate 257 7"])
     (simp_all add: demo_api_def demo_kernel_def)


text \<open>Each failure at a small size, at each of the two allocations, and at each of the two copies.\<close>

definition failing_api :: "nat \<Rightarrow> int32 list kapi" where
  "failing_api i = demo_api\<lparr>kmalloc := (\<lambda>h n. if i = 1 \<or> i = 2 \<and> h 1 \<noteq> None then None else kmalloc demo_api h n),
     copy_from_user := (\<lambda>u p n. if i = 3 then None else copy_from_user demo_api u p n),
     copy_to_user := (\<lambda>u p ws. if i = 4 then (take 10 ws, 984) else copy_to_user demo_api u p ws)\<rparr>"


text \<open>memory leak. Every call that gets past its two allocations, whether it returns 0 or
  EFAULT, leaves the kernel with exactly one more live block than before.\<close>

lemma my_sort_leaks_one_block:
  assumes "kmalloc_fresh api" and "my_sort api s src n dst = Some (r, s')" and "r = 0 \<or> r = - 14"
  shows "\<exists>q. q \<notin> dom (kheap s) \<and> dom (kheap s') = insert q (dom (kheap s))"
proof -
  let ?b = "wrap32 (4 * unat n)" let ?u = "uninit (?b div 4) :: int32 cells"
  from assms(2,3) obtain p q where
    p: "kmalloc api (kheap s) ?b = Some p" and q: "kmalloc api ((kheap s)(p \<mapsto> ?u)) ?b = Some q"
    and rest: "s' = kfree p (printk CopyFromFailed (kblock q ?u (kblock p ?u (printk SortEntry s))))
      \<or> (\<exists>xs. my_sort_body api (kblock q (map Some xs) (kblock q ?u (kblock p ?u (printk SortEntry s))))
            p q (unat n) dst = Some (r, s'))"
    by (fastforce simp: my_sort_def printk_def kblock_def kfree_def errno_defs Let_def
        split: if_splits option.splits)
  have pn: "kheap s p = None" using assms(1) p by (simp add: kmalloc_fresh_def)
  have qn: "((kheap s)(p \<mapsto> ?u)) q = None" using assms(1) q unfolding kmalloc_fresh_def by blast
  then have pq: "p \<noteq> q" by auto
  have "dom (kheap s') = insert q (dom (kheap s))"
    using rest
  proof
    assume "s' = kfree p (printk CopyFromFailed (kblock q ?u (kblock p ?u (printk SortEntry s))))"
    with pn pq show ?thesis by (auto simp: kfree_def printk_def kblock_def)
  next
    assume "\<exists>xs. my_sort_body api (kblock q (map Some xs) (kblock q ?u (kblock p ?u (printk SortEntry s))))
            p q (unat n) dst = Some (r, s')"
    then obtain t xs where "kheap s' = (kheap s)(p \<mapsto> ?u, q \<mapsto> ?u, q \<mapsto> map Some xs, q \<mapsto> t, p := None)"
      by (auto dest!: my_sort_body_Some simp: kblock_def printk_def)
    moreover have "dom ((kheap s)(p \<mapsto> ?u, q \<mapsto> ?u, q \<mapsto> map Some xs, q \<mapsto> t, p := None))
        = insert q (dom (kheap s))" using pn pq by auto
    ultimately show ?thesis by simp
  qed
  moreover have "q \<notin> dom (kheap s)" using qn pq by auto
  ultimately show ?thesis by blast
qed

end
