(* ===== verification/SortClients.thy ===== *)
theory SortClients
  imports MySort
begin

text \<open>
  The user programs that invoke the sort system call: \<^verbatim>\<open>HW2_APES/PROBLEM5/regression_test/my_sort.c\<close>,
  \<^verbatim>\<open>HW2_APES/PROBLEM6/cron.c\<close> and \<^verbatim>\<open>HW2_APES/PROBLEM5/regression_test/regression_test.c\<close>, each running
  against the kernel of theory \<open>MySort\<close>.

  The memory of a process is its heap of \<open>int32_t\<close> blocks. Where \<open>malloc\<close> and \<open>kmalloc\<close> place a
  block and whether they have room, what an indeterminate cell holds, the values of \<open>rand\<close> and what
  \<open>getpid\<close>, \<open>getuid\<close>, \<open>ctime\<close> and \<open>fopen\<close> return are parameters. \<open>crashed\<close>: the program has used a null
  pointer, left a block, or entered undefined behaviour in the kernel; it then does nothing more.
\<close>

section \<open>User memory\<close>

type_synonym umemory = "addr \<rightharpoonup> int32 cells"

text \<open>What a read of a cell gives when \<open>g\<close> is what indeterminate cells hold.\<close>

definition held :: "(addr \<Rightarrow> nat \<Rightarrow> int32) \<Rightarrow> addr \<Rightarrow> nat \<Rightarrow> int32 option \<Rightarrow> int32" where
  "held g p i c = (case c of Some v \<Rightarrow> v | None \<Rightarrow> g p i)"

text \<open>
  \<open>copy_from_user\<close> and \<open>copy_to_user\<close> on this memory: they fail when the range is not inside a block
  (at the null pointer there is none).
\<close>

definition user_read :: "(addr \<Rightarrow> nat \<Rightarrow> int32) \<Rightarrow> umemory \<Rightarrow> addr \<Rightarrow> nat \<Rightarrow> int32 list option" where
  "user_read g u p n = (if n = 0 then Some [] else case u p of
     None \<Rightarrow> None
   | Some c \<Rightarrow> if n div 4 \<le> length c then Some (map (\<lambda>i. held g p i (c ! i)) [0..<n div 4]) else None)"

definition user_write :: "umemory \<Rightarrow> addr \<Rightarrow> int32 list \<Rightarrow> umemory \<times> nat" where
  "user_write u p ws = (case u p of
     None \<Rightarrow> (u, 4 * length ws)
   | Some c \<Rightarrow> if length ws \<le> length c then (u(p \<mapsto> put c 0 (map Some ws)), 0) else (u, 4 * length ws))"

text \<open>An allocator is the choice of an address; the choice of a live block counts as no room.\<close>

definition checked_alloc :: "((addr \<rightharpoonup> 'b) \<Rightarrow> nat \<Rightarrow> addr option) \<Rightarrow> (addr \<rightharpoonup> 'b) \<Rightarrow> nat \<Rightarrow> addr option" where
  "checked_alloc choice h n = (case choice h n of
     None \<Rightarrow> None
   | Some p \<Rightarrow> if p = 0 \<or> h p \<noteq> None then None else Some p)"

lemma checked_alloc_fresh: "checked_alloc choice h n = Some p \<Longrightarrow> h p = None \<and> p \<noteq> 0"
  by (auto simp: checked_alloc_def split: option.splits if_splits)

lemma user_read_length: "user_read g u p n = Some xs \<Longrightarrow> length xs = n div 4"
  by (auto simp: user_read_def split: option.splits if_splits)

lemma user_read_written: "user_write u p ws = (u', 0) \<Longrightarrow> user_read g u' p (4 * length ws) = Some ws"
  by (auto simp: user_write_def user_read_def put_def held_def nth_append split: option.splits if_splits
      intro!: nth_equalityI)

text \<open>These operations satisfy the contract that the system call relies on.\<close>

interpretation user: user_access "user_read g" user_write for g
  by (rule user_access.intro) (erule user_read_length, erule user_read_written)

interpretation services: kernel_services "user_read g" user_write "checked_alloc choice" for g choice
  by unfold_locales (drule checked_alloc_fresh, blast)

section \<open>The state of a run\<close>

datatype uline = SrcNotAllocated | SortedNotAllocated | BufferSize nat | InputHeading | NewRow
  | Word int32 | Invoked | NotInvoked | SortedHeading | Passed nat | Failed nat | TooSmall
  | Case3Failed | OpenFailed | Stars | Ids int int string

record world =
  kern :: "umemory kernel"
  rands :: nat
  stdout :: "uline list"
  cron_txt :: "uline list"
  crashed :: bool

record env =
  malloc_choice :: "umemory \<Rightarrow> nat \<Rightarrow> addr option"
  kmalloc_choice :: "kblocks \<Rightarrow> nat \<Rightarrow> addr option"
  garbage :: "addr \<Rightarrow> nat \<Rightarrow> int32"
  rand :: "nat \<Rightarrow> nat"
  pid_no :: int
  uid_no :: int
  ctime :: string
  cron_opens :: bool

abbreviation user_mem :: "world \<Rightarrow> umemory" where
  "user_mem w \<equiv> umem (kern w)"

abbreviation api :: "env \<Rightarrow> umemory kapi" where
  "api e \<equiv> \<lparr>kmalloc = checked_alloc (kmalloc_choice e), copy_from_user = user_read (garbage e),
     copy_to_user = user_write\<rparr>"

text \<open>A crashed program makes no step.\<close>

definition alive :: "(world \<Rightarrow> world) \<Rightarrow> world \<Rightarrow> world" where
  "alive f w = (if crashed w then w else f w)"

definition crash :: "world \<Rightarrow> world" where
  "crash w = w\<lparr>crashed := True\<rparr>"

definition set_mem :: "umemory \<Rightarrow> world \<Rightarrow> world" where
  "set_mem u w = w\<lparr>kern := (kern w)\<lparr>umem := u\<rparr>\<rparr>"

definition printf :: "uline \<Rightarrow> world \<Rightarrow> world" where
  "printf l = alive (\<lambda>w. w\<lparr>stdout := stdout w @ [l]\<rparr>)"

definition fprintf :: "uline \<Rightarrow> world \<Rightarrow> world" where
  "fprintf l = alive (\<lambda>w. w\<lparr>cron_txt := cron_txt w @ [l]\<rparr>)"

text \<open>The null pointer is 0.\<close>

definition malloc :: "env \<Rightarrow> nat \<Rightarrow> world \<Rightarrow> addr \<times> world" where
  "malloc e n w = (if crashed w then (0, w) else
     case checked_alloc (malloc_choice e) (user_mem w) n of
       None \<Rightarrow> (0, w)
     | Some p \<Rightarrow> (p, set_mem ((user_mem w)(p \<mapsto> uninit (n div 4))) w))"

definition ufree :: "addr \<Rightarrow> world \<Rightarrow> world" where
  "ufree p = alive (\<lambda>w. if p = 0 then w else set_mem ((user_mem w)(p := None)) w)"

definition store :: "addr \<Rightarrow> nat \<Rightarrow> int32 \<Rightarrow> world \<Rightarrow> world" where
  "store p i v = alive (\<lambda>w. case Option.bind (user_mem w p) (\<lambda>c. awrite c i v) of
     None \<Rightarrow> crash w
   | Some c \<Rightarrow> set_mem ((user_mem w)(p \<mapsto> c)) w)"

text \<open>\<^verbatim>\<open>*(p + i) = rand() % m\<close>\<close>

definition store_rand :: "env \<Rightarrow> nat \<Rightarrow> addr \<Rightarrow> nat \<Rightarrow> world \<Rightarrow> world" where
  "store_rand e m p i = alive (\<lambda>w.
     store p i (word_of_nat (rand e (rands w) mod m)) (w\<lparr>rands := rands w + 1\<rparr>))"

text \<open>Print \<^verbatim>\<open>*(p + i)\<close>, with \<open>out\<close> one of the two printing functions.\<close>

definition print_word :: "(uline \<Rightarrow> world \<Rightarrow> world) \<Rightarrow> env \<Rightarrow> addr \<Rightarrow> nat \<Rightarrow> world \<Rightarrow> world" where
  "print_word out e p i = alive (\<lambda>w. case user_mem w p of
     None \<Rightarrow> crash w
   | Some c \<Rightarrow> if i < length c then out (Word (held (garbage e) p i (c ! i))) w else crash w)"

definition print_row :: "(uline \<Rightarrow> world \<Rightarrow> world) \<Rightarrow> nat \<Rightarrow> world \<Rightarrow> world" where
  "print_row out i w = (if i mod 8 = 0 then out NewRow w else w)"

definition for_loop :: "nat \<Rightarrow> (nat \<Rightarrow> world \<Rightarrow> world) \<Rightarrow> world \<Rightarrow> world" where
  "for_loop n body w = fold body [0..<n] w"

text \<open>\<^verbatim>\<open>syscall(399, ...)\<close>: the library turns an error code into -1.\<close>

definition syscall399 :: "env \<Rightarrow> addr \<Rightarrow> nat \<Rightarrow> addr \<Rightarrow> world \<Rightarrow> int \<times> world" where
  "syscall399 e src n dst w = (if crashed w then (-1, w) else
     case my_sort (api e) (kern w) src (word_of_nat n) dst of
       None \<Rightarrow> (-1, crash w)
     | Some (r, k) \<Rightarrow> (if r < 0 then -1 else r, w\<lparr>kern := k\<rparr>))"

section \<open>The programs\<close>

definition my_sort_main :: "env \<Rightarrow> world \<Rightarrow> world" where
  "my_sort_main e w =
    (let (src, w) = malloc e (4 * 256) w;
         w = (if src = 0 then printf SrcNotAllocated w else w);
         (dst, w) = malloc e (4 * 256) w;
         w = (if dst = 0 then printf SortedNotAllocated w else w);
         w = printf (BufferSize 256) w;
         w = printf InputHeading w;
         w = for_loop 256 (\<lambda>i w. print_word printf e src i (store_rand e 1024 src i (print_row printf i w))) w;
         (stat, w) = syscall399 e src 256 dst w;
         w = printf (if stat = 0 then Invoked else NotInvoked) w;
         w = printf SortedHeading w
     in for_loop 256 (\<lambda>i w. print_word printf e dst i (print_row printf i w)) w)"

text \<open>
  A log file that does not open is announced and then used; \<open>fclose\<close> and the freeing come
  last.
\<close>

definition cron_main :: "env \<Rightarrow> world \<Rightarrow> world" where
  "cron_main e w =
    (let w = (if cron_opens e then w else printf OpenFailed w);
         (src, w) = malloc e (4 * 256) w;
         w = (if src = 0 then printf SrcNotAllocated w else w);
         (dst, w) = malloc e (4 * 256) w;
         w = (if dst = 0 then printf SortedNotAllocated w else w);
         w = for_loop 256 (\<lambda>i. store_rand e 255 src i) w;
         (stat, w) = syscall399 e src 256 dst w;
         w = printf (if stat = 0 then Invoked else NotInvoked) w;
         w = (if cron_opens e then w else alive crash w);
         w = fprintf Stars w;
         w = fprintf (Ids (pid_no e) (uid_no e) (ctime e)) w;
         w = fprintf (BufferSize 256) w;
         w = fprintf InputHeading w;
         w = for_loop 256 (\<lambda>i w. print_word fprintf e src i (print_row fprintf i w)) w;
         w = fprintf SortedHeading w;
         w = for_loop 256 (\<lambda>i w. print_word fprintf e dst i (print_row fprintf i w)) w
     in ufree dst (ufree src w))"

text \<open>
  The regression test: one function per test case, which ends with its verdict. The variables keep
  their values between the cases, but every case sets all of them.
\<close>

definition verdict :: "nat \<Rightarrow> bool \<Rightarrow> world \<Rightarrow> world" where
  "verdict n ok = printf (if ok then Passed n else Failed n)"

text \<open>The loops over the input and the output buffer.\<close>

definition fill_and_print :: "env \<Rightarrow> addr \<Rightarrow> nat \<Rightarrow> world \<Rightarrow> world" where
  "fill_and_print e src n = for_loop n (\<lambda>i w. print_word printf e src i (store_rand e 1024 src i w))"

definition print_buffer :: "env \<Rightarrow> addr \<Rightarrow> nat \<Rightarrow> world \<Rightarrow> world" where
  "print_buffer e dst n = for_loop n (\<lambda>i. print_word printf e dst i)"

definition test0 :: "env \<Rightarrow> world \<Rightarrow> world" where
  "test0 e w =
    (let (src, w) = malloc e (4 * 256) w;
         dst = 0;
         w = printf InputHeading (printf (BufferSize 256) w);
         w = fill_and_print e src 256 w;
         (stat, w) = syscall399 e src 256 dst w;
         w = printf (if stat \<noteq> 0 then Invoked else NotInvoked) w;
         w = print_buffer e dst 256 (printf SortedHeading w);
         w = ufree src (ufree dst w)
     in verdict 0 (stat \<noteq> 0) w)"

definition test1 :: "env \<Rightarrow> world \<Rightarrow> world" where
  "test1 e w =
    (let (src, w) = malloc e (4 * 5) w;
         (dst, w) = malloc e (4 * 5) w;
         w = printf InputHeading (printf (BufferSize 5) w);
         w = fill_and_print e src 5 w;
         (stat, w) = syscall399 e src 5 dst w;
         w = printf (if stat \<noteq> 0 then Invoked else NotInvoked) w;
         w = print_buffer e dst 5 (printf SortedHeading w);
         w = ufree src (ufree dst w)
     in verdict 1 (stat \<noteq> 0) w)"

text \<open>The test \<^verbatim>\<open>buffer_size < 0\<close> of the second case is never true: the size is unsigned.\<close>

definition test2 :: "env \<Rightarrow> world \<Rightarrow> world" where
  "test2 e w =
    (let (src, w) = malloc e (4 * 256) w;
         w = (if src = 0 then printf SrcNotAllocated w else w);
         (dst, w) = malloc e (4 * 256) w;
         w = (if dst = 0 then printf SortedNotAllocated w else w);
         w = printf InputHeading (printf (BufferSize 256) w);
         w = fill_and_print e src 256 w;
         (stat, w) = syscall399 e src 256 dst w;
         w = printf (if stat = 0 then Invoked else NotInvoked) w;
         w = print_buffer e dst 256 (printf SortedHeading w);
         w = ufree dst (ufree src w)
     in verdict 2 (src \<noteq> 0 \<and> dst \<noteq> 0 \<and> stat = 0) w)"

definition test3 :: "env \<Rightarrow> world \<Rightarrow> world" where
  "test3 e w =
    (let small = (5 :: nat) < 256;
         w = (if small then printf TooSmall w else w);
         (src, w) = malloc e (4 * 5) w;
         w = (if src = 0 then printf SrcNotAllocated w else w);
         (dst, w) = malloc e (4 * 5) w;
         w = (if dst = 0 then printf SortedNotAllocated w else w);
         w = printf InputHeading (printf (BufferSize 5) w);
         w = fill_and_print e src 5 w;
         (stat, w) = syscall399 e src 5 dst w;
         w = printf (if stat = 0 then Invoked else NotInvoked) w;
         w = print_buffer e dst 5 (printf SortedHeading w);
         w = ufree src (ufree dst w)
     in verdict 3 (\<not> small \<and> src \<noteq> 0 \<and> dst \<noteq> 0 \<and> stat = 0) w)"

definition test4 :: "env \<Rightarrow> world \<Rightarrow> world" where
  "test4 e w =
    (let small = (256 :: nat) < 256;
         w = (if small then printf TooSmall w else w);
         src = 0;
         w = (if src = 0 then printf Case3Failed (printf SrcNotAllocated w) else w);
         (dst, w) = malloc e (4 * 256) w;
         w = (if dst = 0 then printf SortedNotAllocated w else w);
         w = printf InputHeading (printf (BufferSize 256) w);
         w = fill_and_print e src 256 w;
         (stat, w) = syscall399 e src 256 dst w;
         w = printf (if stat = 0 then Invoked else NotInvoked) w;
         w = print_buffer e dst 256 (printf SortedHeading w);
         w = ufree dst w
     in verdict 4 (\<not> small \<and> src \<noteq> 0 \<and> dst \<noteq> 0 \<and> stat = 0) w)"

definition regression_main :: "env \<Rightarrow> world \<Rightarrow> world" where
  "regression_main e w = test4 e (test3 e (test2 e (test1 e (test0 e w))))"

section \<open>The operations of a live program\<close>

lemma live_ops:
  assumes "\<not> crashed w"
  shows "printf l w = w\<lparr>stdout := stdout w @ [l]\<rparr>" "fprintf l w = w\<lparr>cron_txt := cron_txt w @ [l]\<rparr>"
    "user_mem w p = Some c \<Longrightarrow> i < length c \<Longrightarrow>
       store p i v w = set_mem ((user_mem w)(p \<mapsto> c[i := Some v])) w"
    "user_mem w p = None \<Longrightarrow> store p i v w = crash w"
    "user_mem w p = Some c \<Longrightarrow> i < length c \<Longrightarrow>
       print_word out e p i w = out (Word (held (garbage e) p i (c ! i))) w"
    "user_mem w p = None \<Longrightarrow> print_word out e p i w = crash w"
  using assms by (simp_all add: printf_def fprintf_def alive_def store_def print_word_def awrite_def)

lemma crashed_ops [simp]:
  assumes "crashed w"
  shows "printf l w = w" "fprintf l w = w" "ufree p w = w" "store p i v w = w"
    "store_rand e m p i w = w" "print_word out e p i w = w" "malloc e n w = (0, w)"
    "syscall399 e src n dst w = (-1, w)" "alive f w = w"
  using assms by (simp_all add: printf_def fprintf_def ufree_def alive_def store_def store_rand_def
      print_word_def malloc_def syscall399_def)

lemma for_loop_rule:
  assumes "S 0 = w" "\<And>i. i < n \<Longrightarrow> body i (S i) = S (Suc i)"
  shows "for_loop n body w = S n"
proof -
  have "i \<le> n \<Longrightarrow> fold body [0..<i] w = S i" for i
    by (induction i) (use assms in simp_all)
  then show ?thesis by (simp add: for_loop_def)
qed

lemma for_loop_crashed [simp]:
  assumes "crashed w" "\<And>i w. crashed w \<Longrightarrow> body i w = w"
  shows "for_loop n body w = w"
  by (rule for_loop_rule [where S = "\<lambda>_. w"]) (use assms in auto)

section \<open>What the loops print and store\<close>

text \<open>The numbers drawn by the next \<open>n\<close> calls of \<open>rand\<close>, and the lines for a list of words.\<close>

definition drawn :: "env \<Rightarrow> nat \<Rightarrow> nat \<Rightarrow> nat \<Rightarrow> int32 list" where
  "drawn e m r n = map (\<lambda>k. word_of_nat (rand e (r + k) mod m)) [0..<n]"

definition rows :: "int32 list \<Rightarrow> uline list" where
  "rows xs = concat (map (\<lambda>i. (if i mod 8 = 0 then [NewRow] else []) @ [Word (xs ! i)]) [0..<length xs])"

definition contents :: "env \<Rightarrow> addr \<Rightarrow> int32 cells \<Rightarrow> int32 list" where
  "contents e p c = map (\<lambda>i. held (garbage e) p i (c ! i)) [0..<length c]"

lemma drawn_Suc: "drawn e m r (Suc n) = drawn e m r n @ [word_of_nat (rand e (r + n) mod m)]"
  by (simp add: drawn_def)

lemma length_drawn [simp]: "length (drawn e m r n) = n"
  by (simp add: drawn_def)

lemma rows_snoc: "rows (xs @ [x]) = rows xs @ (if length xs mod 8 = 0 then [NewRow] else []) @ [Word x]"
proof -
  have "map (\<lambda>i. (if i mod 8 = 0 then [NewRow] else []) @ [Word ((xs @ [x]) ! i)]) [0..<length xs]
      = map (\<lambda>i. (if i mod 8 = 0 then [NewRow] else []) @ [Word (xs ! i)]) [0..<length xs]"
    by (simp add: nth_append)
  then show ?thesis by (simp add: rows_def del: map_eq_conv)
qed

lemma contents_Some [simp]: "contents e p (map Some xs) = xs"
  by (rule nth_equalityI) (simp_all add: contents_def held_def)

lemma contents_uninit [simp]: "contents e p (uninit n) = map (garbage e p) [0..<n]"
  by (simp add: contents_def held_def)

lemma update_buf: "length xs < n \<Longrightarrow> (buf n xs)[length xs := Some v] = buf n (xs @ [v])"
  using awrite_buf [of xs n v] by (auto simp: awrite_def split: if_splits)

text \<open>The state after memory, \<open>rand\<close> counter and console have changed.\<close>

definition later :: "umemory \<Rightarrow> nat \<Rightarrow> uline list \<Rightarrow> world \<Rightarrow> world" where
  "later u k ls w = w\<lparr>kern := (kern w)\<lparr>umem := u\<rparr>, rands := rands w + k, stdout := stdout w @ ls\<rparr>"

lemma store_rand_step:
  assumes "\<not> crashed w" "user_mem w p = Some (buf n xs)" "length xs = i" "i < n"
  shows "store_rand e m p i w = later ((user_mem w)(p \<mapsto> buf n (xs @ [word_of_nat (rand e (rands w) mod m)]))) 1 [] w"
  using assms by (simp add: store_rand_def alive_def live_ops set_mem_def later_def update_buf [symmetric])

lemma later_simps [simp]:
  "crashed (later u k ls w) = crashed w" "user_mem (later u k ls w) = u" "rands (later u k ls w) = rands w + k"
  "later v j ms (later u k ls w) = later v (k + j) (ls @ ms) w" "stdout (later u k ls w) = stdout w @ ls"
  "cron_txt (later u k ls w) = cron_txt w" "kheap (kern (later u k ls w)) = kheap (kern w)"
  by (simp_all add: later_def)

lemma printf_later: "\<not> crashed w \<Longrightarrow> printf l w = later (user_mem w) 0 [l] w"
  by (simp add: live_ops later_def)

text \<open>The three loops that fill the input buffer.\<close>

lemma fill_loop:
  assumes "\<not> crashed w" "user_mem w p = Some (uninit n)" "\<And>xs. ls xs = concat (map (\<lambda>i. pre i @ post (xs ! i)) [0..<length xs])"
    and "\<And>i v xs. \<not> crashed v \<Longrightarrow> user_mem v p = Some (buf n xs) \<Longrightarrow> length xs = i \<Longrightarrow> i < n \<Longrightarrow>
       body i v = (let x = word_of_nat (rand e (rands v) mod m)
         in later ((user_mem v)(p \<mapsto> buf n (xs @ [x]))) 1 (pre i @ post x) v)"
  shows "for_loop n body w = later ((user_mem w)(p \<mapsto> map Some (drawn e m (rands w) n))) n (ls (drawn e m (rands w) n)) w"
proof -
  let ?S = "\<lambda>i. later ((user_mem w)(p \<mapsto> buf n (drawn e m (rands w) i))) i (ls (drawn e m (rands w) i)) w"
  have snoc: "ls (xs @ [x]) = ls xs @ pre (length xs) @ post x" for xs x
  proof -
    have "map (\<lambda>i. pre i @ post ((xs @ [x]) ! i)) [0..<length xs] = map (\<lambda>i. pre i @ post (xs ! i)) [0..<length xs]"
      by (simp add: nth_append)
    then show ?thesis by (simp add: assms(3) del: map_eq_conv)
  qed
  have "(user_mem w)(p \<mapsto> uninit n) = user_mem w" using assms(2) by (simp add: fun_upd_idem)
  moreover have "ls [] = []" by (simp add: assms(3))
  ultimately have "?S 0 = w" by (simp add: drawn_def later_def)
  moreover have "body i (?S i) = ?S (Suc i)" if "i < n" for i
    using that assms(1) by (subst assms(4) [of _ "drawn e m (rands w) i"]) (simp_all add: drawn_Suc snoc Let_def)
  ultimately have "for_loop n body w = ?S n" by (rule for_loop_rule)
  then show ?thesis by (simp add: buf_full)
qed

lemma print_stored:
  assumes "\<not> crashed w" "user_mem w p = Some (buf n (xs @ [x]))" "length xs = i" "i < n"
  shows "print_word printf e p i w = later (user_mem w) 0 [Word x] w"
proof -
  have "buf n (xs @ [x]) ! i = Some x" "i < length (buf n (xs @ [x]))"
    using aread_buf [of i "xs @ [x]" n] assms(3,4) by (auto simp: aread_def split: if_splits)
  with assms show ?thesis by (simp add: live_ops held_def later_def)
qed

lemma fill_rows:
  assumes "\<not> crashed w" "user_mem w p = Some (uninit n)"
  shows "for_loop n (\<lambda>i w. print_word printf e p i (store_rand e m p i (print_row printf i w))) w
    = later ((user_mem w)(p \<mapsto> map Some (drawn e m (rands w) n))) n (rows (drawn e m (rands w) n)) w"
  using assms
  by (rule fill_loop [where pre = "\<lambda>i. if i mod 8 = 0 then [NewRow] else []" and post = "\<lambda>x. [Word x]"])
     (simp_all add: rows_def print_row_def printf_later store_rand_step print_stored Let_def)

lemma fill_plain:
  assumes "\<not> crashed w" "user_mem w p = Some (uninit n)"
  shows "fill_and_print e p n w
    = later ((user_mem w)(p \<mapsto> map Some (drawn e 1024 (rands w) n))) n (map Word (drawn e 1024 (rands w) n)) w"
proof -
  have "map Word xs = concat (map (\<lambda>i. [] @ [Word (xs ! i)]) [0..<length xs])" for xs
    by (rule nth_equalityI) (simp_all add: concat_map_singleton)
  from fill_loop [OF assms this] show ?thesis
    by (simp add: fill_and_print_def store_rand_step print_stored Let_def)
qed

lemma fill_silent:
  assumes "\<not> crashed w" "user_mem w p = Some (uninit n)"
  shows "for_loop n (store_rand e m p) w = later ((user_mem w)(p \<mapsto> map Some (drawn e m (rands w) n))) n [] w"
  using assms
  by (rule fill_loop [where pre = "\<lambda>_. []" and post = "\<lambda>_. []" and ls = "\<lambda>_. []"])
     (simp_all add: store_rand_step Let_def)

text \<open>The loops that print a buffer, on the console or into the log.\<close>

definition logged :: "uline list \<Rightarrow> world \<Rightarrow> world" where
  "logged ls w = w\<lparr>cron_txt := cron_txt w @ ls\<rparr>"

lemma print_loop:
  assumes "\<not> crashed w" "user_mem w p = Some c" "\<And>l v. \<not> crashed v \<Longrightarrow> out l v = app [l] v"
    and "\<And>v. app [] v = v" "\<And>a b v. app b (app a v) = app (a @ b) v"
    and "\<And>ls v. crashed (app ls v) = crashed v" "\<And>ls v. user_mem (app ls v) = user_mem v"
  shows "for_loop (length c) (\<lambda>i w. print_word out e p i (print_row out i w)) w = app (rows (contents e p c)) w"
proof -
  let ?S = "\<lambda>i. app (rows (map (\<lambda>k. held (garbage e) p k (c ! k)) [0..<i])) w"
  have "for_loop (length c) (\<lambda>i w. print_word out e p i (print_row out i w)) w = ?S (length c)"
    by (rule for_loop_rule)
       (use assms in \<open>simp_all add: rows_snoc live_ops print_row_def\<close>, simp add: rows_def)
  then show ?thesis by (simp add: contents_def)
qed

lemma print_rows:
  assumes "\<not> crashed w" "user_mem w p = Some c" "length c = n"
  shows "for_loop n (\<lambda>i w. print_word printf e p i (print_row printf i w)) w
      = later (user_mem w) 0 (rows (contents e p c)) w"
    and "for_loop n (\<lambda>i w. print_word fprintf e p i (print_row fprintf i w)) w = logged (rows (contents e p c)) w"
  using print_loop [of w p c printf "\<lambda>ls v. later (user_mem v) 0 ls v" e]
    print_loop [of w p c fprintf logged e] assms
  by (simp_all add: printf_later live_ops logged_def later_def)

section \<open>Memory and the system call\<close>

lemma malloc_ok:
  assumes "\<not> crashed w" "malloc e n w = (p, w')" "p \<noteq> 0"
  shows "w' = later ((user_mem w)(p \<mapsto> uninit (n div 4))) 0 [] w" "user_mem w p = None"
  using assms checked_alloc_fresh [of "malloc_choice e" "user_mem w" n p]
  by (auto simp: malloc_def set_mem_def later_def split: option.splits)

lemma malloc_failed: "malloc e n w = (0, w') \<Longrightarrow> w' = w"
  using checked_alloc_fresh [of "malloc_choice e" "user_mem w" n 0]
  by (auto simp: malloc_def split: option.splits if_splits)

lemma malloc_not_null: "\<not> crashed w \<Longrightarrow> user_mem w 0 = None \<Longrightarrow> malloc e n w = (p, w') \<Longrightarrow> user_mem w' 0 = None"
  using malloc_ok [of w e n p w'] malloc_failed [of e n w w'] by (cases "p = 0") auto

text \<open>The kernel has memory for its two buffers of 1024 bytes.\<close>

definition kernel_room :: "env \<Rightarrow> world \<Rightarrow> bool" where
  "kernel_room e w = (case checked_alloc (kmalloc_choice e) (kheap (kern w)) 1024 of
     None \<Rightarrow> False
   | Some p \<Rightarrow> checked_alloc (kmalloc_choice e) ((kheap (kern w))(p \<mapsto> uninit 256)) 1024 \<noteq> None)"

lemma kernel_room_later [simp]: "kernel_room e (later u k ls w) = kernel_room e w"
  by (simp add: kernel_room_def cong: option.case_cong)

lemma my_sort_no_room:
  assumes "\<not> kernel_room e w"
  shows "\<exists>k. my_sort (api e) (kern w) src 256 dst = Some (- ENOSPC, k) \<and> umem k = user_mem w"
  using assms by (auto simp: kernel_room_def my_sort_def Let_def printk_def kblock_def split: option.splits)

text \<open>A call with 256 initialised words: the output buffer is absent or has 256 cells.\<close>

lemma syscall_256:
  assumes w: "\<not> crashed w" "user_mem w src = Some (map Some xs)" "length xs = 256"
    and dst: "user_mem w dst = None \<or> (\<exists>c. user_mem w dst = Some c \<and> length c = 256)"
  shows "\<exists>k. syscall399 e src 256 dst w
      = (if kernel_room e w \<and> user_mem w dst \<noteq> None then 0 else -1, w\<lparr>kern := k\<rparr>)
    \<and> umem k = (if kernel_room e w \<and> user_mem w dst \<noteq> None
               then (user_mem w)(dst \<mapsto> map Some (rev (sort_signed xs))) else user_mem w)"
proof (cases "kernel_room e w")
  case False
  then obtain k where "my_sort (api e) (kern w) src 256 dst = Some (- ENOSPC, k)" "umem k = user_mem w"
    using my_sort_no_room by blast
  with False w(1) show ?thesis by (auto simp: syscall399_def ENOSPC_def)
next
  case True
  then obtain p q where "checked_alloc (kmalloc_choice e) (kheap (kern w)) 1024 = Some p"
    "checked_alloc (kmalloc_choice e) ((kheap (kern w))(p \<mapsto> uninit 256)) 1024 = Some q"
    by (auto simp: kernel_room_def split: option.splits)
  moreover have "user_read (garbage e) (user_mem w) src 1024 = Some xs"
    using w(2,3) by (auto simp: user_read_def held_def intro!: nth_equalityI)
  ultimately have "my_sort (api e) (kern w) src 256 dst =
     (let (u, left) = user_write (user_mem w) dst (rev (sort_signed xs));
          s' = (kern w)\<lparr>kheap := (kheap (kern w))(q \<mapsto> map Some (sort_signed xs)), umem := u\<rparr>
      in Some (if left \<noteq> 0 then (- EFAULT, s'\<lparr>klog := klog (kern w) @ [SortEntry, CopyToFailed]\<rparr>)
               else (0, s'\<lparr>klog := klog (kern w) @ [SortEntry, SortExit]\<rparr>)))"
    by (rule services.whole_buffer)
  with True dst w show ?thesis
    by (cases "user_mem w dst") (force simp: syscall399_def user_write_def put_def EFAULT_def)+
qed

text \<open>A loop whose first round crashes.\<close>

lemma fold_crashed: "crashed w \<Longrightarrow> (\<And>i v. crashed v \<Longrightarrow> body i v = v) \<Longrightarrow> fold body is w = w"
  by (induction "is") auto

lemma for_loop_crash:
  assumes "0 < n" "crashed (body 0 w)" "\<And>i v. crashed v \<Longrightarrow> body i v = v"
  shows "for_loop n body w = body 0 w"
proof -
  have "[0..<n] = 0 # [1..<n]" using assms(1) by (simp add: upt_conv_Cons)
  then show ?thesis using fold_crashed [OF assms(2,3)] by (simp add: for_loop_def)
qed

lemma null_loops:
  assumes "user_mem w 0 = None" "\<not> crashed w" "0 < n"
  shows "crashed (for_loop n (\<lambda>i w. print_word printf e 0 i (store_rand e m 0 i (print_row printf i w))) w)"
    "crashed (for_loop n (\<lambda>i w. print_word printf e 0 i (print_row printf i w)) w)"
    "crashed (for_loop n (store_rand e m 0) w)"
    "fill_and_print e 0 n w = crash (w\<lparr>rands := rands w + 1\<rparr>)"
    "print_buffer e 0 n w = crash w"
proof -
  have st: "user_mem v 0 = None \<Longrightarrow> \<not> crashed v \<Longrightarrow> store_rand e m 0 i v = crash (v\<lparr>rands := rands v + 1\<rparr>)" for v i m
    by (simp add: store_rand_def alive_def live_ops)
  have cr: "crashed (crash v)" for v by (simp add: crash_def)
  have r: "crashed v \<Longrightarrow> print_row printf i v = v" for i v by (simp add: print_row_def)
  have p: "print_row printf 0 v = later (user_mem v) 0 [NewRow] v" if "\<not> crashed v" for v
    using that by (simp add: print_row_def printf_later)
  show "crashed (for_loop n (\<lambda>i w. print_word printf e 0 i (store_rand e m 0 i (print_row printf i w))) w)"
    using assms by (subst for_loop_crash) (simp_all add: p st cr r)
  show "crashed (for_loop n (\<lambda>i w. print_word printf e 0 i (print_row printf i w)) w)"
    using assms by (subst for_loop_crash) (simp_all add: p live_ops cr r)
  show "crashed (for_loop n (store_rand e m 0) w)"
    using assms by (subst for_loop_crash) (simp_all add: st cr)
  show "fill_and_print e 0 n w = crash (w\<lparr>rands := rands w + 1\<rparr>)" unfolding fill_and_print_def
    using assms by (subst for_loop_crash) (simp_all add: st cr)
  show "print_buffer e 0 n w = crash w" unfolding print_buffer_def
    using assms by (subst for_loop_crash) (simp_all add: live_ops cr)
qed

lemma print_row_crashed [simp]: "crashed w \<Longrightarrow> print_row printf i w = w" "crashed w \<Longrightarrow> print_row fprintf i w = w"
  by (simp_all add: print_row_def)

text \<open>A live program, with nothing at the null pointer.\<close>

definition running :: "world \<Rightarrow> bool" where
  "running w \<longleftrightarrow> \<not> crashed w \<and> user_mem w 0 = None"

lemma running_printf [simp]: "running (printf l w) = running w"
  by (cases "crashed w") (simp_all add: running_def printf_later)

lemma running_malloc: "running w \<Longrightarrow> malloc e n w = (p, w') \<Longrightarrow> running w'"
  using malloc_ok(1) [of w e n p w'] malloc_failed [of e n w w'] malloc_not_null [of w e n p w']
  by (cases "p = 0") (auto simp: running_def)

text \<open>Two allocations of 256 words that succeed.\<close>

lemma two_buffers:
  assumes "running w" "malloc e 1024 w = (p, w1)" "malloc e 1024 w1 = (q, w2)" "p \<noteq> 0" "q \<noteq> 0"
  shows "w1 = later ((user_mem w)(p \<mapsto> uninit 256)) 0 [] w"
    "w2 = later ((user_mem w)(p \<mapsto> uninit 256, q \<mapsto> uninit 256)) 0 [] w" "p \<noteq> q"
proof -
  have w: "\<not> crashed w" using assms(1) by (simp add: running_def)
  show 1: "w1 = later ((user_mem w)(p \<mapsto> uninit 256)) 0 [] w"
    using malloc_ok(1) [OF w assms(2,4)] by simp
  then have "\<not> crashed w1" using w by simp
  from malloc_ok [OF this assms(3,5)] 1 show
    "w2 = later ((user_mem w)(p \<mapsto> uninit 256, q \<mapsto> uninit 256)) 0 [] w" "p \<noteq> q"
    by (auto split: if_splits)
qed

section \<open>The paths of the programs\<close>

abbreviation loop_in :: "env \<Rightarrow> addr \<Rightarrow> world \<Rightarrow> world" where
  "loop_in e p \<equiv> for_loop 256 (\<lambda>i w. print_word printf e p i (store_rand e 1024 p i (print_row printf i w)))"

abbreviation loop_out :: "env \<Rightarrow> addr \<Rightarrow> world \<Rightarrow> world" where
  "loop_out e p \<equiv> for_loop 256 (\<lambda>i w. print_word printf e p i (print_row printf i w))"

text \<open>The words in the second buffer after the call.\<close>

definition sorted_words :: "env \<Rightarrow> world \<Rightarrow> int32 list \<Rightarrow> addr \<Rightarrow> int32 list" where
  "sorted_words e w xs dst = (if kernel_room e w then rev (sort_signed xs) else map (garbage e dst) [0..<256])"

text \<open>A call with two buffers.\<close>

lemma syscall_two_buffers:
  assumes "\<not> crashed w" "user_mem w = m(dst \<mapsto> uninit 256, src \<mapsto> map Some xs)" "length xs = 256" "src \<noteq> dst"
  shows "\<exists>k c. syscall399 e src 256 dst w = (if kernel_room e w then 0 else -1, w\<lparr>kern := k\<rparr>)
    \<and> umem k = m(dst \<mapsto> c, src \<mapsto> map Some xs) \<and> length c = 256 \<and> contents e dst c = sorted_words e w xs dst"
proof -
  let ?c = "if kernel_room e w then map Some (rev (sort_signed xs)) else uninit 256"
  obtain k where "syscall399 e src 256 dst w = (if kernel_room e w then 0 else -1, w\<lparr>kern := k\<rparr>)"
    "umem k = (if kernel_room e w then (user_mem w)(dst \<mapsto> map Some (rev (sort_signed xs))) else user_mem w)"
    using syscall_256 [of w src xs dst e] assms by auto
  then show ?thesis using assms
    by (intro exI [of _ k] exI [of _ ?c]) (simp add: sorted_words_def fun_upd_twist)
qed

lemma my_sort_main_runs:
  assumes "running w" "malloc e (4 * 256) w = (src, w1)" "malloc e (4 * 256) w1 = (dst, w2)" "src \<noteq> 0" "dst \<noteq> 0"
  defines "xs \<equiv> drawn e 1024 (rands w) 256"
  shows "\<not> crashed (my_sort_main e w) \<and> stdout (my_sort_main e w) = stdout w @ [BufferSize 256, InputHeading] @ rows xs
      @ [if kernel_room e w then Invoked else NotInvoked, SortedHeading] @ rows (sorted_words e w xs dst)"
proof -
  have m: "malloc e 1024 w = (src, w1)" "malloc e 1024 w1 = (dst, w2)" using assms(2,3) by simp_all
  note b = two_buffers [OF assms(1) m assms(4,5)]
  have w: "\<not> crashed w" using assms(1) by (simp add: running_def)
  let ?m = "(user_mem w)(dst \<mapsto> uninit 256, src \<mapsto> map Some xs)"
  let ?v = "later ?m 256 ([BufferSize 256, InputHeading] @ rows xs) w"
  let ?stat = "if kernel_room e w then 0 else - 1 :: int"
  have fill: "loop_in e src (printf InputHeading (printf (BufferSize 256) w2)) = ?v"
    using w b(3) fill_rows [of "later ((user_mem w)(src \<mapsto> uninit 256, dst \<mapsto> uninit 256)) 0
      [BufferSize 256, InputHeading] w" src 256 e 1024]
    by (simp add: b(2) printf_later xs_def fun_upd_twist)
  obtain k c where k: "syscall399 e src 256 dst ?v = (?stat, ?v\<lparr>kern := k\<rparr>)"
    "umem k = (user_mem w)(dst \<mapsto> c, src \<mapsto> map Some xs)" "length c = 256"
    "contents e dst c = sorted_words e w xs dst"
    using syscall_two_buffers [of ?v "user_mem w" dst src xs e] w b(3) by (auto simp: xs_def sorted_words_def)
  let ?t = "?v\<lparr>kern := k, stdout := stdout ?v @ [if kernel_room e w then Invoked else NotInvoked, SortedHeading]\<rparr>"
  have "printf SortedHeading (printf (if ?stat = 0 then Invoked else NotInvoked) (?v\<lparr>kern := k\<rparr>)) = ?t"
    using w by (simp add: live_ops)
  moreover have "my_sort_main e w = loop_out e dst
      (printf SortedHeading (printf (if ?stat = 0 then Invoked else NotInvoked) (?v\<lparr>kern := k\<rparr>)))"
    unfolding my_sort_main_def Let_def
    by (simp only: assms(2-5) prod.case simp_thms if_False fill k(1))
  ultimately have "my_sort_main e w = later (umem k) 0 (rows (contents e dst c)) ?t"
    using print_rows(1) [of ?t dst c 256 e] w b(3) k(2,3) by simp
  with w k(4) show ?thesis by (simp add: later_def)
qed

lemma my_sort_main_no_src:
  assumes "running w" "malloc e (4 * 256) w = (0, w1)"
  shows "crashed (my_sort_main e w)"
proof -
  have r: "running (printf SrcNotAllocated w1)" using running_malloc [OF assms] by simp
  obtain q w3 where q: "malloc e (4 * 256) (printf SrcNotAllocated w1) = (q, w3)" by fastforce
  let ?in = "printf InputHeading (printf (BufferSize 256) (if q = 0 then printf SortedNotAllocated w3 else w3))"
  have "running ?in" using running_malloc [OF r q] by simp
  then have c: "crashed (loop_in e 0 ?in)" using null_loops(1) by (simp add: running_def)
  have "my_sort_main e w = loop_in e 0 ?in"
    unfolding my_sort_main_def Let_def by (simp only: assms(2) prod.case simp_thms if_True q) (simp add: c)
  with c show ?thesis by simp
qed

lemma my_sort_main_no_dst:
  assumes "running w" "malloc e (4 * 256) w = (src, w1)" "malloc e (4 * 256) w1 = (0, w2)" "src \<noteq> 0"
  shows "crashed (my_sort_main e w)"
proof -
  let ?xs = "drawn e 1024 (rands w) 256"
  have w: "\<not> crashed w" "user_mem w 0 = None" using assms(1) by (simp_all add: running_def)
  have w1: "w1 = later ((user_mem w)(src \<mapsto> uninit 256)) 0 [] w"
    using malloc_ok(1) [OF w(1) assms(2,4)] by simp
  have w2: "w2 = w1" using malloc_failed assms(3) by blast
  let ?v = "later ((user_mem w)(src \<mapsto> map Some ?xs)) 256 ([SortedNotAllocated, BufferSize 256, InputHeading] @ rows ?xs) w"
  have fill: "loop_in e src (printf InputHeading (printf (BufferSize 256) (printf SortedNotAllocated w2))) = ?v"
    using w fill_rows [of "later ((user_mem w)(src \<mapsto> uninit 256)) 0 [SortedNotAllocated, BufferSize 256, InputHeading] w"
        src 256 e 1024]
    by (simp add: w1 w2 printf_later)
  obtain k where k: "syscall399 e src 256 0 ?v = (-1, ?v\<lparr>kern := k\<rparr>)" "umem k = user_mem ?v"
    using syscall_256 [of ?v src ?xs 0 e] w assms(4) by auto
  let ?t = "printf SortedHeading (printf NotInvoked (?v\<lparr>kern := k\<rparr>))"
  have "user_mem ?t 0 = None" "\<not> crashed ?t" using w assms(4) k(2) by (simp_all add: live_ops)
  then have c: "crashed (loop_out e 0 ?t)" by (intro null_loops(2)) simp_all
  have "my_sort_main e w = loop_out e 0 ?t"
    unfolding my_sort_main_def Let_def
    by (simp only: assms(2-4) prod.case simp_thms if_False if_True fill k(1)) simp
  with c show ?thesis by simp
qed

lemma cron_main_runs:
  assumes "running w" "malloc e (4 * 256) w = (src, w1)" "malloc e (4 * 256) w1 = (dst, w2)" "src \<noteq> 0" "dst \<noteq> 0"
    and "cron_opens e"
  defines "xs \<equiv> drawn e 255 (rands w) 256"
  shows "\<not> crashed (cron_main e w) \<and> user_mem (cron_main e w) = user_mem w
    \<and> stdout (cron_main e w) = stdout w @ [if kernel_room e w then Invoked else NotInvoked]
    \<and> cron_txt (cron_main e w) = cron_txt w @ [Stars, Ids (pid_no e) (uid_no e) (ctime e), BufferSize 256, InputHeading]
        @ rows xs @ [SortedHeading] @ rows (sorted_words e w xs dst)"
proof -
  have m: "malloc e 1024 w = (src, w1)" "malloc e 1024 w1 = (dst, w2)" using assms(2,3) by simp_all
  note b = two_buffers [OF assms(1) m assms(4,5)]
  have w: "\<not> crashed w" using assms(1) by (simp add: running_def)
  let ?v = "later ((user_mem w)(dst \<mapsto> uninit 256, src \<mapsto> map Some xs)) 256 [] w"
  let ?stat = "if kernel_room e w then 0 else - 1 :: int"
  have fill: "for_loop 256 (\<lambda>i. store_rand e 255 src i) w2 = ?v"
    using w b(3) fill_silent [of w2 src 256 e 255] by (simp add: b(2) xs_def fun_upd_twist)
  obtain k c where k: "syscall399 e src 256 dst ?v = (?stat, ?v\<lparr>kern := k\<rparr>)"
    "umem k = (user_mem w)(dst \<mapsto> c, src \<mapsto> map Some xs)" "length c = 256"
    "contents e dst c = sorted_words e w xs dst"
    using syscall_two_buffers [of ?v "user_mem w" dst src xs e] w b(3) by (auto simp: xs_def sorted_words_def)
  let ?t = "logged [Stars, Ids (pid_no e) (uid_no e) (ctime e), BufferSize 256, InputHeading]
      (printf (if ?stat = 0 then Invoked else NotInvoked) (?v\<lparr>kern := k\<rparr>))"
  let ?out = "\<lambda>p. for_loop 256 (\<lambda>i w. print_word fprintf e p i (print_row fprintf i w))"
  have live: "\<not> crashed ?t" "user_mem ?t = umem k" using w by (simp_all add: logged_def live_ops)
  have log: "fprintf InputHeading (fprintf (BufferSize 256) (fprintf (Ids (pid_no e) (uid_no e) (ctime e)) (fprintf Stars
      (printf (if ?stat = 0 then Invoked else NotInvoked) (?v\<lparr>kern := k\<rparr>))))) = ?t"
    using w by (simp add: live_ops logged_def)
  have o1: "?out src ?t = logged (rows xs) ?t"
    using print_rows(2) [of ?t src "map Some xs" 256 e] live k(2) b(3) by (simp add: xs_def)
  have o2: "?out dst (fprintf SortedHeading (logged ls v))
      = logged (rows (sorted_words e w xs dst)) (logged [SortedHeading] (logged ls v))"
    if "\<not> crashed v" "user_mem v = umem k" for ls v
    using print_rows(2) [of "fprintf SortedHeading (logged ls v)" dst c 256 e] that k(2-4) b(3)
    by (simp add: logged_def live_ops)
  have "cron_main e w = ufree dst (ufree src (?out dst (fprintf SortedHeading (?out src ?t))))"
    unfolding cron_main_def Let_def
    by (simp only: assms(2-6) prod.case simp_thms if_False if_True fill k(1) log)
  then have main: "cron_main e w = ufree dst (ufree src (logged (rows (sorted_words e w xs dst)) (logged [SortedHeading] (logged (rows xs) ?t))))"
    by (simp only: o1 o2 [OF live])
  have "user_mem w dst = None" "user_mem w src = None"
    using malloc_ok(2) [OF w assms(2,4)] malloc_ok(2) [of w1 e 1024 dst w2] m assms(5) w b(1,3) by (auto split: if_splits)
  then have "(user_mem w)(dst := None, src := None) = user_mem w" by (simp add: fun_upd_idem)
  with w live k(2) b(3) assms(4,5) show ?thesis unfolding main
    by (simp add: ufree_def alive_def logged_def set_mem_def live_ops fun_upd_twist)
qed

lemma cron_txt_frame:
  "cron_txt (printf l w) = cron_txt w" "malloc e n w = (p, w') \<Longrightarrow> cron_txt w' = cron_txt w"
  "syscall399 e src n dst w = (r, w') \<Longrightarrow> cron_txt w' = cron_txt w"
  "cron_txt (for_loop n (\<lambda>i. store_rand e m q i) w) = cron_txt w" "cron_txt (alive crash w) = cron_txt w"
proof -
  have st: "cron_txt (store_rand e m q i v) = cron_txt v" for i v
    by (auto simp: store_rand_def store_def alive_def crash_def set_mem_def split: option.splits)
  have fs: "cron_txt (fold (store_rand e m q) ks v) = cron_txt v" for ks v
    by (induction ks arbitrary: v) (simp_all add: st)
  show "cron_txt (for_loop n (\<lambda>i. store_rand e m q i) w) = cron_txt w"
    using fs by (simp add: for_loop_def)
qed (auto simp: printf_def alive_def malloc_def set_mem_def syscall399_def crash_def split: option.splits if_splits)

text \<open>A log that does not open: the program crashes before it has written to it.\<close>

lemma cron_main_no_file:
  assumes "\<not> cron_opens e"
  shows "crashed (cron_main e w) \<and> cron_txt (cron_main e w) = cron_txt w"
proof -
  obtain p w1 q w2 st w3 where
    p: "malloc e (4 * 256) (printf OpenFailed w) = (p, w1)" and
    q: "malloc e (4 * 256) (if p = 0 then printf SrcNotAllocated w1 else w1) = (q, w2)" and
    st: "syscall399 e p 256 q (for_loop 256 (\<lambda>i. store_rand e 255 p i)
      (if q = 0 then printf SortedNotAllocated w2 else w2)) = (st, w3)" by (metis surj_pair)
  let ?w = "alive crash (printf (if st = 0 then Invoked else NotInvoked) w3)"
  have c: "crashed ?w" by (simp add: alive_def crash_def)
  have "cron_txt w3 = cron_txt w"
    using cron_txt_frame(2) [OF p] cron_txt_frame(2) [OF q] cron_txt_frame(3) [OF st]
    by (simp add: cron_txt_frame(1,4) split: if_splits)
  then have "cron_txt ?w = cron_txt w" by (simp only: cron_txt_frame(1,5))
  moreover have "cron_main e w = ?w"
    unfolding cron_main_def Let_def by (simp only: assms if_False p q st prod.case) (simp add: c)
  ultimately show ?thesis using c by simp
qed

text \<open>The regression test.\<close>

lemma crashed_loops [simp]:
  "crashed w \<Longrightarrow> fill_and_print e p n w = w" "crashed w \<Longrightarrow> print_buffer e p n w = w"
  by (simp_all add: fill_and_print_def print_buffer_def)

lemma crashed_tests [simp]:
  assumes "crashed w"
  shows "test1 e w = w" "test2 e w = w" "test3 e w = w" "test4 e w = w"
  using assms by (simp_all add: test1_def test2_def test3_def test4_def verdict_def)

lemma test0_no_src:
  assumes "running w" "malloc e (4 * 256) w = (0, w1)"
  shows "crashed (test0 e w) \<and> stdout (test0 e w) = stdout w @ [BufferSize 256, InputHeading]"
proof -
  have w: "\<not> crashed w" "user_mem w 0 = None" using assms(1) by (simp_all add: running_def)
  have "w1 = w" using malloc_failed assms(2) by blast
  then have "fill_and_print e 0 256 (printf InputHeading (printf (BufferSize 256) w1))
      = crash (later (user_mem w) 1 [BufferSize 256, InputHeading] w)"
    using w null_loops(4) [of "printf InputHeading (printf (BufferSize 256) w)" 256 e]
    by (simp add: live_ops later_def crash_def)
  moreover have "crashed (crash v)" "stdout (crash v) = stdout v" for v by (simp_all add: crash_def)
  ultimately show ?thesis using assms(2) by (simp add: test0_def verdict_def)
qed

lemma test0_src:
  assumes "running w" "malloc e (4 * 256) w = (src, w1)" "src \<noteq> 0"
  shows "crashed (test0 e w) \<and> stdout (test0 e w)
    = stdout w @ [BufferSize 256, InputHeading] @ map Word (drawn e 1024 (rands w) 256) @ [Invoked, SortedHeading]"
proof -
  let ?xs = "drawn e 1024 (rands w) 256"
  have w: "\<not> crashed w" "user_mem w 0 = None" using assms(1) by (simp_all add: running_def)
  have w1: "w1 = later ((user_mem w)(src \<mapsto> uninit 256)) 0 [] w"
    using malloc_ok(1) [OF w(1) assms(2,3)] by simp
  let ?v = "later ((user_mem w)(src \<mapsto> map Some ?xs)) 256 ([BufferSize 256, InputHeading] @ map Word ?xs) w"
  have fill: "fill_and_print e src 256 (printf InputHeading (printf (BufferSize 256) w1)) = ?v"
    using w fill_plain [of "later ((user_mem w)(src \<mapsto> uninit 256)) 0 [BufferSize 256, InputHeading] w" src 256 e]
    by (simp add: w1 printf_later)
  obtain k where k: "syscall399 e src 256 0 ?v = (-1, ?v\<lparr>kern := k\<rparr>)" "umem k = user_mem ?v"
    using syscall_256 [of ?v src ?xs 0 e] w assms(3) by auto
  let ?t = "printf SortedHeading (printf Invoked (?v\<lparr>kern := k\<rparr>))"
  have "print_buffer e 0 256 ?t = crash ?t"
    using w assms(3) k(2) by (intro null_loops(5)) (simp_all add: live_ops)
  moreover have "crashed (crash v)" "stdout (crash v) = stdout v" for v by (simp_all add: crash_def)
  ultimately have "test0 e w = crash ?t"
    unfolding test0_def Let_def by (simp only: assms(2) prod.case fill k(1)) (simp add: verdict_def)
  with w show ?thesis by (simp add: crash_def live_ops)
qed

section \<open>Properties\<close>

text \<open>C20: the program my_sort.c together with the kernel it calls. It runs through exactly when both
  of its allocations succeed; it then prints the 256 numbers it has drawn and, when the kernel had
  memory for its two buffers, the same numbers in descending order, otherwise the failure and whatever
  the second buffer holds.\<close>

theorem my_sort_main_output:
  assumes "running w" "malloc e (4 * 256) w = (src, w1)" "malloc e (4 * 256) w1 = (dst, w2)"
  shows "(crashed (my_sort_main e w) \<longleftrightarrow> src = 0 \<or> dst = 0)
    \<and> (crashed (my_sort_main e w)
       \<or> stdout (my_sort_main e w) = stdout w @ [BufferSize 256, InputHeading] @ rows (drawn e 1024 (rands w) 256)
          @ (if kernel_room e w
             then [Invoked, SortedHeading] @ rows (rev (sort_signed (drawn e 1024 (rands w) 256)))
             else [NotInvoked, SortedHeading] @ rows (map (garbage e dst) [0..<256])))"
  using my_sort_main_runs [OF assms] my_sort_main_no_src [of w e w1] my_sort_main_no_dst [of w e src w1 w2] assms
  by (cases "src = 0"; cases "dst = 0") (simp_all add: sorted_words_def)

text \<open>A machine for the witnesses: the first free address from 1 on, and \<open>rand\<close> counts.\<close>

definition demo_env :: env where
  "demo_env = \<lparr>malloc_choice = (\<lambda>u n. Some (if u 1 = None then 1 else 2)),
     kmalloc_choice = (\<lambda>h n. Some (if h 1 = None then 1 else 2)), garbage = (\<lambda>p i. 9), rand = (\<lambda>i. i),
     pid_no = 7, uid_no = 0, ctime = ''now'', cron_opens = True\<rparr>"

definition demo_world :: world where
  "demo_world = \<lparr>kern = \<lparr>kheap = Map.empty, umem = Map.empty, klog = []\<rparr>, rands = 0, stdout = [], cron_txt = [],
     crashed = False\<rparr>"

lemma demo_running: "running demo_world"
  by (simp add: running_def demo_world_def)

lemma demo_mallocs:
  "\<exists>w1 w2. malloc demo_env (4 * 256) demo_world = (1, w1) \<and> malloc demo_env (4 * 256) w1 = (2, w2)"
  by (simp add: malloc_def checked_alloc_def demo_env_def demo_world_def set_mem_def)

lemma demo_fields: "rands demo_world = 0" "stdout demo_world = []" "cron_txt demo_world = []"
  by (simp_all add: demo_world_def)

lemma demo_room: "kernel_room demo_env demo_world"
  by (simp add: kernel_room_def checked_alloc_def demo_env_def demo_world_def)

theorem my_sort_main_output_witness:
  "stdout (my_sort_main demo_env demo_world) = [BufferSize 256, InputHeading] @ rows (drawn demo_env 1024 0 256)
     @ [Invoked, SortedHeading] @ rows (rev (sort_signed (drawn demo_env 1024 0 256)))"
proof -
  obtain w1 w2 where "malloc demo_env (4 * 256) demo_world = (1, w1)" "malloc demo_env (4 * 256) w1 = (2, w2)"
    using demo_mallocs by blast
  from my_sort_main_output [OF demo_running this] show ?thesis
    by (auto simp: demo_room demo_fields)
qed

text \<open>the cron job. With both buffers it logs its identity, the 256 numbers it has drawn and, when
  the kernel had memory, the same numbers in descending order, and frees both buffers; when the log
  does not open it crashes before it has written to it.\<close>

lemma cron_main_log:
  assumes "running w" "malloc e (4 * 256) w = (src, w1)" "malloc e (4 * 256) w1 = (dst, w2)" "src \<noteq> 0" "dst \<noteq> 0"
  shows "(crashed (cron_main e w) \<longleftrightarrow> \<not> cron_opens e)
    \<and> (\<not> crashed (cron_main e w) \<longrightarrow> user_mem (cron_main e w) = user_mem w)
    \<and> cron_txt (cron_main e w) = cron_txt w @ (if \<not> cron_opens e then [] else
        [Stars, Ids (pid_no e) (uid_no e) (ctime e), BufferSize 256, InputHeading] @ rows (drawn e 255 (rands w) 256)
        @ [SortedHeading] @ rows (if kernel_room e w then rev (sort_signed (drawn e 255 (rands w) 256))
                                  else map (garbage e dst) [0..<256]))"
  using cron_main_runs [OF assms] cron_main_no_file [of e w] by (auto simp: sorted_words_def)

text \<open>C21: the regression test never gets past its first case, whatever the memory and the kernel do:
  that case passes a null output buffer, so that the call fails (the case calls that a success), and
  then prints the words of that buffer. No verdict is ever printed and no other case runs.\<close>

theorem regression_stops_in_test0:
  assumes "running w" "malloc e (4 * 256) w = (src, w1)"
  shows "crashed (regression_main e w) \<and> stdout (regression_main e w) = stdout w @ [BufferSize 256, InputHeading]
    @ (if src = 0 then [] else map Word (drawn e 1024 (rands w) 256) @ [Invoked, SortedHeading])"
  using test0_no_src [of w e w1] test0_src [OF assms] assms
  by (cases "src = 0") (simp_all add: regression_main_def)

theorem regression_stops_in_test0_witness:
  "stdout (regression_main demo_env demo_world) = [BufferSize 256, InputHeading]
     @ map Word (drawn demo_env 1024 0 256) @ [Invoked, SortedHeading]"
proof -
  obtain w1 where "malloc demo_env (4 * 256) demo_world = (1, w1)" using demo_mallocs by blast
  from regression_stops_in_test0 [OF demo_running this] show ?thesis by (simp add: demo_fields)
qed

end
