(* ===== verification/Creds.thy ===== *)
theory Creds
  imports Prelude
begin

text \<open>
  User and group identities: \<^verbatim>\<open>setregid\<close>, \<^verbatim>\<open>setgid\<close>, \<^verbatim>\<open>setreuid\<close>, \<^verbatim>\<open>setuid\<close>, \<^verbatim>\<open>setresuid\<close>,
  \<^verbatim>\<open>setresgid\<close>, \<^verbatim>\<open>setfsuid\<close>, \<^verbatim>\<open>setfsgid\<close> and the calls that read them, of
  \<^verbatim>\<open>HW2_APES/PROBLEM5/system_call/sys.c\<close>.

  A call is a function on the calling task that returns its result and the task afterwards. Outside
  of that file, and so parameters: the mapping of ids into the kernel's ids of a user name space, the
  capability check, the security module's \<open>fix_setuid\<close> hook (which may change the new credentials),
  \<open>alloc_uid\<close> with the process counts, and whether there is memory for new credentials.
  \<open>prepare_creds\<close> gives a copy of the caller's credentials and \<open>commit_creds\<close> makes the new ones those
  of the task.
\<close>

section \<open>Credentials and the calling task\<close>

type_synonym kid = "32 word"

datatype capability = CAP_SETGID | CAP_SETUID | CAP_SYS_NICE | CAP_SYS_RESOURCE | CAP_SYS_ADMIN

record 'x cred =
  uid :: kid
  gid :: kid
  suid :: kid
  sgid :: kid
  euid :: kid
  egid :: kid
  fsuid :: kid
  fsgid :: kid
  user_ns :: nat
  user :: nat
  permitted :: "capability set"
  security :: 'x

record 'x task =
  cred :: "'x cred"
  nproc_exceeded :: bool

datatype setid_flag = LSM_SETID_ID | LSM_SETID_RE | LSM_SETID_RES | LSM_SETID_FS

record 'x id_api =
  make_kuid :: "nat \<Rightarrow> 32 word \<Rightarrow> kid"
  from_kuid :: "nat \<Rightarrow> kid \<Rightarrow> 32 word"
  make_kgid :: "nat \<Rightarrow> 32 word \<Rightarrow> kid"
  from_kgid :: "nat \<Rightarrow> kid \<Rightarrow> 32 word"
  ns_capable :: "'x cred \<Rightarrow> capability \<Rightarrow> bool"
  fix_setuid :: "setid_flag \<Rightarrow> 'x cred \<Rightarrow> 'x cred \<Rightarrow> int \<times> 'x cred"
  creds_memory :: "'x task \<Rightarrow> bool"
  alloc_uid :: "kid \<Rightarrow> nat option"
  processes :: "nat \<Rightarrow> nat"
  nproc_limit :: nat
  init_user :: nat

text \<open>\<^verbatim>\<open>(uid_t) -1\<close> means that an id is not to be changed; the kernel id -1 is the invalid one.\<close>

definition valid :: "kid \<Rightarrow> bool" where
  "valid i \<longleftrightarrow> i \<noteq> - 1"

definition commit_creds :: "'x cred \<Rightarrow> 'x task \<Rightarrow> int \<times> 'x task" where
  "commit_creds new t = (0, t\<lparr>cred := new\<rparr>)"

section \<open>The calls\<close>

definition setregid :: "'x id_api \<Rightarrow> 32 word \<Rightarrow> 32 word \<Rightarrow> 'x task \<Rightarrow> int \<times> 'x task" where
  "setregid k rgid egid' t =
    (let old = cred t; krgid = make_kgid k (user_ns old) rgid; kegid = make_kgid k (user_ns old) egid' in
     if rgid \<noteq> - 1 \<and> \<not> valid krgid then (- EINVAL, t)
     else if egid' \<noteq> - 1 \<and> \<not> valid kegid then (- EINVAL, t)
     else if \<not> creds_memory k t then (- ENOMEM, t)
     else if rgid \<noteq> - 1 \<and> \<not> (gid old = krgid \<or> egid old = krgid \<or> ns_capable k old CAP_SETGID) then (- EPERM, t)
     else
       let new = (if rgid \<noteq> - 1 then old\<lparr>gid := krgid\<rparr> else old) in
       if egid' \<noteq> - 1 \<and> \<not> (gid old = kegid \<or> egid old = kegid \<or> sgid old = kegid \<or> ns_capable k old CAP_SETGID)
       then (- EPERM, t)
       else
         let new = (if egid' \<noteq> - 1 then new\<lparr>egid := kegid\<rparr> else new);
             new = (if rgid \<noteq> - 1 \<or> (egid' \<noteq> - 1 \<and> kegid \<noteq> gid old) then new\<lparr>sgid := egid new\<rparr> else new);
             new = new\<lparr>fsgid := egid new\<rparr>
         in commit_creds new t)"

definition setgid :: "'x id_api \<Rightarrow> 32 word \<Rightarrow> 'x task \<Rightarrow> int \<times> 'x task" where
  "setgid k g t =
    (let old = cred t; kgid = make_kgid k (user_ns old) g in
     if \<not> valid kgid then (- EINVAL, t)
     else if \<not> creds_memory k t then (- ENOMEM, t)
     else if ns_capable k old CAP_SETGID
       then commit_creds (old\<lparr>gid := kgid, egid := kgid, sgid := kgid, fsgid := kgid\<rparr>) t
     else if kgid = gid old \<or> kgid = sgid old then commit_creds (old\<lparr>egid := kgid, fsgid := kgid\<rparr>) t
     else (- EPERM, t))"

text \<open>\<open>set_user\<close> also marks the task when the new user has too many processes; an error leaves the
  mark as it is.\<close>

definition set_user :: "'x id_api \<Rightarrow> 'x cred \<Rightarrow> 'x task \<Rightarrow> int \<times> 'x cred \<times> 'x task" where
  "set_user k new t = (case alloc_uid k (uid new) of
     None \<Rightarrow> (- EAGAIN, new, t)
   | Some u \<Rightarrow> (0, new\<lparr>user := u\<rparr>,
       t\<lparr>nproc_exceeded := (nproc_limit k \<le> processes k u \<and> u \<noteq> init_user k)\<rparr>))"

text \<open>The end that the four calls on user ids share: the security module, then the commit.\<close>

definition fix_and_commit :: "'x id_api \<Rightarrow> setid_flag \<Rightarrow> 'x cred \<Rightarrow> 'x cred \<Rightarrow> 'x task \<Rightarrow> int \<times> 'x task" where
  "fix_and_commit k fl new old t =
    (case fix_setuid k fl new old of (r, new) \<Rightarrow> if r < 0 then (r, t) else commit_creds new t)"

definition setreuid :: "'x id_api \<Rightarrow> 32 word \<Rightarrow> 32 word \<Rightarrow> 'x task \<Rightarrow> int \<times> 'x task" where
  "setreuid k ruid euid' t =
    (let old = cred t; kruid = make_kuid k (user_ns old) ruid; keuid = make_kuid k (user_ns old) euid' in
     if ruid \<noteq> - 1 \<and> \<not> valid kruid then (- EINVAL, t)
     else if euid' \<noteq> - 1 \<and> \<not> valid keuid then (- EINVAL, t)
     else if \<not> creds_memory k t then (- ENOMEM, t)
     else
       let new = (if ruid \<noteq> - 1 then old\<lparr>uid := kruid\<rparr> else old) in
       if ruid \<noteq> - 1 \<and> uid old \<noteq> kruid \<and> euid old \<noteq> kruid \<and> \<not> ns_capable k old CAP_SETUID then (- EPERM, t)
       else
         let new = (if euid' \<noteq> - 1 then new\<lparr>euid := keuid\<rparr> else new) in
         if euid' \<noteq> - 1 \<and> uid old \<noteq> keuid \<and> euid old \<noteq> keuid \<and> suid old \<noteq> keuid
            \<and> \<not> ns_capable k old CAP_SETUID then (- EPERM, t)
         else
           let (r, new, t) = (if uid new \<noteq> uid old then set_user k new t else (0, new, t)) in
           if r < 0 then (r, t)
           else
             let new = (if ruid \<noteq> - 1 \<or> (euid' \<noteq> - 1 \<and> keuid \<noteq> uid old) then new\<lparr>suid := euid new\<rparr> else new);
                 new = new\<lparr>fsuid := euid new\<rparr>
             in fix_and_commit k LSM_SETID_RE new old t)"

definition setuid :: "'x id_api \<Rightarrow> 32 word \<Rightarrow> 'x task \<Rightarrow> int \<times> 'x task" where
  "setuid k u t =
    (let old = cred t; kuid = make_kuid k (user_ns old) u in
     if \<not> valid kuid then (- EINVAL, t)
     else if \<not> creds_memory k t then (- ENOMEM, t)
     else if ns_capable k old CAP_SETUID then
       let new = old\<lparr>suid := kuid, uid := kuid\<rparr>;
           (r, new, t) = (if kuid \<noteq> uid old then set_user k new t else (0, new, t))
       in if r < 0 then (r, t) else fix_and_commit k LSM_SETID_ID (new\<lparr>fsuid := kuid, euid := kuid\<rparr>) old t
     else if kuid \<noteq> uid old \<and> kuid \<noteq> suid old then (- EPERM, t)
     else fix_and_commit k LSM_SETID_ID (old\<lparr>fsuid := kuid, euid := kuid\<rparr>) old t)"

definition setresuid :: "'x id_api \<Rightarrow> 32 word \<Rightarrow> 32 word \<Rightarrow> 32 word \<Rightarrow> 'x task \<Rightarrow> int \<times> 'x task" where
  "setresuid k ruid euid' suid' t =
    (let old = cred t; kruid = make_kuid k (user_ns old) ruid; keuid = make_kuid k (user_ns old) euid';
         ksuid = make_kuid k (user_ns old) suid' in
     if ruid \<noteq> - 1 \<and> \<not> valid kruid then (- EINVAL, t)
     else if euid' \<noteq> - 1 \<and> \<not> valid keuid then (- EINVAL, t)
     else if suid' \<noteq> - 1 \<and> \<not> valid ksuid then (- EINVAL, t)
     else if \<not> creds_memory k t then (- ENOMEM, t)
     else if \<not> ns_capable k old CAP_SETUID \<and>
         (ruid \<noteq> - 1 \<and> kruid \<noteq> uid old \<and> kruid \<noteq> euid old \<and> kruid \<noteq> suid old
          \<or> euid' \<noteq> - 1 \<and> keuid \<noteq> uid old \<and> keuid \<noteq> euid old \<and> keuid \<noteq> suid old
          \<or> suid' \<noteq> - 1 \<and> ksuid \<noteq> uid old \<and> ksuid \<noteq> euid old \<and> ksuid \<noteq> suid old) then (- EPERM, t)
     else
       let new = (if ruid \<noteq> - 1 then old\<lparr>uid := kruid\<rparr> else old);
           (r, new, t) = (if ruid \<noteq> - 1 \<and> kruid \<noteq> uid old then set_user k new t else (0, new, t))
       in if r < 0 then (r, t)
       else
         let new = (if euid' \<noteq> - 1 then new\<lparr>euid := keuid\<rparr> else new);
             new = (if suid' \<noteq> - 1 then new\<lparr>suid := ksuid\<rparr> else new);
             new = new\<lparr>fsuid := euid new\<rparr>
         in fix_and_commit k LSM_SETID_RES new old t)"

definition setresgid :: "'x id_api \<Rightarrow> 32 word \<Rightarrow> 32 word \<Rightarrow> 32 word \<Rightarrow> 'x task \<Rightarrow> int \<times> 'x task" where
  "setresgid k rgid egid' sgid' t =
    (let old = cred t; krgid = make_kgid k (user_ns old) rgid; kegid = make_kgid k (user_ns old) egid';
         ksgid = make_kgid k (user_ns old) sgid' in
     if rgid \<noteq> - 1 \<and> \<not> valid krgid then (- EINVAL, t)
     else if egid' \<noteq> - 1 \<and> \<not> valid kegid then (- EINVAL, t)
     else if sgid' \<noteq> - 1 \<and> \<not> valid ksgid then (- EINVAL, t)
     else if \<not> creds_memory k t then (- ENOMEM, t)
     else if \<not> ns_capable k old CAP_SETGID \<and>
         (rgid \<noteq> - 1 \<and> krgid \<noteq> gid old \<and> krgid \<noteq> egid old \<and> krgid \<noteq> sgid old
          \<or> egid' \<noteq> - 1 \<and> kegid \<noteq> gid old \<and> kegid \<noteq> egid old \<and> kegid \<noteq> sgid old
          \<or> sgid' \<noteq> - 1 \<and> ksgid \<noteq> gid old \<and> ksgid \<noteq> egid old \<and> ksgid \<noteq> sgid old) then (- EPERM, t)
     else
       let new = (if rgid \<noteq> - 1 then old\<lparr>gid := krgid\<rparr> else old);
           new = (if egid' \<noteq> - 1 then new\<lparr>egid := kegid\<rparr> else new);
           new = (if sgid' \<noteq> - 1 then new\<lparr>sgid := ksgid\<rparr> else new)
       in commit_creds (new\<lparr>fsgid := egid new\<rparr>) t)"

text \<open>These two return the old id whatever happens.\<close>

definition setfsuid :: "'x id_api \<Rightarrow> 32 word \<Rightarrow> 'x task \<Rightarrow> 32 word \<times> 'x task" where
  "setfsuid k u t =
    (let old = cred t; old_fsuid = from_kuid k (user_ns old) (fsuid old); kuid = make_kuid k (user_ns old) u in
     if \<not> valid kuid \<or> \<not> creds_memory k t then (old_fsuid, t)
     else if (kuid = uid old \<or> kuid = euid old \<or> kuid = suid old \<or> kuid = fsuid old \<or> ns_capable k old CAP_SETUID)
         \<and> kuid \<noteq> fsuid old
       then (case fix_setuid k LSM_SETID_FS (old\<lparr>fsuid := kuid\<rparr>) old of (r, new) \<Rightarrow>
           (old_fsuid, if r = 0 then snd (commit_creds new t) else t))
     else (old_fsuid, t))"

definition setfsgid :: "'x id_api \<Rightarrow> 32 word \<Rightarrow> 'x task \<Rightarrow> 32 word \<times> 'x task" where
  "setfsgid k g t =
    (let old = cred t; old_fsgid = from_kgid k (user_ns old) (fsgid old); kgid = make_kgid k (user_ns old) g in
     if \<not> valid kgid \<or> \<not> creds_memory k t then (old_fsgid, t)
     else if (kgid = gid old \<or> kgid = egid old \<or> kgid = sgid old \<or> kgid = fsgid old \<or> ns_capable k old CAP_SETGID)
         \<and> kgid \<noteq> fsgid old
       then (old_fsgid, snd (commit_creds (old\<lparr>fsgid := kgid\<rparr>) t))
     else (old_fsgid, t))"

text \<open>The calls that read the ids; a cell of user memory outside its domain cannot be written.\<close>

definition put_user :: "32 word \<Rightarrow> addr \<Rightarrow> (addr \<rightharpoonup> 32 word) \<Rightarrow> int \<times> (addr \<rightharpoonup> 32 word)" where
  "put_user v p m = (if m p = None then (- EFAULT, m) else (0, m(p \<mapsto> v)))"

definition put_three :: "32 word \<Rightarrow> addr \<Rightarrow> 32 word \<Rightarrow> addr \<Rightarrow> 32 word \<Rightarrow> addr
    \<Rightarrow> (addr \<rightharpoonup> 32 word) \<Rightarrow> int \<times> (addr \<rightharpoonup> 32 word)" where
  "put_three r rp e ep s sp m =
    (let (retval, m) = put_user r rp m in
     if retval \<noteq> 0 then (retval, m)
     else let (retval, m) = put_user e ep m in
       if retval \<noteq> 0 then (retval, m) else put_user s sp m)"

definition getresuid :: "'x id_api \<Rightarrow> addr \<Rightarrow> addr \<Rightarrow> addr \<Rightarrow> 'x task \<Rightarrow> (addr \<rightharpoonup> 32 word) \<Rightarrow> int \<times> (addr \<rightharpoonup> 32 word)" where
  "getresuid k ruidp euidp suidp t =
    (let c = cred t in put_three (from_kuid k (user_ns c) (uid c)) ruidp (from_kuid k (user_ns c) (euid c)) euidp
       (from_kuid k (user_ns c) (suid c)) suidp)"

definition getresgid :: "'x id_api \<Rightarrow> addr \<Rightarrow> addr \<Rightarrow> addr \<Rightarrow> 'x task \<Rightarrow> (addr \<rightharpoonup> 32 word) \<Rightarrow> int \<times> (addr \<rightharpoonup> 32 word)" where
  "getresgid k rgidp egidp sgidp t =
    (let c = cred t in put_three (from_kgid k (user_ns c) (gid c)) rgidp (from_kgid k (user_ns c) (egid c)) egidp
       (from_kgid k (user_ns c) (sgid c)) sgidp)"

definition getuid :: "'x id_api \<Rightarrow> 'x task \<Rightarrow> 32 word" where
  "getuid k t = from_kuid k (user_ns (cred t)) (uid (cred t))"

definition geteuid :: "'x id_api \<Rightarrow> 'x task \<Rightarrow> 32 word" where
  "geteuid k t = from_kuid k (user_ns (cred t)) (euid (cred t))"

definition getgid :: "'x id_api \<Rightarrow> 'x task \<Rightarrow> 32 word" where
  "getgid k t = from_kgid k (user_ns (cred t)) (gid (cred t))"

definition getegid :: "'x id_api \<Rightarrow> 'x task \<Rightarrow> 32 word" where
  "getegid k t = from_kgid k (user_ns (cred t)) (egid (cred t))"

section \<open>Sequences of calls\<close>

datatype id_call = Setregid "32 word" "32 word" | Setgid "32 word" | Setreuid "32 word" "32 word"
  | Setuid "32 word" | Setresuid "32 word" "32 word" "32 word" | Setresgid "32 word" "32 word" "32 word"
  | Setfsuid "32 word" | Setfsgid "32 word"

primrec do_call :: "'x id_api \<Rightarrow> id_call \<Rightarrow> 'x task \<Rightarrow> 'x task" where
  "do_call k (Setregid r e) t = snd (setregid k r e t)"
| "do_call k (Setgid g) t = snd (setgid k g t)"
| "do_call k (Setreuid r e) t = snd (setreuid k r e t)"
| "do_call k (Setuid u) t = snd (setuid k u t)"
| "do_call k (Setresuid r e s) t = snd (setresuid k r e s t)"
| "do_call k (Setresgid r e s) t = snd (setresgid k r e s t)"
| "do_call k (Setfsuid u) t = snd (setfsuid k u t)"
| "do_call k (Setfsgid g) t = snd (setfsgid k g t)"

definition id_calls :: "'x id_api \<Rightarrow> id_call list \<Rightarrow> 'x task \<Rightarrow> 'x task" where
  "id_calls k = fold (do_call k)"

section \<open>What the calls rely on\<close>

text \<open>A capability that is in force is a permitted one, and the security module, when it looks at new
  credentials, neither changes an id nor adds to the permitted capabilities.\<close>

definition same_ids :: "'x cred \<Rightarrow> 'x cred \<Rightarrow> bool" where
  "same_ids c d \<longleftrightarrow> uid c = uid d \<and> euid c = euid d \<and> suid c = suid d \<and> fsuid c = fsuid d
     \<and> gid c = gid d \<and> egid c = egid d \<and> sgid c = sgid d \<and> fsgid c = fsgid d \<and> user_ns c = user_ns d"

definition lsm_ok :: "'x id_api \<Rightarrow> bool" where
  "lsm_ok k \<longleftrightarrow> (\<forall>c cap. ns_capable k c cap \<longrightarrow> cap \<in> permitted c)
     \<and> (\<forall>fl new old. same_ids (snd (fix_setuid k fl new old)) new
          \<and> permitted (snd (fix_setuid k fl new old)) \<subseteq> permitted new)"

definition powerless :: "'x id_api \<Rightarrow> capability \<Rightarrow> 'x task \<Rightarrow> bool" where
  "powerless k cap t \<longleftrightarrow> lsm_ok k \<and> cap \<notin> permitted (cred t)"

definition uids :: "'x task \<Rightarrow> kid set" where
  "uids t = {uid (cred t), euid (cred t), suid (cred t)}"

definition gids :: "'x task \<Rightarrow> kid set" where
  "gids t = {gid (cred t), egid (cred t), sgid (cred t)}"

lemma powerless_not_capable: "powerless k cap t \<Longrightarrow> \<not> ns_capable k (cred t) cap"
  by (auto simp: powerless_def lsm_ok_def)

text \<open>How a task can look after a call: the first component of its identity is the user's, the second
  the group's.\<close>

lemma fix_and_commit_cases:
  assumes "lsm_ok k"
  obtains "snd (fix_and_commit k fl new old t) = t" "fst (fix_and_commit k fl new old t) < 0"
  | c where "fix_and_commit k fl new old t = (0, t\<lparr>cred := c\<rparr>)" "same_ids c new" "permitted c \<subseteq> permitted new"
proof -
  obtain r c where rc: "fix_setuid k fl new old = (r, c)" by fastforce
  then have "same_ids c new" "permitted c \<subseteq> permitted new" using assms unfolding lsm_ok_def by (metis snd_conv)+
  with that rc show thesis by (cases "r < 0") (simp_all add: fix_and_commit_def commit_creds_def)
qed

lemma set_user_keeps:
  "set_user k new t = (r, new', t') \<Longrightarrow> same_ids new' new \<and> permitted new' = permitted new \<and> cred t' = cred t"
  by (auto simp: set_user_def same_ids_def split: option.splits)

section \<open>A task without the capability gains no identity\<close>

text \<open>How identities may change: real, effective and saved ids stay within those the task had, and the
  file system id is one of these or the old one.\<close>

definition uids_kept :: "'x task \<Rightarrow> 'x task \<Rightarrow> bool" where
  "uids_kept t t' \<longleftrightarrow> uids t' \<subseteq> uids t \<and> fsuid (cred t') \<in> insert (fsuid (cred t)) (uids t)
     \<and> permitted (cred t') \<subseteq> permitted (cred t)"

definition gids_kept :: "'x task \<Rightarrow> 'x task \<Rightarrow> bool" where
  "gids_kept t t' \<longleftrightarrow> gids t' \<subseteq> gids t \<and> fsgid (cred t') \<in> insert (fsgid (cred t)) (gids t)
     \<and> permitted (cred t') \<subseteq> permitted (cred t)"

lemma kept_refl [simp]: "uids_kept t t" "gids_kept t t"
  by (simp_all add: uids_kept_def gids_kept_def)

lemma uids_kept_commit:
  assumes "lsm_ok k" "uid new \<in> uids t" "euid new \<in> uids t" "suid new \<in> uids t"
    "fsuid new \<in> insert (fsuid (cred t)) (uids t)" "permitted new \<subseteq> permitted (cred t)" "cred t0 = cred t"
  shows "uids_kept t (snd (fix_and_commit k fl new old t0))"
  using assms(1)
  by (rule fix_and_commit_cases [of k fl new old t0])
     (use assms(2-) in \<open>auto simp: uids_kept_def uids_def same_ids_def\<close>)

lemma gids_kept_commit:
  assumes "lsm_ok k" "gid new = gid (cred t)" "egid new = egid (cred t)" "sgid new = sgid (cred t)"
    "fsgid new = fsgid (cred t)" "permitted new \<subseteq> permitted (cred t)" "cred t0 = cred t"
  shows "gids_kept t (snd (fix_and_commit k fl new old t0))"
  using assms(1)
  by (rule fix_and_commit_cases [of k fl new old t0])
     (use assms(2-) in \<open>auto simp: gids_kept_def gids_def same_ids_def\<close>)

lemma set_user_fields:
  "set_user k new t = (r, new', t') \<Longrightarrow> uid new' = uid new \<and> euid new' = euid new \<and> suid new' = suid new
     \<and> fsuid new' = fsuid new \<and> gid new' = gid new \<and> egid new' = egid new \<and> sgid new' = sgid new
     \<and> fsgid new' = fsgid new \<and> permitted new' = permitted new \<and> cred t' = cred t"
  using set_user_keeps [of k new t r new' t'] by (simp add: same_ids_def)

lemma kept_same_cred: "cred t' = cred t \<Longrightarrow> uids_kept t t'" "cred t' = cred t \<Longrightarrow> gids_kept t t'"
  by (simp_all add: uids_kept_def gids_kept_def uids_def gids_def)

text \<open>The change of the user account that the calls on user ids make when the real id changes.\<close>

lemma account_fields:
  assumes "(if b then set_user k new t else (0, new, t)) = (r, new', t')"
  shows "uid new' = uid new \<and> euid new' = euid new \<and> suid new' = suid new \<and> fsuid new' = fsuid new
    \<and> gid new' = gid new \<and> egid new' = egid new \<and> sgid new' = sgid new \<and> fsgid new' = fsgid new
    \<and> user_ns new' = user_ns new \<and> permitted new' = permitted new \<and> cred t' = cred t"
  using assms set_user_keeps [of k new t r new' t'] by (auto simp: same_ids_def split: if_splits)

text \<open>A call fails without touching the credentials, or commits new ones; what these are, and which
  permission the caller had.\<close>

definition same_groups :: "'x cred \<Rightarrow> 'x cred \<Rightarrow> bool" where
  "same_groups c d \<longleftrightarrow> gid c = gid d \<and> egid c = egid d \<and> sgid c = sgid d \<and> fsgid c = fsgid d
     \<and> user_ns c = user_ns d \<and> permitted c = permitted d"

abbreviation kuid_of :: "'x id_api \<Rightarrow> 'x task \<Rightarrow> 32 word \<Rightarrow> kid" where
  "kuid_of k t u \<equiv> make_kuid k (user_ns (cred t)) u"

text \<open>Leaving a call early, with an error code and the credentials as they were.\<close>

definition rejected :: "'x task \<Rightarrow> int \<times> 'x task \<Rightarrow> bool" where
  "rejected t p \<longleftrightarrow> fst p < 0 \<and> cred (snd p) = cred t"

lemma rejected_Pair [simp]: "rejected t (r, t) \<longleftrightarrow> r < 0"
  by (simp add: rejected_def)

lemma rejected_if: "rejected t x \<Longrightarrow> (\<not> b \<Longrightarrow> rejected t y) \<Longrightarrow> rejected t (if b then x else y)"
  by simp

lemma setreuid_cases:
  obtains (fail) "rejected t (setreuid k r e t)"
  | (ok) new t0 where "setreuid k r e t = fix_and_commit k LSM_SETID_RE new (cred t) t0" "cred t0 = cred t"
      "uid new = (if r \<noteq> - 1 then kuid_of k t r else uid (cred t))"
      "euid new = (if e \<noteq> - 1 then kuid_of k t e else euid (cred t))"
      "suid new = (if r \<noteq> - 1 \<or> (e \<noteq> - 1 \<and> kuid_of k t e \<noteq> uid (cred t)) then euid new else suid (cred t))"
      "fsuid new = euid new" "same_groups new (cred t)"
      "r \<noteq> - 1 \<Longrightarrow> kuid_of k t r \<in> {uid (cred t), euid (cred t)} \<or> ns_capable k (cred t) CAP_SETUID"
      "e \<noteq> - 1 \<Longrightarrow> kuid_of k t e \<in> uids t \<or> ns_capable k (cred t) CAP_SETUID"
proof -
  let ?old = "cred t" and ?kr = "kuid_of k t r" and ?ke = "kuid_of k t e"
  let ?g = "r \<noteq> - 1 \<and> \<not> valid ?kr \<or> e \<noteq> - 1 \<and> \<not> valid ?ke \<or> \<not> creds_memory k t
    \<or> r \<noteq> - 1 \<and> uid ?old \<noteq> ?kr \<and> euid ?old \<noteq> ?kr \<and> \<not> ns_capable k ?old CAP_SETUID
    \<or> e \<noteq> - 1 \<and> uid ?old \<noteq> ?ke \<and> euid ?old \<noteq> ?ke \<and> suid ?old \<noteq> ?ke \<and> \<not> ns_capable k ?old CAP_SETUID"
  show thesis
  proof (cases ?g)
    case True
    have "rejected t (setreuid k r e t)"
      unfolding setreuid_def Let_def
      by (rule rejected_if, simp add: errno_defs)+ (use True in blast)
    then show thesis by (rule fail)
  next
    case False
    then have g: "\<not> (r \<noteq> - 1 \<and> \<not> valid ?kr)" "\<not> (e \<noteq> - 1 \<and> \<not> valid ?ke)" "\<not> \<not> creds_memory k t"
      "\<not> (r \<noteq> - 1 \<and> uid ?old \<noteq> ?kr \<and> euid ?old \<noteq> ?kr \<and> \<not> ns_capable k ?old CAP_SETUID)"
      "\<not> (e \<noteq> - 1 \<and> uid ?old \<noteq> ?ke \<and> euid ?old \<noteq> ?ke \<and> suid ?old \<noteq> ?ke \<and> \<not> ns_capable k ?old CAP_SETUID)"
      by blast+
    let ?n1 = "if r \<noteq> - 1 then ?old\<lparr>uid := ?kr\<rparr> else ?old"
    let ?n2 = "if e \<noteq> - 1 then ?n1\<lparr>euid := ?ke\<rparr> else ?n1"
    obtain q n3 t0 where q: "(if uid ?n2 \<noteq> uid ?old then set_user k ?n2 t else (0, ?n2, t)) = (q, n3, t0)"
      by (metis prod_cases3)
    note f = account_fields [OF q]
    let ?n4 = "if r \<noteq> - 1 \<or> (e \<noteq> - 1 \<and> ?ke \<noteq> uid ?old) then n3\<lparr>suid := euid n3\<rparr> else n3"
    have eq: "setreuid k r e t = (if q < 0 then (q, t0)
        else fix_and_commit k LSM_SETID_RE (?n4\<lparr>fsuid := euid ?n4\<rparr>) ?old t0)"
      unfolding setreuid_def Let_def by (simp only: g if_False q prod.case)
    define n where "n = ?n4\<lparr>fsuid := euid ?n4\<rparr>"
    have n: "uid n = (if r \<noteq> - 1 then ?kr else uid ?old)" "euid n = (if e \<noteq> - 1 then ?ke else euid ?old)"
      "suid n = (if r \<noteq> - 1 \<or> (e \<noteq> - 1 \<and> ?ke \<noteq> uid ?old) then euid n else suid ?old)" "fsuid n = euid n"
      "same_groups n ?old"
      using f by (simp_all add: n_def same_groups_def)
    have p: "r \<noteq> - 1 \<Longrightarrow> ?kr \<in> {uid ?old, euid ?old} \<or> ns_capable k ?old CAP_SETUID"
      "e \<noteq> - 1 \<Longrightarrow> ?ke \<in> uids t \<or> ns_capable k ?old CAP_SETUID"
      using g(4,5) by (auto simp: uids_def)
    show thesis
    proof (cases "q < 0")
      case True
      with eq f fail show thesis by (simp add: rejected_def)
    next
      case False
      with eq have "setreuid k r e t = fix_and_commit k LSM_SETID_RE n ?old t0" by (simp only: if_False n_def)
      moreover have "cred t0 = cred t" using f by simp
      ultimately show thesis by (rule ok [OF _ _ n p])
    qed
  qed
qed

lemma setuid_cases:
  obtains (fail) "rejected t (setuid k u t)"
  | (all) new t0 where "setuid k u t = fix_and_commit k LSM_SETID_ID new (cred t) t0" "cred t0 = cred t"
      "uid new = kuid_of k t u" "euid new = kuid_of k t u" "suid new = kuid_of k t u" "fsuid new = kuid_of k t u"
      "same_groups new (cred t)" "ns_capable k (cred t) CAP_SETUID"
  | (effective) "setuid k u t = fix_and_commit k LSM_SETID_ID
        ((cred t)\<lparr>fsuid := kuid_of k t u, euid := kuid_of k t u\<rparr>) (cred t) t"
      "kuid_of k t u \<in> {uid (cred t), suid (cred t)}" "\<not> ns_capable k (cred t) CAP_SETUID"
proof -
  let ?old = "cred t" and ?k = "kuid_of k t u"
  consider (bad) "\<not> valid ?k \<or> \<not> creds_memory k t" | (cap) "valid ?k" "creds_memory k t" "ns_capable k ?old CAP_SETUID"
    | (nocap) "valid ?k" "creds_memory k t" "\<not> ns_capable k ?old CAP_SETUID" by blast
  then show thesis
  proof cases
    case bad
    then show thesis by (intro fail) (auto simp: setuid_def Let_def errno_defs)
  next
    case nocap
    show thesis
    proof (cases "?k \<noteq> uid ?old \<and> ?k \<noteq> suid ?old")
      case True
      with nocap show thesis by (intro fail) (simp_all add: setuid_def Let_def errno_defs)
    next
      case False
      with nocap show thesis by (intro effective) (auto simp: setuid_def Let_def)
    qed
  next
    case cap
    let ?n1 = "?old\<lparr>suid := ?k, uid := ?k\<rparr>"
    obtain q n2 t0 where q: "(if ?k \<noteq> uid ?old then set_user k ?n1 t else (0, ?n1, t)) = (q, n2, t0)"
      by (metis prod_cases3)
    note f = account_fields [OF q]
    have g: "\<not> \<not> valid ?k" "\<not> \<not> creds_memory k t" using cap by simp_all
    have eq: "setuid k u t = (if q < 0 then (q, t0)
        else fix_and_commit k LSM_SETID_ID (n2\<lparr>fsuid := ?k, euid := ?k\<rparr>) ?old t0)"
      unfolding setuid_def Let_def by (simp only: g cap(3) if_False if_True q prod.case)
    show thesis
    proof (cases "q < 0")
      case True
      with eq f fail show thesis by (simp add: rejected_def)
    next
      case False
      with eq f cap(3) show thesis by (intro all [of "n2\<lparr>fsuid := ?k, euid := ?k\<rparr>" t0]) (simp_all add: same_groups_def)
    qed
  qed
qed

lemma setresuid_cases:
  obtains (fail) "rejected t (setresuid k r e s t)"
  | (ok) new t0 where "setresuid k r e s t = fix_and_commit k LSM_SETID_RES new (cred t) t0" "cred t0 = cred t"
      "uid new = (if r \<noteq> - 1 then kuid_of k t r else uid (cred t))"
      "euid new = (if e \<noteq> - 1 then kuid_of k t e else euid (cred t))"
      "suid new = (if s \<noteq> - 1 then kuid_of k t s else suid (cred t))"
      "fsuid new = euid new" "same_groups new (cred t)"
      "{uid new, euid new, suid new} \<subseteq> uids t \<or> ns_capable k (cred t) CAP_SETUID"
proof -
  let ?old = "cred t" and ?kr = "kuid_of k t r" and ?ke = "kuid_of k t e" and ?ks = "kuid_of k t s"
  let ?no = "\<not> ns_capable k ?old CAP_SETUID \<and>
         (r \<noteq> - 1 \<and> ?kr \<noteq> uid ?old \<and> ?kr \<noteq> euid ?old \<and> ?kr \<noteq> suid ?old
          \<or> e \<noteq> - 1 \<and> ?ke \<noteq> uid ?old \<and> ?ke \<noteq> euid ?old \<and> ?ke \<noteq> suid ?old
          \<or> s \<noteq> - 1 \<and> ?ks \<noteq> uid ?old \<and> ?ks \<noteq> euid ?old \<and> ?ks \<noteq> suid ?old)"
  let ?g = "r \<noteq> - 1 \<and> \<not> valid ?kr \<or> e \<noteq> - 1 \<and> \<not> valid ?ke \<or> s \<noteq> - 1 \<and> \<not> valid ?ks \<or> \<not> creds_memory k t \<or> ?no"
  show thesis
  proof (cases ?g)
    case True
    have "rejected t (setresuid k r e s t)"
      unfolding setresuid_def Let_def
      by (rule rejected_if, simp add: errno_defs)+ (use True in blast)
    then show thesis by (rule fail)
  next
    case False
    then have g: "\<not> (r \<noteq> - 1 \<and> \<not> valid ?kr)" "\<not> (e \<noteq> - 1 \<and> \<not> valid ?ke)" "\<not> (s \<noteq> - 1 \<and> \<not> valid ?ks)"
      "\<not> \<not> creds_memory k t" "\<not> ?no" by blast+
    let ?n1 = "if r \<noteq> - 1 then ?old\<lparr>uid := ?kr\<rparr> else ?old"
    obtain q n2 t0 where q: "(if r \<noteq> - 1 \<and> ?kr \<noteq> uid ?old then set_user k ?n1 t else (0, ?n1, t)) = (q, n2, t0)"
      by (metis prod_cases3)
    note f = account_fields [OF q]
    let ?n3 = "if e \<noteq> - 1 then n2\<lparr>euid := ?ke\<rparr> else n2"
    let ?n4 = "if s \<noteq> - 1 then ?n3\<lparr>suid := ?ks\<rparr> else ?n3"
    define n where "n = ?n4\<lparr>fsuid := euid ?n4\<rparr>"
    have eq: "setresuid k r e s t = (if q < 0 then (q, t0) else fix_and_commit k LSM_SETID_RES n ?old t0)"
      unfolding setresuid_def Let_def n_def by (simp only: g if_False q prod.case)
    have n: "uid n = (if r \<noteq> - 1 then ?kr else uid ?old)" "euid n = (if e \<noteq> - 1 then ?ke else euid ?old)"
      "suid n = (if s \<noteq> - 1 then ?ks else suid ?old)" "fsuid n = euid n" "same_groups n ?old"
      using f by (simp_all add: n_def same_groups_def)
    have p: "{uid n, euid n, suid n} \<subseteq> uids t \<or> ns_capable k ?old CAP_SETUID"
      using g(5) n by (auto simp: uids_def)
    show thesis
    proof (cases "q < 0")
      case True
      with eq f fail show thesis by (simp add: rejected_def)
    next
      case False
      with eq have "setresuid k r e s t = fix_and_commit k LSM_SETID_RES n ?old t0" by (simp only: if_False)
      moreover have "cred t0 = cred t" using f by simp
      ultimately show thesis by (rule ok [OF _ _ n p])
    qed
  qed
qed

lemma setfsuid_cases:
  assumes "lsm_ok k"
  obtains (same) "snd (setfsuid k u t) = t"
  | (ok) c where "snd (setfsuid k u t) = t\<lparr>cred := c\<rparr>" "same_ids c ((cred t)\<lparr>fsuid := kuid_of k t u\<rparr>)"
      "permitted c \<subseteq> permitted (cred t)" "kuid_of k t u \<in> uids t \<or> ns_capable k (cred t) CAP_SETUID"
proof -
  let ?new = "(cred t)\<lparr>fsuid := kuid_of k t u\<rparr>"
  obtain r c where rc: "fix_setuid k LSM_SETID_FS ?new (cred t) = (r, c)" by fastforce
  then have c: "same_ids c ?new" "permitted c \<subseteq> permitted ?new"
    using assms unfolding lsm_ok_def by (metis snd_conv)+
  have "snd (setfsuid k u t) = t \<or> (snd (setfsuid k u t) = t\<lparr>cred := c\<rparr>
      \<and> (kuid_of k t u \<in> uids t \<or> ns_capable k (cred t) CAP_SETUID))"
    using rc by (auto simp: setfsuid_def Let_def commit_creds_def uids_def)
  with c same ok show thesis by auto
qed

lemma uid_calls_keep:
  assumes "powerless k CAP_SETUID t"
  shows "uids_kept t (snd (setreuid k r e t))" "uids_kept t (snd (setuid k r t))"
    "uids_kept t (snd (setresuid k r e s t))" "uids_kept t (snd (setfsuid k r t))"
proof -
  have no: "\<not> ns_capable k (cred t) CAP_SETUID" and l: "lsm_ok k"
    using powerless_not_capable [OF assms] assms by (simp_all add: powerless_def)
  have in_uids: "uid (cred t) \<in> uids t" "euid (cred t) \<in> uids t" "suid (cred t) \<in> uids t" by (simp_all add: uids_def)
  have pm: "same_groups c (cred t) \<Longrightarrow> permitted c \<subseteq> permitted (cred t)" for c by (simp add: same_groups_def)
  show "uids_kept t (snd (setreuid k r e t))"
  proof (cases rule: setreuid_cases [of t k r e])
    case (ok new t0)
    then have "uid new \<in> uids t" "euid new \<in> uids t" using no in_uids by (auto simp: uids_def)
    moreover from this ok(5) have "suid new \<in> uids t" using in_uids by simp
    ultimately show ?thesis unfolding ok(1) using ok(6) by (intro uids_kept_commit l pm ok) simp_all
  qed (simp add: rejected_def kept_same_cred)
  show "uids_kept t (snd (setuid k r t))"
  proof (cases rule: setuid_cases [of t k r])
    case effective
    then show ?thesis unfolding effective(1) using in_uids
      by (intro uids_kept_commit l) (auto simp: uids_def)
  qed (use no in \<open>simp_all add: rejected_def kept_same_cred\<close>)
  show "uids_kept t (snd (setresuid k r e s t))"
  proof (cases rule: setresuid_cases [of t k r e s])
    case (ok new t0)
    then have "uid new \<in> uids t" "euid new \<in> uids t" "suid new \<in> uids t" using no by simp_all
    then show ?thesis unfolding ok(1) using ok(6) by (intro uids_kept_commit l pm ok) simp_all
  qed (simp add: rejected_def kept_same_cred)
  show "uids_kept t (snd (setfsuid k r t))"
    by (cases rule: setfsuid_cases [OF l, of r t])
       (use no in \<open>auto simp: uids_kept_def uids_def same_ids_def\<close>)
qed

lemma uid_calls_keep_groups:
  assumes "lsm_ok k"
  shows "gids_kept t (snd (setreuid k r e t))" "gids_kept t (snd (setuid k r t))"
    "gids_kept t (snd (setresuid k r e s t))" "gids_kept t (snd (setfsuid k r t))"
proof -
  show "gids_kept t (snd (setreuid k r e t))"
    by (cases rule: setreuid_cases [of t k r e])
       (auto simp: rejected_def same_groups_def intro: kept_same_cred gids_kept_commit [OF assms])
  show "gids_kept t (snd (setuid k r t))"
    by (cases rule: setuid_cases [of t k r])
       (auto simp: rejected_def same_groups_def intro: kept_same_cred gids_kept_commit [OF assms])
  show "gids_kept t (snd (setresuid k r e s t))"
    by (cases rule: setresuid_cases [of t k r e s])
       (auto simp: rejected_def same_groups_def intro: kept_same_cred gids_kept_commit [OF assms])
  show "gids_kept t (snd (setfsuid k r t))"
    by (cases rule: setfsuid_cases [OF assms, of r t])
       (auto simp: gids_kept_def gids_def same_ids_def)
qed

lemma kept_if:
  "(\<not> b \<Longrightarrow> gids_kept t (snd y)) \<Longrightarrow> gids_kept t (snd (if b then (r, t) else y))"
  "(\<not> b \<Longrightarrow> uids_kept t (snd y)) \<Longrightarrow> uids_kept t (snd (if b then (r, t) else y))"
  by simp_all

lemma gid_calls_keep:
  assumes "powerless k CAP_SETGID t"
  shows "gids_kept t (snd (setregid k r e t))" "gids_kept t (snd (setgid k r t))"
    "gids_kept t (snd (setresgid k r e s t))" "gids_kept t (snd (setfsgid k r t))"
proof -
  have no: "\<not> ns_capable k (cred t) CAP_SETGID" using powerless_not_capable [OF assms] .
  show "gids_kept t (snd (setregid k r e t))" unfolding setregid_def Let_def
    by (rule kept_if)+ (use no in \<open>auto simp: gids_kept_def gids_def commit_creds_def split: if_splits\<close>)
  show "gids_kept t (snd (setgid k r t))"
    using no by (auto simp: setgid_def Let_def gids_kept_def gids_def commit_creds_def)
  show "gids_kept t (snd (setresgid k r e s t))" unfolding setresgid_def Let_def
    by (rule kept_if)+ (use no in \<open>auto simp: gids_kept_def gids_def commit_creds_def split: if_splits\<close>)
  show "gids_kept t (snd (setfsgid k r t))"
    using no by (auto simp: setfsgid_def Let_def gids_kept_def gids_def commit_creds_def)
qed

lemma gid_calls_keep_users:
  "uids_kept t (snd (setregid k r e t))" "uids_kept t (snd (setgid k r t))"
  "uids_kept t (snd (setresgid k r e s t))" "uids_kept t (snd (setfsgid k r t))"
proof -
  show "uids_kept t (snd (setregid k r e t))" unfolding setregid_def Let_def
    by (rule kept_if)+ (simp add: commit_creds_def uids_kept_def uids_def)
  show "uids_kept t (snd (setresgid k r e s t))" unfolding setresgid_def Let_def
    by (rule kept_if)+ (simp add: commit_creds_def uids_kept_def uids_def)
qed (simp_all add: setgid_def setfsgid_def Let_def commit_creds_def uids_kept_def uids_def)

text \<open>All calls, by kind of identity.\<close>

lemma uids_step: "powerless k CAP_SETUID t \<Longrightarrow> uids_kept t (do_call k c t)"
  by (cases c) (simp_all add: uid_calls_keep gid_calls_keep_users)

lemma gids_step: "powerless k CAP_SETGID t \<Longrightarrow> gids_kept t (do_call k c t)"
  by (cases c) (simp_all add: gid_calls_keep uid_calls_keep_groups powerless_def)

section \<open>The contract of the identity calls\<close>

text \<open>
  Users and groups obey the same rule: a step of a task without power keeps the set of its ids, gives
  it no file system id from outside, and gives it no power. The rule then holds of every sequence.
\<close>

locale identities =
  fixes step :: "'c \<Rightarrow> 's \<Rightarrow> 's" and ids :: "'s \<Rightarrow> 'i set" and fsid :: "'s \<Rightarrow> 'i" and no_power :: "'s \<Rightarrow> bool"
  assumes ids_step: "no_power s \<Longrightarrow> ids (step c s) \<subseteq> ids s"
    and fsid_step: "no_power s \<Longrightarrow> fsid (step c s) \<in> insert (fsid s) (ids s)"
    and no_power_step: "no_power s \<Longrightarrow> no_power (step c s)"
begin

lemma never_gain:
  "no_power s \<Longrightarrow> ids (fold step cs s) \<subseteq> ids s \<and> fsid (fold step cs s) \<in> insert (fsid s) (ids s)
     \<and> no_power (fold step cs s)"
proof (induction cs arbitrary: s)
  case (Cons c cs)
  note ih = Cons.IH [OF no_power_step [OF Cons.prems, of c]]
  show ?case using ih ids_step [OF Cons.prems, of c] fsid_step [OF Cons.prems, of c] by auto
qed simp

text \<open>A task all of whose ids are the same stays what it is.\<close>

lemma single_stays:
  assumes "no_power s" "ids s = {i}" "fsid s = i" "ids (fold step cs s) \<noteq> {}"
  shows "ids (fold step cs s) = {i} \<and> fsid (fold step cs s) = i"
  using never_gain [OF assms(1), of cs] assms(2-4) by auto

end

lemma uids_stepD:
  assumes "powerless k CAP_SETUID t"
  shows "uids (do_call k c t) \<subseteq> uids t" "fsuid (cred (do_call k c t)) \<in> insert (fsuid (cred t)) (uids t)"
    "powerless k CAP_SETUID (do_call k c t)"
  using uids_step [OF assms, of c] assms by (auto simp: uids_kept_def powerless_def)

lemma gids_stepD:
  assumes "powerless k CAP_SETGID t"
  shows "gids (do_call k c t) \<subseteq> gids t" "fsgid (cred (do_call k c t)) \<in> insert (fsgid (cred t)) (gids t)"
    "powerless k CAP_SETGID (do_call k c t)"
  using gids_step [OF assms, of c] assms by (auto simp: gids_kept_def powerless_def)

interpretation users: identities "do_call k" uids "\<lambda>t. fsuid (cred t)" "powerless k CAP_SETUID" for k
  by unfold_locales (rule uids_stepD, assumption)+

interpretation groups: identities "do_call k" gids "\<lambda>t. fsgid (cred t)" "powerless k CAP_SETGID" for k
  by unfold_locales (rule gids_stepD, assumption)+

section \<open>Rejected calls\<close>

lemma fix_and_commit_rejected:
  "fst (fix_and_commit k fl new old t) < 0 \<Longrightarrow> cred (snd (fix_and_commit k fl new old t)) = cred t"
  by (auto simp: fix_and_commit_def commit_creds_def split: prod.splits if_splits)

definition atomic :: "'x task \<Rightarrow> int \<times> 'x task \<Rightarrow> bool" where
  "atomic t p \<longleftrightarrow> (fst p < 0 \<longrightarrow> cred (snd p) = cred t)"

lemma atomic_commit [simp]: "atomic t (commit_creds new u)"
  by (simp add: atomic_def commit_creds_def)

lemma atomic_if: "(\<not> b \<Longrightarrow> atomic t y) \<Longrightarrow> atomic t (if b then (r, t) else y)"
  by (simp add: atomic_def)

lemma uid_calls_atomic:
  "atomic t (setreuid k r e t)" "atomic t (setuid k r t)" "atomic t (setresuid k r e s t)"
proof -
  show "atomic t (setreuid k r e t)"
    by (cases rule: setreuid_cases [of t k r e])
       (simp_all add: atomic_def rejected_def fix_and_commit_rejected)
  show "atomic t (setuid k r t)"
    by (cases rule: setuid_cases [of t k r])
       (simp_all add: atomic_def rejected_def fix_and_commit_rejected)
  show "atomic t (setresuid k r e s t)"
    by (cases rule: setresuid_cases [of t k r e s])
       (simp_all add: atomic_def rejected_def fix_and_commit_rejected)
qed

lemma gid_calls_atomic:
  "atomic t (setregid k r e t)" "atomic t (setgid k r t)" "atomic t (setresgid k r e s t)"
proof -
  show "atomic t (setregid k r e t)" unfolding setregid_def Let_def by (rule atomic_if)+ simp
  show "atomic t (setgid k r t)" by (simp add: setgid_def Let_def) (simp add: atomic_def)
  show "atomic t (setresgid k r e s t)" unfolding setresgid_def Let_def by (rule atomic_if)+ simp
qed

section \<open>Properties\<close>

text \<open>No escalation. A task without CAP_SETUID and CAP_SETGID among its permitted capabilities keeps,
  through any sequence of the eight calls, its real, effective and saved ids within those it started
  with, and its file system ids within these and the ones it started with.\<close>

lemma creds_never_gain:
  assumes "powerless k CAP_SETUID t" "powerless k CAP_SETGID t"
  shows "uids (id_calls k cs t) \<subseteq> uids t \<and> fsuid (cred (id_calls k cs t)) \<in> insert (fsuid (cred t)) (uids t)
    \<and> gids (id_calls k cs t) \<subseteq> gids t \<and> fsgid (cred (id_calls k cs t)) \<in> insert (fsgid (cred t)) (gids t)"
  using users.never_gain [OF assms(1), of cs] groups.never_gain [OF assms(2), of cs]
  by (simp add: id_calls_def)

text \<open>A small system for the witnesses: ids are mapped to themselves, a permitted capability is in
  force, and a security module that accepts everything.\<close>

definition demo_ids :: "unit id_api" where
  "demo_ids = \<lparr>make_kuid = (\<lambda>n u. u), from_kuid = (\<lambda>n u. u), make_kgid = (\<lambda>n g. g), from_kgid = (\<lambda>n g. g),
     ns_capable = (\<lambda>c cap. cap \<in> permitted c), fix_setuid = (\<lambda>fl new old. (0, new)), creds_memory = (\<lambda>t. True),
     alloc_uid = (\<lambda>u. Some (unat u)), processes = (\<lambda>u. 1), nproc_limit = 100, init_user = 0\<rparr>"

definition demo_task :: "capability set \<Rightarrow> kid \<Rightarrow> kid \<Rightarrow> unit task" where
  "demo_task caps u e = \<lparr>cred = \<lparr>uid = u, gid = u, suid = e, sgid = e, euid = e, egid = e, fsuid = e, fsgid = e,
     user_ns = 0, user = 5, permitted = caps, security = ()\<rparr>, nproc_exceeded = False\<rparr>"

lemma demo_lsm: "lsm_ok demo_ids"
  by (simp add: lsm_ok_def demo_ids_def same_ids_def)

text \<open>C25: a successful \<open>setreuid(u, u)\<close> with a \<open>u\<close> other than -1 is a complete drop of privileges, as the comment of the call says:
  for a task without CAP_SETUID, real, effective, saved and file system id are then \<open>u\<close> and stay so
  whichever of the eight calls that set ids it makes, in any order.\<close>

theorem setreuid_drops_for_good:
  assumes "powerless k CAP_SETUID t" "u \<noteq> - 1" "setreuid k u u t = (0, t1)"
  shows "uids (id_calls k cs t1) = {kuid_of k t u} \<and> fsuid (cred (id_calls k cs t1)) = kuid_of k t u"
proof -
  have l: "lsm_ok k" using assms(1) by (simp add: powerless_def)
  obtain new t0 where ok: "fix_and_commit k LSM_SETID_RE new (cred t) t0 = (0, t1)" "cred t0 = cred t"
    "uid new = kuid_of k t u" "euid new = kuid_of k t u" "suid new = kuid_of k t u" "fsuid new = kuid_of k t u"
    "same_groups new (cred t)"
  proof (cases rule: setreuid_cases [of t k u u])
    case (ok new t0)
    with assms(2,3) that show thesis by simp
  qed (simp add: rejected_def assms(3))
  obtain c where c: "t1 = t0\<lparr>cred := c\<rparr>" "same_ids c new" "permitted c \<subseteq> permitted new"
    by (rule fix_and_commit_cases [OF l, of LSM_SETID_RE new "cred t" t0]) (simp_all add: ok(1))
  have u: "uids t1 = {kuid_of k t u}" "fsuid (cred t1) = kuid_of k t u"
    using c(1,2) ok(3-6) by (auto simp: uids_def same_ids_def)
  have p: "powerless k CAP_SETUID t1"
    using assms(1) c(1,3) ok(7) by (auto simp: powerless_def same_groups_def)
  have "uids t' \<noteq> {}" for t' :: "'a task" by (simp add: uids_def)
  from users.single_stays [OF p u this] show ?thesis by (simp add: id_calls_def)
qed

theorem setreuid_drops_for_good_witness:
  "\<exists>t1. setreuid demo_ids 3 3 (demo_task {} 3 7) = (0, t1) \<and> uids (id_calls demo_ids [Setuid 7] t1) = {3}"
proof -
  have p: "powerless demo_ids CAP_SETUID (demo_task {} 3 7)" by (simp add: powerless_def demo_lsm demo_task_def)
  obtain t1 where t1: "setreuid demo_ids 3 3 (demo_task {} 3 7) = (0, t1)"
    by (simp add: setreuid_def demo_ids_def demo_task_def Let_def commit_creds_def fix_and_commit_def valid_def)
  from setreuid_drops_for_good [OF p _ t1, of "[Setuid 7]"] t1 show ?thesis by (simp add: demo_ids_def)
qed

text \<open>a call that returns an error leaves the credentials as they were, whichever of its checks
  failed, the allocation, the account or the security module.\<close>

lemma creds_errors_change_nothing:
  "(fst (setreuid k r e t) < 0 \<longrightarrow> cred (snd (setreuid k r e t)) = cred t)
   \<and> (fst (setuid k r t) < 0 \<longrightarrow> cred (snd (setuid k r t)) = cred t)
   \<and> (fst (setresuid k r e s t) < 0 \<longrightarrow> cred (snd (setresuid k r e s t)) = cred t)
   \<and> (fst (setregid k r e t) < 0 \<longrightarrow> cred (snd (setregid k r e t)) = cred t)
   \<and> (fst (setgid k r t) < 0 \<longrightarrow> cred (snd (setgid k r t)) = cred t)
   \<and> (fst (setresgid k r e s t) < 0 \<longrightarrow> cred (snd (setresgid k r e s t)) = cred t)"
  using uid_calls_atomic [of t k] gid_calls_atomic [of t k] by (simp add: atomic_def)

text \<open>\<open>setresuid\<close> and \<open>getresuid\<close> are a round trip: after a successful call with three ids the other
  call stores exactly these at three different addresses, when the name space maps them back.\<close>

lemma setresuid_getresuid:
  assumes "lsm_ok k" "setresuid k r e s t = (0, t')" "r \<noteq> - 1" "e \<noteq> - 1" "s \<noteq> - 1"
    and "\<forall>u \<in> {r, e, s}. from_kuid k (user_ns (cred t)) (kuid_of k t u) = u"
    and "rp \<in> dom m" "ep \<in> dom m" "sp \<in> dom m"
  shows "getresuid k rp ep sp t' m = (0, m(rp \<mapsto> r, ep \<mapsto> e, sp \<mapsto> s))"
proof -
  obtain new t0 where ok: "fix_and_commit k LSM_SETID_RES new (cred t) t0 = (0, t')"
    "uid new = kuid_of k t r" "euid new = kuid_of k t e" "suid new = kuid_of k t s" "same_groups new (cred t)"
  proof (cases rule: setresuid_cases [of t k r e s])
    case (ok new t0)
    with assms(2-5) that show thesis by simp
  qed (simp add: rejected_def assms(2))
  obtain c where "t' = t0\<lparr>cred := c\<rparr>" "same_ids c new"
    by (rule fix_and_commit_cases [OF assms(1), of LSM_SETID_RES new "cred t" t0]) (simp_all add: ok(1))
  then have "uid (cred t') = kuid_of k t r" "euid (cred t') = kuid_of k t e" "suid (cred t') = kuid_of k t s"
    "user_ns (cred t') = user_ns (cred t)"
    using ok(2-5) by (simp_all add: same_ids_def same_groups_def)
  with assms(6-9) show ?thesis by (auto simp: getresuid_def put_three_def put_user_def Let_def)
qed

text \<open>for a caller with CAP_SETUID, \<open>setuid(u)\<close> is \<open>setresuid(u, u, u)\<close>, with the same result and the
  same errors, when the security module treats both alike.\<close>

lemma setuid_privileged:
  assumes "ns_capable k (cred t) CAP_SETUID" "u \<noteq> - 1" "fix_setuid k LSM_SETID_ID = fix_setuid k LSM_SETID_RES"
  shows "setuid k u t = setresuid k u u u t"
proof -
  have "fix_and_commit k LSM_SETID_ID = fix_and_commit k LSM_SETID_RES"
    using assms(3) by (intro ext) (simp add: fix_and_commit_def)
  note same = this
  have n1: "c\<lparr>suid := a, fsuid := a, euid := a\<rparr> = c\<lparr>euid := a, suid := a, fsuid := a\<rparr>" for c :: "'a cred" and a
    by simp
  have n2: "c\<lparr>suid := a, uid := a, user := x, fsuid := a, euid := a\<rparr>
      = c\<lparr>uid := a, user := x, euid := a, suid := a, fsuid := a\<rparr>" for c :: "'a cred" and a x
    by simp
  show ?thesis using assms(1,2)
    by (cases "alloc_uid k (kuid_of k t u)") (simp_all add: setuid_def setresuid_def Let_def set_user_def same n1 n2 errno_defs)
qed

end
