(* ===== verification/Rlimits.thy ===== *)
theory Rlimits
  imports Creds
begin

text \<open>
  Resource limits: \<^verbatim>\<open>do_prlimit\<close>, \<^verbatim>\<open>prlimit64\<close>, \<^verbatim>\<open>getrlimit\<close>, \<^verbatim>\<open>setrlimit\<close>, their compatibility
  versions and both forms of \<^verbatim>\<open>old_getrlimit\<close> of \<^verbatim>\<open>HW2_APES/PROBLEM5/system_call/sys.c\<close>.

  An \<^verbatim>\<open>unsigned long\<close> is an \<open>'l word\<close>; the code is the same for 32 and 64 bits but for one test on
  the width. Tasks are numbers; the limits belong to the \<open>signal\<close> structure, which the tasks of a
  process share. Capabilities, the security module, the lookup of a pid and \<open>sysctl_nr_open\<close> are
  parameters. A user pointer is null, bad (it cannot be accessed) or good; for an argument it comes
  with the value there.
\<close>

section \<open>State\<close>

record 'w rlimit =
  rlim_cur :: "'w"
  rlim_max :: "'w"

record 'x ptask =
  tcred :: "'x cred"
  sighand :: bool
  signal :: nat

record ('x, 'w) rl_state =
  ptask :: "nat \<Rightarrow> 'x ptask"
  limits :: "nat \<Rightarrow> 'w rlimit list"
  cpu_updates :: "(nat \<times> 'w) list"

record ('x, 'w) rl_api =
  current :: nat
  find_task :: "int \<Rightarrow> nat option"
  capable :: "capability \<Rightarrow> bool"
  capable_in :: "nat \<Rightarrow> capability \<Rightarrow> bool"
  lsm_setrlimit :: "nat \<Rightarrow> nat \<Rightarrow> 'w rlimit \<Rightarrow> int"
  lsm_prlimit :: "'x cred \<Rightarrow> 'x cred \<Rightarrow> bool \<Rightarrow> bool \<Rightarrow> int"
  nr_open :: nat
  posix_timers :: bool
  compat_infinity :: "32 word"

datatype 'a uptr = Null | Bad | Good 'a

definition RLIMIT_CPU :: nat where "RLIMIT_CPU = 0"
definition RLIMIT_NOFILE :: nat where "RLIMIT_NOFILE = 7"
definition RLIM_NLIMITS :: nat where "RLIM_NLIMITS = 16"

abbreviation infinity :: "'l::len word" where
  "infinity \<equiv> - 1"

section \<open>The operations\<close>

text \<open>The new limits are an argument that the operation may change (a CPU limit of 0 becomes 1).\<close>

definition do_prlimit :: "('x, 'l::len word) rl_api \<Rightarrow> nat \<Rightarrow> nat \<Rightarrow> 'l word rlimit option \<Rightarrow> bool
    \<Rightarrow> ('x, 'l word) rl_state \<Rightarrow> int \<times> 'l word rlimit option \<times> ('x, 'l word) rl_state" where
  "do_prlimit k tsk resource new_rlim old_rlim s =
    (if RLIM_NLIMITS \<le> resource then (- EINVAL, None, s)
     else if (case new_rlim of None \<Rightarrow> False | Some n \<Rightarrow> rlim_cur n > rlim_max n) then (- EINVAL, None, s)
     else if (case new_rlim of None \<Rightarrow> False
              | Some n \<Rightarrow> resource = RLIMIT_NOFILE \<and> unat (rlim_max n) > nr_open k) then (- EPERM, None, s)
     else if \<not> sighand (ptask s tsk) then (- ESRCH, None, s)
     else
       let sg = signal (ptask s tsk); rlim = limits s sg ! resource in
       (case new_rlim of
          None \<Rightarrow> (0, if old_rlim then Some rlim else None, s)
        | Some n \<Rightarrow>
            let retval = (if rlim_max n > rlim_max rlim \<and> \<not> capable k CAP_SYS_RESOURCE then - EPERM
                          else lsm_setrlimit k tsk resource n);
                n = (if resource = RLIMIT_CPU \<and> rlim_cur n = 0 then n\<lparr>rlim_cur := 1\<rparr> else n) in
            if retval \<noteq> 0 then (retval, None, s)
            else
              let s = s\<lparr>limits := (limits s)(sg := (limits s sg)[resource := n])\<rparr>;
                  s = (if resource = RLIMIT_CPU \<and> rlim_cur n \<noteq> infinity \<and> posix_timers k
                       then s\<lparr>cpu_updates := cpu_updates s @ [(tsk, rlim_cur n)]\<rparr> else s)
              in (0, if old_rlim then Some rlim else None, s)))"

definition rlim64_is_infinity :: "'l::len itself \<Rightarrow> 64 word \<Rightarrow> bool" where
  "rlim64_is_infinity (_ :: 'l itself) r =
    (if LENGTH('l) < 64 then ucast (infinity :: 'l word) \<le> r else r = infinity)"

text \<open>The conversion of one field, which the code writes out for both.\<close>

definition limit_to_64 :: "'l::len word \<Rightarrow> 64 word" where
  "limit_to_64 v = (if v = infinity then infinity else ucast v)"

definition limit_of_64 :: "64 word \<Rightarrow> 'l::len word" where
  "limit_of_64 v = (if rlim64_is_infinity TYPE('l) v then infinity else ucast v)"

definition rlim_to_rlim64 :: "'l::len word rlimit \<Rightarrow> 64 word rlimit" where
  "rlim_to_rlim64 r = \<lparr>rlim_cur = limit_to_64 (rlim_cur r), rlim_max = limit_to_64 (rlim_max r)\<rparr>"

definition rlim64_to_rlim :: "64 word rlimit \<Rightarrow> 'l::len word rlimit" where
  "rlim64_to_rlim r = \<lparr>rlim_cur = limit_of_64 (rlim_cur r), rlim_max = limit_of_64 (rlim_max r)\<rparr>"

text \<open>May the caller read or change the limits of a task?\<close>

definition check_prlimit_permission :: "('x, 'l::len word) rl_api \<Rightarrow> nat \<Rightarrow> bool \<Rightarrow> bool \<Rightarrow> ('x, 'l word) rl_state \<Rightarrow> int" where
  "check_prlimit_permission k tsk rd wr s =
    (if current k = tsk then 0
     else
       let c = tcred (ptask s (current k)); tc = tcred (ptask s tsk);
           id_match = (uid c = euid tc \<and> uid c = suid tc \<and> uid c = uid tc
                       \<and> gid c = egid tc \<and> gid c = sgid tc \<and> gid c = gid tc) in
       if \<not> id_match \<and> \<not> capable_in k (user_ns tc) CAP_SYS_RESOURCE then - EPERM
       else lsm_prlimit k c tc rd wr)"

text \<open>The result, what is stored through the second pointer, and the state.\<close>

definition prlimit64 :: "('x, 'l::len word) rl_api \<Rightarrow> int \<Rightarrow> nat \<Rightarrow> 64 word rlimit uptr \<Rightarrow> unit uptr
    \<Rightarrow> ('x, 'l word) rl_state \<Rightarrow> int \<times> 64 word rlimit option \<times> ('x, 'l word) rl_state" where
  "prlimit64 k pid resource new_rlim old_rlim s =
    (if new_rlim = Bad then (- EFAULT, None, s)
     else
       let new = (case new_rlim of Good n \<Rightarrow> Some (rlim64_to_rlim n) | _ \<Rightarrow> None);
           tsk = (if pid \<noteq> 0 then find_task k pid else Some (current k)) in
       (case tsk of
          None \<Rightarrow> (- ESRCH, None, s)
        | Some tsk \<Rightarrow>
            let ret = check_prlimit_permission k tsk (old_rlim \<noteq> Null) (new \<noteq> None) s in
            if ret \<noteq> 0 then (ret, None, s)
            else
              let (ret, old, s) = do_prlimit k tsk resource new (old_rlim \<noteq> Null) s in
              (case old of
                 None \<Rightarrow> (ret, None, s)
               | Some old \<Rightarrow>
                   if ret \<noteq> 0 then (ret, None, s)
                   else if old_rlim = Bad then (- EFAULT, None, s) else (0, Some (rlim_to_rlim64 old), s))))"

definition getrlimit :: "('x, 'l::len word) rl_api \<Rightarrow> nat \<Rightarrow> unit uptr \<Rightarrow> ('x, 'l word) rl_state
    \<Rightarrow> int \<times> 'l word rlimit option \<times> ('x, 'l word) rl_state" where
  "getrlimit k resource rlim s =
    (let (ret, val, s) = do_prlimit k (current k) resource None True s in
     if ret \<noteq> 0 then (ret, None, s)
     else if rlim \<noteq> Good () then (- EFAULT, None, s) else (0, val, s))"

definition setrlimit :: "('x, 'l::len word) rl_api \<Rightarrow> nat \<Rightarrow> 'l word rlimit uptr \<Rightarrow> ('x, 'l word) rl_state \<Rightarrow> int \<times> ('x, 'l word) rl_state" where
  "setrlimit k resource rlim s = (case rlim of
     Good n \<Rightarrow> (let (ret, _, s) = do_prlimit k (current k) resource (Some n) False s in (ret, s))
   | _ \<Rightarrow> (- EFAULT, s))"

text \<open>For programs with 32 bit words: the largest value stands for no limit, and what does not fit is
  reported as no limit.\<close>

definition widen :: "('x, 'l::len word) rl_api \<Rightarrow> 32 word \<Rightarrow> 'l word" where
  "widen k v = (if v = compat_infinity k then infinity else ucast v)"

definition narrow :: "('x, 'l::len word) rl_api \<Rightarrow> 'l word \<Rightarrow> 32 word" where
  "narrow k v = (if unat v > unat (compat_infinity k) then compat_infinity k else ucast v)"

definition compat_setrlimit :: "('x, 'l::len word) rl_api \<Rightarrow> nat \<Rightarrow> 32 word rlimit uptr \<Rightarrow> ('x, 'l word) rl_state
    \<Rightarrow> int \<times> ('x, 'l word) rl_state" where
  "compat_setrlimit k resource rlim s = (case rlim of
     Good r32 \<Rightarrow>
       (let r = \<lparr>rlim_cur = widen k (rlim_cur r32), rlim_max = widen k (rlim_max r32)\<rparr>;
            (ret, _, s) = do_prlimit k (current k) resource (Some r) False s in (ret, s))
   | _ \<Rightarrow> (- EFAULT, s))"

definition compat_getrlimit :: "('x, 'l::len word) rl_api \<Rightarrow> nat \<Rightarrow> unit uptr \<Rightarrow> ('x, 'l word) rl_state
    \<Rightarrow> int \<times> 32 word rlimit option \<times> ('x, 'l word) rl_state" where
  "compat_getrlimit k resource rlim s =
    (let (ret, val, s) = do_prlimit k (current k) resource None True s in
     (case val of
        None \<Rightarrow> (ret, None, s)
      | Some r \<Rightarrow>
          if ret \<noteq> 0 then (ret, None, s)
          else if rlim \<noteq> Good () then (- EFAULT, None, s)
          else (ret, Some \<lparr>rlim_cur = narrow k (rlim_cur r), rlim_max = narrow k (rlim_max r)\<rparr>, s)))"

definition old_getrlimit :: "('x, 'l::len word) rl_api \<Rightarrow> nat \<Rightarrow> unit uptr \<Rightarrow> ('x, 'l word) rl_state \<Rightarrow> int \<times> 'l word rlimit option" where
  "old_getrlimit k resource rlim s =
    (if RLIM_NLIMITS \<le> resource then (- EINVAL, None)
     else
       let x = limits s (signal (ptask s (current k))) ! resource;
           cap = (\<lambda>v. if 0x7FFFFFFF < unat v then 0x7FFFFFFF else v) in
       if rlim \<noteq> Good () then (- EFAULT, None)
       else (0, Some \<lparr>rlim_cur = cap (rlim_cur x), rlim_max = cap (rlim_max x)\<rparr>))"

text \<open>Its compatibility version stores its two fields one by one; \<open>None\<close>: a field that was not stored.\<close>

definition compat_old_getrlimit :: "('x, 'l::len word) rl_api \<Rightarrow> nat \<Rightarrow> bool \<Rightarrow> bool \<Rightarrow> ('x, 'l word) rl_state
    \<Rightarrow> int \<times> 32 word option \<times> 32 word option" where
  "compat_old_getrlimit k resource cur_ok max_ok s =
    (if RLIM_NLIMITS \<le> resource then (- EINVAL, None, None)
     else
       let x = limits s (signal (ptask s (current k))) ! resource;
           cap = (\<lambda>v. if 0x7FFFFFFF < unat v then 0x7FFFFFFF else v) in
       if \<not> cur_ok then (- EFAULT, None, None)
       else if \<not> max_ok then (- EFAULT, Some (ucast (cap (rlim_cur x))), None)
       else (0, Some (ucast (cap (rlim_cur x))), Some (ucast (cap (rlim_max x)))))"

section \<open>Sequences of calls\<close>

datatype 'w rl_call = Prlimit64 int nat "64 word rlimit uptr" "unit uptr" | Getrlimit nat "unit uptr"
  | Setrlimit nat "'w rlimit uptr" | Compat_setrlimit nat "32 word rlimit uptr" | Compat_getrlimit nat "unit uptr"

primrec rl_step :: "('x, 'l::len word) rl_api \<Rightarrow> 'l word rl_call \<Rightarrow> ('x, 'l word) rl_state \<Rightarrow> ('x, 'l word) rl_state" where
  "rl_step k (Prlimit64 pid r new old) s = snd (snd (prlimit64 k pid r new old s))"
| "rl_step k (Getrlimit r p) s = snd (snd (getrlimit k r p s))"
| "rl_step k (Setrlimit r p) s = snd (setrlimit k r p s)"
| "rl_step k (Compat_setrlimit r p) s = snd (compat_setrlimit k r p s)"
| "rl_step k (Compat_getrlimit r p) s = snd (snd (compat_getrlimit k r p s))"

section \<open>The limits stay ordered, and hard limits are not raised\<close>

text \<open>The soft limit is at most the hard one, with one exception that the code makes itself: a CPU limit
  of 0 is stored as 1, even when the hard limit is 0.\<close>

definition ordered_limit :: "nat \<Rightarrow> 'l::len word rlimit \<Rightarrow> bool" where
  "ordered_limit r l \<longleftrightarrow> rlim_cur l \<le> rlim_max l \<or> r = RLIMIT_CPU \<and> rlim_cur l = 1 \<and> rlim_max l = 0"

definition limits_ok :: "('x, 'l::len word) rl_state \<Rightarrow> bool" where
  "limits_ok s \<longleftrightarrow> (\<forall>sg. length (limits s sg) = RLIM_NLIMITS \<and> (\<forall>r < RLIM_NLIMITS. ordered_limit r (limits s sg ! r)))"

definition not_raised :: "('x, 'l::len word) rl_state \<Rightarrow> ('x, 'l word) rl_state \<Rightarrow> bool" where
  "not_raised s t \<longleftrightarrow> (\<forall>sg. \<forall>r < RLIM_NLIMITS. rlim_max (limits t sg ! r) \<le> rlim_max (limits s sg ! r))"

definition good_step :: "('x, 'l::len word) rl_api \<Rightarrow> ('x, 'l word) rl_state \<Rightarrow> ('x, 'l word) rl_state \<Rightarrow> bool" where
  "good_step k s t \<longleftrightarrow> (limits_ok s \<longrightarrow> limits_ok t \<and> (capable k CAP_SYS_RESOURCE \<or> not_raised s t)) \<and> ptask t = ptask s"

lemma good_step_refl [simp]: "good_step k s s"
  by (simp add: good_step_def not_raised_def)

lemma not_raised_trans: "not_raised s t \<Longrightarrow> not_raised t u \<Longrightarrow> not_raised s u"
  unfolding not_raised_def by (meson order_trans)

lemma good_step_trans: "good_step k s t \<Longrightarrow> good_step k t u \<Longrightarrow> good_step k s u"
  using not_raised_trans [of s t u] by (auto simp: good_step_def)

lemma nth_update_if: "j < length xs \<Longrightarrow> xs[i := x] ! j = (if i = j then x else xs ! j)"
  by (cases "i = j") auto

lemma good_step_store:
  assumes "limits t = (limits s)(sg := (limits s sg)[r := n])" "ptask t = ptask s" "ordered_limit r n"
    and "rlim_max n \<le> rlim_max (limits s sg ! r) \<or> capable k CAP_SYS_RESOURCE"
  shows "good_step k s t"
  using assms by (auto simp: good_step_def limits_ok_def not_raised_def nth_update_if)

lemma one_le_word: "(1 :: 'l::len word) \<le> x \<longleftrightarrow> x \<noteq> 0"
  by (metis linorder_not_le word_less_1)

lemma ordered_cpu: "\<not> rlim_cur n > rlim_max n \<Longrightarrow>
    ordered_limit r (if r = RLIMIT_CPU \<and> rlim_cur n = 0 then n\<lparr>rlim_cur := 1\<rparr> else n)"
  by (auto simp: ordered_limit_def one_le_word)

lemma do_prlimit_good: "good_step k s (snd (snd (do_prlimit k tsk r new old s)))"
proof (cases new)
  case None
  then show ?thesis by (simp add: do_prlimit_def Let_def)
next
  case (Some n)
  show ?thesis
  proof (cases "rlim_cur n > rlim_max n")
    case True
    with Some show ?thesis by (simp add: do_prlimit_def)
  next
    case False
    show ?thesis
      using ordered_cpu [OF False, of r] Some
      by (auto simp: do_prlimit_def Let_def EPERM_def split: if_splits intro!: good_step_store)
  qed
qed

lemma do_prlimit_good_eq: "do_prlimit k tsk r new old s = (x, y, t) \<Longrightarrow> good_step k s t"
  using do_prlimit_good [of k s tsk r new old] by simp

lemma rl_step_good: "good_step k s (rl_step k c s)"
proof (cases c)
  case (Prlimit64 pid r new old)
  then show ?thesis
    by (auto simp: prlimit64_def Let_def do_prlimit_good split: option.split prod.split dest: do_prlimit_good_eq)
qed (auto simp: getrlimit_def setrlimit_def compat_setrlimit_def compat_getrlimit_def Let_def
    split: option.split prod.split uptr.split dest: do_prlimit_good_eq)

lemma rl_steps_good: "good_step k s (fold (rl_step k) cs s)"
  by (induction cs arbitrary: s) (auto intro: good_step_trans rl_step_good)

section \<open>Conversions\<close>

text \<open>A 64 bit limit that an \<open>unsigned long\<close> can hold: no limit, or less than the largest value.\<close>

definition representable :: "'l::len itself \<Rightarrow> 64 word \<Rightarrow> bool" where
  "representable (_ :: 'l itself) v \<longleftrightarrow> v = infinity \<or> unat v < 2 ^ LENGTH('l) - 1"

lemma unat_infinity: "unat (infinity :: 'l::len word) = 2 ^ LENGTH('l) - 1"
  by (simp add: unsigned_minus_1_eq_mask mask_eq_exp_minus_1)

lemma unat_widened: "LENGTH('l) \<le> 64 \<Longrightarrow> unat (ucast (w :: 'l::len word) :: 64 word) = unat w"
proof -
  assume "LENGTH('l) \<le> 64"
  then have "unat w < 2 ^ 64"
    using unsigned_less [of w] power_increasing [of "LENGTH('l)" 64 "2 :: nat"] by (meson less_le_trans one_le_numeral)
  then show ?thesis by (simp add: unsigned_ucast_eq take_bit_nat_eq_self)
qed

lemma unat_narrowed: "unat v < 2 ^ LENGTH('l) \<Longrightarrow> unat (ucast (v :: 64 word) :: 'l::len word) = unat v"
  by (simp add: unsigned_ucast_eq take_bit_nat_eq_self)

lemma infinite_iff:
  assumes "LENGTH('l) \<le> 64"
  shows "rlim64_is_infinity TYPE('l::len) v \<longleftrightarrow> 2 ^ LENGTH('l) - 1 \<le> unat v"
proof (cases "LENGTH('l) < 64")
  case True
  then show ?thesis using assms
    by (simp add: rlim64_is_infinity_def word_le_nat_alt unat_widened unat_infinity)
next
  case False
  then have "LENGTH('l) = 64" using assms by simp
  moreover have "v = infinity \<longleftrightarrow> 2 ^ 64 - 1 \<le> unat v"
  proof -
    have "unat v < 2 ^ 64" using unsigned_less [of v] by simp
    moreover have "unat (infinity :: 64 word) = 2 ^ 64 - 1" using unat_infinity [where 'l = 64] by simp
    ultimately show ?thesis by (auto simp: word_unat_eq_iff)
  qed
  ultimately show ?thesis by (simp add: rlim64_is_infinity_def)
qed

lemma field_back:
  assumes "LENGTH('l::len) \<le> 64" "representable TYPE('l) v"
  shows "limit_to_64 (limit_of_64 v :: 'l word) = v"
proof (cases "rlim64_is_infinity TYPE('l) v")
  case True
  then have "v = infinity" using infinite_iff [OF assms(1), of v] assms(2) by (simp add: representable_def)
  with True show ?thesis by (simp add: limit_of_64_def limit_to_64_def)
next
  case False
  then have less: "unat v < 2 ^ LENGTH('l) - 1" using infinite_iff [OF assms(1), of v] by simp
  then have n: "unat (ucast v :: 'l word) = unat v" by (intro unat_narrowed) simp
  with less have "(ucast v :: 'l word) \<noteq> infinity" using unat_infinity [where 'l = 'l] by (metis less_irrefl)
  moreover have "unat (ucast (ucast v :: 'l word) :: 64 word) = unat v"
    using unat_widened [OF assms(1)] n by simp
  then have "(ucast (ucast v :: 'l word) :: 64 word) = v" by (simp add: word_unat_eq_iff)
  ultimately show ?thesis using False by (simp add: limit_of_64_def limit_to_64_def)
qed

lemma rlimit_back:
  assumes "LENGTH('l::len) \<le> 64" "representable TYPE('l) (rlim_cur v)" "representable TYPE('l) (rlim_max v)"
  shows "rlim_to_rlim64 (rlim64_to_rlim v :: 'l word rlimit) = v"
  using field_back [OF assms(1,2)] field_back [OF assms(1,3)]
  by (simp add: rlim_to_rlim64_def rlim64_to_rlim_def)

lemma zero_back:
  assumes "LENGTH('l::len) \<le> 64" "representable TYPE('l) v" "v \<noteq> 0"
  shows "(limit_of_64 v :: 'l word) \<noteq> 0"
  using field_back [OF assms(1,2)] assms(3) by (auto simp: limit_to_64_def)

text \<open>What is stored: the kernel takes a CPU limit of 0 for 1.\<close>

definition stored :: "nat \<Rightarrow> 'l::len word rlimit \<Rightarrow> 'l word rlimit" where
  "stored r n = (if r = RLIMIT_CPU \<and> rlim_cur n = 0 then n\<lparr>rlim_cur := 1\<rparr> else n)"

lemma stored_64:
  assumes "1 < LENGTH('l::len)" "LENGTH('l) \<le> 64" "representable TYPE('l) (rlim_cur v)"
  shows "stored r (rlim64_to_rlim v :: 'l word rlimit) = rlim64_to_rlim (stored r v)"
    "representable TYPE('l) (rlim_cur (stored r v))" "rlim_max (stored r v) = rlim_max v"
proof -
  have "(2 :: nat) ^ 2 \<le> 2 ^ LENGTH('l)" using assms(1) by (intro power_increasing) simp_all
  then have big: "1 < (2 :: nat) ^ LENGTH('l) - 1" by simp
  then have one: "representable TYPE('l) (1 :: 64 word)" by (simp add: representable_def)
  have "\<not> rlim64_is_infinity TYPE('l) 1" "\<not> rlim64_is_infinity TYPE('l) 0"
    using big infinite_iff [OF assms(2), of 1] infinite_iff [OF assms(2), of 0] by (auto simp only: unat_1 unat_0)
  then have "(limit_of_64 1 :: 'l word) = 1 \<and> (limit_of_64 0 :: 'l word) = 0" by (simp add: limit_of_64_def)
  with zero_back [OF assms(2,3)] show "stored r (rlim64_to_rlim v :: 'l word rlimit) = rlim64_to_rlim (stored r v)"
    by (auto simp: stored_def rlim64_to_rlim_def)
  show "representable TYPE('l) (rlim_cur (stored r v))" "rlim_max (stored r v) = rlim_max v"
    using one assms(3) by (simp_all add: stored_def)
qed

text \<open>A call that has set limits leaves them where the next one finds them.\<close>

lemma do_prlimit_set_get:
  assumes "do_prlimit k tsk r (Some n) b s = (0, x, t)" "length (limits s (signal (ptask s tsk))) = RLIM_NLIMITS"
  shows "do_prlimit k tsk r None True t = (0, Some (stored r n), t) \<and> ptask t = ptask s"
  using assms by (auto simp: do_prlimit_def stored_def Let_def errno_defs split: if_splits)

section \<open>Properties\<close>

text \<open>C28: whatever sequence of limit calls is made, every soft limit stays at or below its hard limit
  (but for the CPU limit that the code itself sets to 1 over a hard limit of 0), and a caller without
  CAP_SYS_RESOURCE raises no hard limit of any process.\<close>

theorem rlimits_ordered_and_not_raised:
  assumes "limits_ok s"
  shows "limits_ok (fold (rl_step k) cs s)
    \<and> (capable k CAP_SYS_RESOURCE \<or> (\<forall>sg. \<forall>r < RLIM_NLIMITS.
         rlim_max (limits (fold (rl_step k) cs s) sg ! r) \<le> rlim_max (limits s sg ! r)))"
  using rl_steps_good [of k s cs] assms by (simp add: good_step_def not_raised_def)

text \<open>A machine with 32 bit words and one task for the witnesses.\<close>

definition demo_rl :: "(unit, 32 word) rl_api" where
  "demo_rl = \<lparr>current = 1, find_task = (\<lambda>p. if p = 1 then Some 1 else None), capable = (\<lambda>c. False),
     capable_in = (\<lambda>n c. False), lsm_setrlimit = (\<lambda>t r l. 0), lsm_prlimit = (\<lambda>c d rd wr. 0), nr_open = 1000,
     posix_timers = True, compat_infinity = 0xFFFFFFFF\<rparr>"

definition demo_limits :: "(unit, 32 word) rl_state" where
  "demo_limits = \<lparr>ptask = (\<lambda>t. \<lparr>tcred = cred (demo_task {} 3 3), sighand = True, signal = 0\<rparr>),
     limits = (\<lambda>sg. replicate 16 \<lparr>rlim_cur = 100, rlim_max = 500\<rparr>), cpu_updates = []\<rparr>"

lemma demo_limits_ok: "limits_ok demo_limits"
  by (simp add: limits_ok_def demo_limits_def ordered_limit_def RLIM_NLIMITS_def)

text \<open>The exception in the order of the limits can be reached by any task.\<close>

lemma cpu_limit_zero:
  "setrlimit demo_rl RLIMIT_CPU (Good \<lparr>rlim_cur = 0, rlim_max = 0\<rparr>) demo_limits
   = (0, demo_limits\<lparr>limits := (limits demo_limits)(0 := (limits demo_limits 0)[0 := \<lparr>rlim_cur = 1, rlim_max = 0\<rparr>]),
        cpu_updates := [(1, 1)]\<rparr>)"
  by (simp add: setrlimit_def do_prlimit_def demo_rl_def demo_limits_def RLIMIT_CPU_def RLIM_NLIMITS_def
      RLIMIT_NOFILE_def Let_def)

theorem rlimits_ordered_and_not_raised_witness:
  "limits_ok (fold (rl_step demo_rl) [Setrlimit RLIMIT_CPU (Good \<lparr>rlim_cur = 0, rlim_max = 0\<rparr>)] demo_limits)
   \<and> rlim_cur (limits (rl_step demo_rl (Setrlimit RLIMIT_CPU (Good \<lparr>rlim_cur = 0, rlim_max = 0\<rparr>)) demo_limits) 0 ! 0) = 1"
  using rlimits_ordered_and_not_raised [OF demo_limits_ok,
      of demo_rl "[Setrlimit RLIMIT_CPU (Good \<lparr>rlim_cur = 0, rlim_max = 0\<rparr>)]"]
  by (simp add: cpu_limit_zero) (simp add: demo_limits_def)

text \<open>C29: When \<open>prlimit64\<close> has set the limits of a task whose limits the caller may also read, \<open>prlimit64\<close> gives the
  same limits back, for any width of \<open>unsigned long\<close> from 2 to 64 bits and limits that it can represent (infinity, or less than its
  largest value); only a soft CPU limit of 0, which the kernel stores as 1, comes back as 1.\<close>

theorem prlimit64_roundtrip:
  fixes k :: "('x, 'l::len word) rl_api"
  assumes "1 < LENGTH('l)" "LENGTH('l) \<le> 64" "limits_ok s"
    and "prlimit64 k pid r (Good v) Null s = (0, x, t)"
    and "(if pid \<noteq> 0 then find_task k pid else Some (current k)) = Some tsk"
    and "check_prlimit_permission k tsk True False s = 0"
    and "representable TYPE('l) (rlim_cur v)" "representable TYPE('l) (rlim_max v)"
  shows "prlimit64 k pid r Null (Good ()) t
    = (0, Some (if r = RLIMIT_CPU \<and> rlim_cur v = 0 then v\<lparr>rlim_cur := 1\<rparr> else v), t)"
proof -
  let ?n = "rlim64_to_rlim v :: 'l word rlimit"
  obtain y where set: "do_prlimit k tsk r (Some ?n) False s = (0, y, t)"
    using assms(4,5) by (auto simp: prlimit64_def Let_def ESRCH_def split: option.splits prod.splits if_splits)
  with do_prlimit_set_get [OF set] assms(3)
  have get: "do_prlimit k tsk r None True t = (0, Some (stored r ?n), t)" "ptask t = ptask s"
    by (simp_all add: limits_ok_def)
  have "check_prlimit_permission k tsk True False t = check_prlimit_permission k tsk True False s"
    using get(2) by (simp add: check_prlimit_permission_def)
  with assms(6) have "check_prlimit_permission k tsk True False t = 0" by simp
  moreover have "rlim_to_rlim64 (stored r ?n) = stored r v"
    using stored_64 [OF assms(1,2,7), of r] rlimit_back [OF assms(2), of "stored r v"] assms(8) by simp
  ultimately show ?thesis using assms(5) get(1) by (simp add: prlimit64_def Let_def stored_def)
qed

text \<open>The caller 1 has the CPU time limit 0 set for itself, as a program with two tasks of two users.\<close>

definition demo_two_users :: "(unit, 32 word) rl_state" where
  "demo_two_users = demo_limits\<lparr>ptask := (\<lambda>t. \<lparr>tcred = cred (if t = 1 then demo_task {} 3 3 else demo_task {} 5 5),
     sighand = True, signal = t\<rparr>)\<rparr>"

theorem prlimit64_roundtrip_witness:
  "\<exists>t. prlimit64 demo_rl 1 0 (Good \<lparr>rlim_cur = 0, rlim_max = 300\<rparr>) Null demo_two_users = (0, None, t)
     \<and> check_prlimit_permission demo_rl 2 True False demo_two_users \<noteq> 0
     \<and> prlimit64 demo_rl 1 0 Null (Good ()) t = (0, Some \<lparr>rlim_cur = 1, rlim_max = 300\<rparr>, t)"
proof -
  let ?p = "prlimit64 demo_rl 1 0 (Good \<lparr>rlim_cur = 0, rlim_max = 300\<rparr>) Null demo_two_users"
  have "fst ?p = 0 \<and> fst (snd ?p) = None" by code_simp
  then obtain t where t: "?p = (0, None, t)" by (metis prod.collapse)
  have task: "(if (1 :: int) \<noteq> 0 then find_task demo_rl 1 else Some (current demo_rl)) = Some 1" by (simp add: demo_rl_def)
  have perm: "check_prlimit_permission demo_rl 1 True False demo_two_users = 0"
    "check_prlimit_permission demo_rl 2 True False demo_two_users \<noteq> 0"
    by (simp_all add: check_prlimit_permission_def demo_rl_def demo_two_users_def demo_task_def EPERM_def)
  have ok: "limits_ok demo_two_users" using demo_limits_ok by (simp add: limits_ok_def demo_two_users_def)
  have "representable TYPE(32) (0 :: 64 word)" "representable TYPE(32) (300 :: 64 word)"
    by (simp_all add: representable_def)
  with prlimit64_roundtrip [OF _ _ ok t task perm(1)] t perm(2) show ?thesis by (auto simp: RLIMIT_CPU_def)
qed

end
