(* ===== verification/ProcGroups.thy ===== *)
theory ProcGroups
  imports Prelude
begin

text \<open>
  Process groups and sessions: \<^verbatim>\<open>setpgid\<close>, \<^verbatim>\<open>getpgid\<close>, \<^verbatim>\<open>getpgrp\<close>, \<^verbatim>\<open>getsid\<close>, \<^verbatim>\<open>setsid\<close>, \<^verbatim>\<open>getpid\<close>,
  \<^verbatim>\<open>gettid\<close> and \<^verbatim>\<open>getppid\<close> of \<^verbatim>\<open>HW2_APES/PROBLEM5/system_call/sys.c\<close>.

  Tasks and \<open>struct pid\<close>s are numbers. As in the kernel, group, session, leader flag and terminal of a
  thread are those of its thread group leader. The mapping between \<open>struct pid\<close>s and the numbers a
  program sees, and the security module, are parameters. Tasks do not come or go during a call, which
  holds the task list lock.
\<close>

section \<open>State\<close>

record ptask =
  group_leader :: nat
  real_parent :: nat
  pid :: nat
  pgrp :: nat
  sess :: nat
  sig_leader :: bool
  forknoexec :: bool
  tty :: bool

record pg_state =
  task :: "nat \<Rightarrow> ptask"
  live :: "nat list"

record pg_api =
  vnr :: "nat \<Rightarrow> int"
  find_vpid :: "int \<Rightarrow> nat option"
  lsm_setpgid :: "nat \<Rightarrow> int \<Rightarrow> int"
  lsm_getpgid :: "nat \<Rightarrow> int"
  lsm_getsid :: "nat \<Rightarrow> int"

definition leader_of :: "pg_state \<Rightarrow> nat \<Rightarrow> nat" where
  "leader_of s x = group_leader (task s x)"

definition task_pid :: "pg_state \<Rightarrow> nat \<Rightarrow> nat" where
  "task_pid s x = pid (task s x)"

definition task_pgrp :: "pg_state \<Rightarrow> nat \<Rightarrow> nat" where
  "task_pgrp s x = pgrp (task s (leader_of s x))"

definition task_session :: "pg_state \<Rightarrow> nat \<Rightarrow> nat" where
  "task_session s x = sess (task s (leader_of s x))"

text \<open>The task with a pid, and the first member of a process group; members are thread group leaders.\<close>

definition find_task_by_vpid :: "pg_api \<Rightarrow> pg_state \<Rightarrow> int \<Rightarrow> nat option" where
  "find_task_by_vpid k s n = Option.bind (find_vpid k n) (\<lambda>p. find (\<lambda>x. task_pid s x = p) (live s))"

definition group_member :: "pg_state \<Rightarrow> nat \<Rightarrow> nat option" where
  "group_member s g = find (\<lambda>x. leader_of s x = x \<and> pgrp (task s x) = g) (live s)"

definition change_pgrp :: "nat \<Rightarrow> nat \<Rightarrow> pg_state \<Rightarrow> pg_state" where
  "change_pgrp x g s = s\<lparr>task := (task s)(x := (task s x)\<lparr>pgrp := g\<rparr>)\<rparr>"

definition change_sess :: "nat \<Rightarrow> nat \<Rightarrow> pg_state \<Rightarrow> pg_state" where
  "change_sess x g s = s\<lparr>task := (task s)(x := (task s x)\<lparr>sess := g\<rparr>)\<rparr>"

section \<open>The calls\<close>

text \<open>The group that \<open>setpgid\<close> moves to: the one with that number in the caller's session, or the own
  pid.\<close>

definition target_group :: "pg_api \<Rightarrow> pg_state \<Rightarrow> nat \<Rightarrow> nat \<Rightarrow> int \<Rightarrow> int \<Rightarrow> nat option" where
  "target_group k s gl p n pgid =
    (if pgid \<noteq> n then
       (case find_vpid k pgid of
          None \<Rightarrow> None
        | Some g \<Rightarrow>
            (case group_member s g of
               None \<Rightarrow> None
             | Some m \<Rightarrow> if task_session s m \<noteq> task_session s gl then None else Some g))
     else Some (task_pid s p))"

definition setpgid :: "pg_api \<Rightarrow> nat \<Rightarrow> int \<Rightarrow> int \<Rightarrow> pg_state \<Rightarrow> int \<times> pg_state" where
  "setpgid k current n pgid s =
    (let gl = leader_of s current;
         n = (if n = 0 then vnr k (task_pid s gl) else n);
         pgid = (if pgid = 0 then n else pgid) in
     if pgid < 0 then (- EINVAL, s)
     else (case find_task_by_vpid k s n of
         None \<Rightarrow> (- ESRCH, s)
       | Some p \<Rightarrow>
           if leader_of s p \<noteq> p then (- EINVAL, s)
           else
             let child = (leader_of s (real_parent (task s p)) = leader_of s gl) in
             if child \<and> task_session s p \<noteq> task_session s gl then (- EPERM, s)
             else if child \<and> \<not> forknoexec (task s p) then (- EACCES, s)
             else if \<not> child \<and> p \<noteq> gl then (- ESRCH, s)
             else if sig_leader (task s p) then (- EPERM, s)
             else (case target_group k s gl p n pgid of
                 None \<Rightarrow> (- EPERM, s)
               | Some g \<Rightarrow>
                   let err = lsm_setpgid k p pgid in
                   if err \<noteq> 0 then (err, s)
                   else (0, if task_pgrp s p \<noteq> g then change_pgrp p g s else s))))"

definition getpgid :: "pg_api \<Rightarrow> nat \<Rightarrow> int \<Rightarrow> pg_state \<Rightarrow> int" where
  "getpgid k current n s =
    (if n = 0 then vnr k (task_pgrp s current)
     else (case find_task_by_vpid k s n of
         None \<Rightarrow> - ESRCH
       | Some p \<Rightarrow> let retval = lsm_getpgid k p in if retval \<noteq> 0 then retval else vnr k (task_pgrp s p)))"

definition getpgrp :: "pg_api \<Rightarrow> nat \<Rightarrow> pg_state \<Rightarrow> int" where
  "getpgrp k current s = getpgid k current 0 s"

definition getsid :: "pg_api \<Rightarrow> nat \<Rightarrow> int \<Rightarrow> pg_state \<Rightarrow> int" where
  "getsid k current n s =
    (if n = 0 then vnr k (task_session s current)
     else (case find_task_by_vpid k s n of
         None \<Rightarrow> - ESRCH
       | Some p \<Rightarrow> let retval = lsm_getsid k p in if retval \<noteq> 0 then retval else vnr k (task_session s p)))"

definition set_special_pids :: "nat \<Rightarrow> nat \<Rightarrow> pg_state \<Rightarrow> pg_state" where
  "set_special_pids current g s =
    (let curr = leader_of s current;
         s = (if task_session s curr \<noteq> g then change_sess curr g s else s)
     in if task_pgrp s curr \<noteq> g then change_pgrp curr g s else s)"

definition setsid :: "pg_api \<Rightarrow> nat \<Rightarrow> pg_state \<Rightarrow> int \<times> pg_state" where
  "setsid k current s =
    (let gl = leader_of s current; sid = task_pid s gl; session = vnr k sid in
     if sig_leader (task s gl) then (- EPERM, s)
     else if group_member s sid \<noteq> None then (- EPERM, s)
     else
       let s = s\<lparr>task := (task s)(gl := (task s gl)\<lparr>sig_leader := True\<rparr>)\<rparr>;
           s = set_special_pids current sid s;
           s = s\<lparr>task := (task s)(gl := (task s gl)\<lparr>tty := False\<rparr>)\<rparr>
       in (session, s))"

definition getpid :: "pg_api \<Rightarrow> nat \<Rightarrow> pg_state \<Rightarrow> int" where
  "getpid k current s = vnr k (task_pid s (leader_of s current))"

definition gettid :: "pg_api \<Rightarrow> nat \<Rightarrow> pg_state \<Rightarrow> int" where
  "gettid k current s = vnr k (task_pid s current)"

definition getppid :: "pg_api \<Rightarrow> nat \<Rightarrow> pg_state \<Rightarrow> int" where
  "getppid k current s = vnr k (task_pid s (leader_of s (real_parent (task s current))))"

text \<open>Calls by any of the tasks, one after the other.\<close>

datatype pg_call = Setpgid nat int int | Setsid nat

primrec pg_step :: "pg_api \<Rightarrow> pg_call \<Rightarrow> pg_state \<Rightarrow> pg_state" where
  "pg_step k (Setpgid c n g) s = snd (setpgid k c n g s)"
| "pg_step k (Setsid c) s = snd (setsid k c s)"

primrec caller :: "pg_call \<Rightarrow> nat" where
  "caller (Setpgid c n g) = c"
| "caller (Setsid c) = c"

section \<open>A process group lies within one session\<close>

text \<open>Tasks have different pids; a thread group leader leads itself and is live while its threads are.\<close>

definition wf :: "pg_state \<Rightarrow> bool" where
  "wf s \<longleftrightarrow> (\<forall>x \<in> set (live s). leader_of s x \<in> set (live s) \<and> leader_of s (leader_of s x) = leader_of s x)
     \<and> inj_on (task_pid s) (set (live s))"

definition leaders :: "pg_state \<Rightarrow> nat set" where
  "leaders s = {x \<in> set (live s). leader_of s x = x}"

text \<open>Two members of a group are in one session, and so are a member and the process whose pid names
  the group; a session leader leads the session and the group that its pid names.\<close>

definition sessions_ok :: "pg_state \<Rightarrow> bool" where
  "sessions_ok s \<longleftrightarrow>
     (\<forall>x \<in> leaders s. \<forall>y \<in> leaders s. pgrp (task s x) = pgrp (task s y) \<longrightarrow> sess (task s x) = sess (task s y))
   \<and> (\<forall>x \<in> leaders s. \<forall>y \<in> leaders s. pgrp (task s x) = pid (task s y) \<longrightarrow> sess (task s x) = sess (task s y))
   \<and> (\<forall>x \<in> leaders s. sig_leader (task s x) \<longrightarrow> sess (task s x) = pid (task s x) \<and> pgrp (task s x) = pid (task s x))"

lemma sessions_okD:
  assumes "sessions_ok s"
  shows "x \<in> leaders s \<Longrightarrow> y \<in> leaders s \<Longrightarrow> pgrp (task s x) = pgrp (task s y) \<Longrightarrow> sess (task s x) = sess (task s y)"
    and "x \<in> leaders s \<Longrightarrow> y \<in> leaders s \<Longrightarrow> pgrp (task s x) = pid (task s y) \<Longrightarrow> sess (task s x) = sess (task s y)"
    and "x \<in> leaders s \<Longrightarrow> sig_leader (task s x) \<Longrightarrow> sess (task s x) = pid (task s x)"
    and "x \<in> leaders s \<Longrightarrow> sig_leader (task s x) \<Longrightarrow> pgrp (task s x) = pid (task s x)"
  using assms unfolding sessions_ok_def by blast+

lemma leader_of_change [simp]:
  "leader_of (change_pgrp x g s) y = leader_of s y" "leader_of (change_sess x g s) y = leader_of s y"
  "live (change_pgrp x g s) = live s" "live (change_sess x g s) = live s"
  "task_pid (change_pgrp x g s) y = task_pid s y" "task_pid (change_sess x g s) y = task_pid s y"
  by (simp_all add: leader_of_def change_pgrp_def change_sess_def task_pid_def)

lemma change_same:
  "pgrp (task s x) = g \<Longrightarrow> change_pgrp x g s = s" "sess (task s x) = g \<Longrightarrow> change_sess x g s = s"
proof -
  show "change_pgrp x g s = s" if "pgrp (task s x) = g"
  proof -
    have "(task s x)\<lparr>pgrp := g\<rparr> = task s x" using that by (cases "task s x") simp
    then show ?thesis by (simp add: change_pgrp_def)
  qed
  show "change_sess x g s = s" if "sess (task s x) = g"
  proof -
    have "(task s x)\<lparr>sess := g\<rparr> = task s x" using that by (cases "task s x") simp
    then show ?thesis by (simp add: change_sess_def)
  qed
qed

lemma find_Some_set: "find P xs = Some x \<Longrightarrow> x \<in> set xs \<and> P x"
  by (auto simp: find_Some_iff)

lemma group_member_Some: "group_member s g = Some m \<Longrightarrow> m \<in> leaders s \<and> pgrp (task s m) = g"
  using find_Some_set [of "\<lambda>x. leader_of s x = x \<and> pgrp (task s x) = g" "live s" m]
  by (simp add: group_member_def leaders_def)

lemma group_member_None: "group_member s g = None \<Longrightarrow> x \<in> leaders s \<Longrightarrow> pgrp (task s x) \<noteq> g"
  by (auto simp: group_member_def leaders_def find_None_iff)

lemma find_task_live: "find_task_by_vpid k s n = Some p \<Longrightarrow> p \<in> set (live s)"
  by (auto simp: find_task_by_vpid_def bind_eq_Some_conv dest: find_Some_set)

lemma leader_in_leaders: "wf s \<Longrightarrow> c \<in> set (live s) \<Longrightarrow> leader_of s c \<in> leaders s"
  by (simp add: wf_def leaders_def)

lemma session_of_leader: "x \<in> leaders s \<Longrightarrow> task_session s x = sess (task s x)" "x \<in> leaders s \<Longrightarrow> task_pgrp s x = pgrp (task s x)"
  by (simp_all add: leaders_def task_session_def task_pgrp_def)

text \<open>What \<open>setpgid\<close> does: nothing, or it moves one process to a group of its session or its own.\<close>

definition own_number :: "pg_api \<Rightarrow> nat \<Rightarrow> int \<Rightarrow> pg_state \<Rightarrow> int" where
  "own_number k c n s = (if n = 0 then vnr k (task_pid s (leader_of s c)) else n)"

lemma setpgid_result:
  obtains (fails) "snd (setpgid k c n pgid s) = s" "fst (setpgid k c n pgid s) \<noteq> 0"
  | (moves) p g where "setpgid k c n pgid s = (0, change_pgrp p g s)"
      "find_task_by_vpid k s (own_number k c n s) = Some p" "leader_of s p = p" "\<not> sig_leader (task s p)"
      "task_session s p = task_session s (leader_of s c) \<or> p = leader_of s c"
      "target_group k s (leader_of s c) p (own_number k c n s)
         (if pgid = 0 then own_number k c n s else pgid) = Some g"
proof -
  define n' where "n' = own_number k c n s"
  define pg where "pg = (if pgid = 0 then n' else pgid)"
  define gl where "gl = leader_of s c"
  have same: "(if task_pgrp s p \<noteq> g then change_pgrp p g s else s) = change_pgrp p g s" if "leader_of s p = p" for p g
    using that by (simp add: task_pgrp_def change_same)
  have self: "s = change_pgrp p (task_pgrp s p) s" if "leader_of s p = p" for p
    using that by (simp add: task_pgrp_def change_same)
  have n: "(if n = 0 then vnr k (task_pid s gl) else n) = n'" by (simp add: n'_def own_number_def gl_def)
  have "(snd (setpgid k c n pgid s) = s \<and> fst (setpgid k c n pgid s) \<noteq> 0) \<or> (\<exists>p g. setpgid k c n pgid s = (0, change_pgrp p g s)
      \<and> find_task_by_vpid k s n' = Some p \<and> leader_of s p = p \<and> \<not> sig_leader (task s p)
      \<and> (task_session s p = task_session s gl \<or> p = gl) \<and> target_group k s gl p n' pg = Some g)"
    unfolding setpgid_def gl_def [symmetric] Let_def n pg_def [symmetric]
    by (auto simp: errno_defs same intro: self split: option.splits if_splits)
  with fails moves show thesis unfolding n'_def gl_def pg_def by blast
qed

lemma setpgid_cases:
  assumes "wf s" "c \<in> set (live s)"
  obtains (same) "snd (setpgid k c n pgid s) = s"
  | (move) p g where "setpgid k c n pgid s = (0, change_pgrp p g s)" "p \<in> leaders s" "\<not> sig_leader (task s p)"
      "g = pid (task s p) \<or> (\<exists>m \<in> leaders s. pgrp (task s m) = g \<and> sess (task s m) = sess (task s p))"
proof (rule setpgid_result [of k c n pgid s])
  fix p g
  assume p: "setpgid k c n pgid s = (0, change_pgrp p g s)" "find_task_by_vpid k s (own_number k c n s) = Some p"
    "leader_of s p = p" "\<not> sig_leader (task s p)" "task_session s p = task_session s (leader_of s c) \<or> p = leader_of s c"
    "target_group k s (leader_of s c) p (own_number k c n s) (if pgid = 0 then own_number k c n s else pgid) = Some g"
  have gl: "leader_of s c \<in> leaders s" by (rule leader_in_leaders [OF assms])
  have pl: "p \<in> leaders s" using find_task_live [OF p(2)] p(3) by (simp add: leaders_def)
  have "sess (task s p) = sess (task s (leader_of s c))"
    using p(5) session_of_leader(1) [OF pl] session_of_leader(1) [OF gl] by auto
  then have "g = pid (task s p) \<or> (\<exists>m \<in> leaders s. pgrp (task s m) = g \<and> sess (task s m) = sess (task s p))"
    using p(6) session_of_leader(1) [OF gl]
    by (auto simp: target_group_def task_pid_def session_of_leader dest!: group_member_Some split: if_splits option.splits)
  with move p(1,4) pl show thesis by blast
qed (rule same)

lemma leaders_change [simp]: "leaders (change_pgrp x g s) = leaders s"
  by (simp add: leaders_def)

lemma wf_change: "wf s \<Longrightarrow> wf (change_pgrp x g s)"
  by (simp add: wf_def inj_on_def)

lemma sessions_ok_move:
  assumes "sessions_ok s" "wf s" "p \<in> leaders s" "\<not> sig_leader (task s p)"
    and "g = pid (task s p) \<or> (\<exists>m \<in> leaders s. pgrp (task s m) = g \<and> sess (task s m) = sess (task s p))"
  shows "sessions_ok (change_pgrp p g s)"
proof -
  have inj: "x \<in> leaders s \<Longrightarrow> y \<in> leaders s \<Longrightarrow> pid (task s x) = pid (task s y) \<Longrightarrow> x = y" for x y
    using assms(2) by (auto simp: wf_def leaders_def task_pid_def inj_on_def)
  have same: "sess (task s x) = sess (task s p)" if "x \<in> leaders s" "pgrp (task s x) = g \<or> g = pid (task s x)" for x
    using assms(1,3,5) that inj [of x p] unfolding sessions_ok_def by metis
  note ok = sessions_okD(1,2) [OF assms(1)] and lead = sessions_okD(3,4) [OF assms(1)]
  have f: "pgrp (task (change_pgrp p g s) x) = (if x = p then g else pgrp (task s x))"
    "sess (task (change_pgrp p g s) x) = sess (task s x)" "pid (task (change_pgrp p g s) x) = pid (task s x)"
    "sig_leader (task (change_pgrp p g s) x) = sig_leader (task s x)" for x
    by (simp_all add: change_pgrp_def)
  have A: "sess (task s x) = sess (task s y)"
    if "x \<in> leaders s" "y \<in> leaders s" "(if x = p then g else pgrp (task s x)) = (if y = p then g else pgrp (task s y))" for x y
    using that same ok(1) by (smt (verit))
  have B: "sess (task s x) = sess (task s y)"
    if "x \<in> leaders s" "y \<in> leaders s" "(if x = p then g else pgrp (task s x)) = pid (task s y)" for x y
  proof (cases "x = p")
    case True
    with same [of y] that show ?thesis by simp
  next
    case False
    with ok(2) that show ?thesis by simp
  qed
  have C: "sess (task s x) = pid (task s x) \<and> (if x = p then g else pgrp (task s x)) = pid (task s x)"
    if "x \<in> leaders s" "sig_leader (task s x)" for x
    using that assms(4) lead [OF that] by auto
  show ?thesis unfolding sessions_ok_def f leaders_change using A B C by blast
qed

text \<open>What \<open>setsid\<close> does to the caller's process.\<close>

definition new_session :: "nat \<Rightarrow> pg_state \<Rightarrow> pg_state" where
  "new_session gl s = s\<lparr>task := (task s)(gl := (task s gl)
     \<lparr>sig_leader := True, sess := task_pid s gl, pgrp := task_pid s gl, tty := False\<rparr>)\<rparr>"

lemma set_special_pids_eq:
  assumes "leader_of s (leader_of s c) = leader_of s c"
  shows "set_special_pids c g s = change_pgrp (leader_of s c) g (change_sess (leader_of s c) g s)"
  using assms by (simp add: set_special_pids_def Let_def task_session_def task_pgrp_def change_same)

lemma setsid_eq:
  assumes "wf s" "c \<in> set (live s)"
  shows "setsid k c s = (let gl = leader_of s c in
    if sig_leader (task s gl) \<or> group_member s (task_pid s gl) \<noteq> None then (- EPERM, s)
    else (vnr k (task_pid s gl), new_session gl s))"
proof -
  define gl where "gl = leader_of s c"
  define s' where "s' = s\<lparr>task := (task s)(gl := (task s gl)\<lparr>sig_leader := True\<rparr>)\<rparr>"
  have gl: "leader_of s gl = gl"
    using leader_in_leaders [OF assms] by (simp add: leaders_def gl_def)
  have lead: "leader_of s' x = leader_of s x" for x by (simp add: leader_of_def s'_def)
  have "leader_of s' c = gl" by (simp add: lead gl_def)
  then have "set_special_pids c (task_pid s gl) s' = change_pgrp gl (task_pid s gl) (change_sess gl (task_pid s gl) s')"
    using gl set_special_pids_eq [of s' c "task_pid s gl"] by (simp add: lead)
  then show ?thesis
    by (simp add: setsid_def gl_def [symmetric] s'_def [symmetric] Let_def new_session_def)
      (simp add: change_pgrp_def change_sess_def s'_def)
qed

lemma leader_of_new:
  "leader_of (new_session gl s) x = leader_of s x" "task_pid (new_session gl s) x = task_pid s x"
  "live (new_session gl s) = live s"
  by (simp_all add: leader_of_def new_session_def task_pid_def)

lemma sessions_ok_new:
  assumes "sessions_ok s" "wf s" "gl \<in> leaders s" "group_member s (task_pid s gl) = None"
  shows "sessions_ok (new_session gl s)"
proof -
  have inj: "x \<in> leaders s \<Longrightarrow> y \<in> leaders s \<Longrightarrow> pid (task s x) = pid (task s y) \<Longrightarrow> x = y" for x y
    using assms(2) by (auto simp: wf_def leaders_def task_pid_def inj_on_def)
  have none: "x \<in> leaders s \<Longrightarrow> pgrp (task s x) \<noteq> pid (task s gl)" for x
    using group_member_None [OF assms(4)] by (simp add: task_pid_def)
  define t where "t = new_session gl s"
  have f: "pgrp (task t x) = (if x = gl then pid (task s gl) else pgrp (task s x))"
    "sess (task t x) = (if x = gl then pid (task s gl) else sess (task s x))" "pid (task t x) = pid (task s x)"
    "sig_leader (task t x) = (x = gl \<or> sig_leader (task s x))" for x
    by (simp_all add: t_def new_session_def task_pid_def)
  have l: "leaders t = leaders s" by (simp add: leaders_def t_def leader_of_new)
  have A: "sess (task t x) = sess (task t y)"
    if "x \<in> leaders s" "y \<in> leaders s" "pgrp (task t x) = pgrp (task t y)" for x y
  proof (cases "x = gl \<or> y = gl")
    case True
    then have "x = y" using that none [of x] none [of y] by (auto simp: f(1) split: if_splits)
    then show ?thesis by simp
  next
    case False
    with that sessions_okD(1) [OF assms(1), of x y] show ?thesis by (simp add: f)
  qed
  have B: "sess (task t x) = sess (task t y)"
    if "x \<in> leaders s" "y \<in> leaders s" "pgrp (task t x) = pid (task t y)" for x y
  proof (cases "x = gl \<or> y = gl")
    case True
    then have "x = y" using that none [of x] inj [of gl y] assms(3) by (auto simp: f(1,3) split: if_splits)
    then show ?thesis by simp
  next
    case False
    with that sessions_okD(2) [OF assms(1), of x y] show ?thesis by (simp add: f)
  qed
  have C: "sess (task t x) = pid (task t x) \<and> pgrp (task t x) = pid (task t x)"
    if "x \<in> leaders s" "sig_leader (task t x)" for x
    using that sessions_okD(3,4) [OF assms(1), of x] by (cases "x = gl") (simp_all add: f)
  show ?thesis unfolding t_def [symmetric] sessions_ok_def l using A B C by blast
qed

lemma wf_new: "wf s \<Longrightarrow> wf (new_session gl s)"
  by (simp add: wf_def inj_on_def leader_of_new)

lemma sessions_ok_step:
  assumes "sessions_ok s" "wf s" "caller call \<in> set (live s)"
  shows "sessions_ok (pg_step k call s) \<and> wf (pg_step k call s) \<and> live (pg_step k call s) = live s"
proof (cases call)
  case (Setpgid c n g)
  with assms have c: "c \<in> set (live s)" by simp
  show ?thesis
    by (rule setpgid_cases [OF assms(2) c, of k n g])
      (simp_all add: Setpgid assms sessions_ok_move wf_change)
next
  case (Setsid c)
  with assms have c: "c \<in> set (live s)" by simp
  show ?thesis
    using leader_in_leaders [OF assms(2) c]
    by (simp add: Setsid setsid_eq [OF assms(2) c] Let_def assms sessions_ok_new wf_new leader_of_new)
qed

interpretation sessions: call_invariant "pg_step k" "\<lambda>call. caller call \<in> set tasks"
  "\<lambda>s. sessions_ok s \<and> wf s \<and> live s = tasks" for k tasks
  by unfold_locales (use sessions_ok_step in auto)

text \<open>Process groups lie within sessions: from a consistent state, whatever \<open>setpgid\<close> and
  \<open>setsid\<close> calls the tasks make in whatever order, two processes of one group are in one session, and a
  session leader leads its session and its group.\<close>

lemma groups_within_sessions:
  assumes "wf s" "sessions_ok s" "\<forall>call \<in> set calls. caller call \<in> set (live s)"
  shows "sessions_ok (fold (pg_step k) calls s)"
  using sessions.run_keeps [of s "live s" calls k] assms by simp

section \<open>What the calls answer afterwards\<close>

text \<open>The numbers of a pid namespace: a \<open>struct pid\<close> is found by the number it has, which is not 0.\<close>

definition numbering :: "pg_api \<Rightarrow> pg_state \<Rightarrow> bool" where
  "numbering k s \<longleftrightarrow> (\<forall>n g. find_vpid k n = Some g \<longrightarrow> vnr k g = n)
     \<and> (\<forall>x \<in> set (live s). find_vpid k (vnr k (task_pid s x)) = Some (task_pid s x) \<and> 0 < vnr k (task_pid s x))"

lemma find_task_change [simp]: "find_task_by_vpid k (change_pgrp p g s) n = find_task_by_vpid k s n"
  by (simp add: find_task_by_vpid_def)

lemma find_own_task:
  assumes "wf s" "numbering k s" "x \<in> set (live s)"
    and "find_task_by_vpid k s (vnr k (task_pid s x)) = Some p"
  shows "p = x"
proof -
  have "find_vpid k (vnr k (task_pid s x)) = Some (task_pid s x)" using assms(2,3) by (simp add: numbering_def)
  with assms(4) have "find (\<lambda>y. task_pid s y = task_pid s x) (live s) = Some p" by (simp add: find_task_by_vpid_def)
  then have "p \<in> set (live s)" "task_pid s p = task_pid s x" by (auto dest: find_Some_set)
  with assms(1,3) show ?thesis by (auto simp: wf_def inj_on_def)
qed

text \<open>\<open>getpgid\<close> for the same process answers, after a successful \<open>setpgid\<close>, the number that was asked
  for: the group, or the process's own number when 0 was given.\<close>

lemma setpgid_getpgid:
  assumes "wf s" "numbering k s" "c \<in> set (live s)" "\<forall>x. lsm_getpgid k x = 0"
    and "setpgid k c n pgid s = (0, s')"
  shows "getpgid k c n s' = (if pgid = 0 then own_number k c n s else pgid)"
proof (rule setpgid_result [of k c n pgid s])
  fix p g
  assume p: "setpgid k c n pgid s = (0, change_pgrp p g s)" "find_task_by_vpid k s (own_number k c n s) = Some p"
    "leader_of s p = p" "\<not> sig_leader (task s p)" "task_session s p = task_session s (leader_of s c) \<or> p = leader_of s c"
    "target_group k s (leader_of s c) p (own_number k c n s) (if pgid = 0 then own_number k c n s else pgid) = Some g"
  define m where "m = (if pgid = 0 then own_number k c n s else pgid)"
  have s': "s' = change_pgrp p g s" using p(1) assms(5) by simp
  have found: "find_vpid k (own_number k c n s) = Some (task_pid s p)"
    using p(2) by (auto simp: find_task_by_vpid_def bind_eq_Some_conv dest: find_Some_set)
  have "find_vpid k m = Some g"
    using p(6) found by (auto simp: m_def [symmetric] target_group_def split: if_splits option.splits)
  then have g: "vnr k g = m" using assms(2) by (simp add: numbering_def)
  have grp: "task_pgrp s' p = g" using p(3) by (simp add: task_pgrp_def s') (simp add: change_pgrp_def)
  show ?thesis
  proof (cases "n = 0")
    case True
    then have "p = leader_of s c"
      using p(2) find_own_task [OF assms(1,2), of "leader_of s c" p] leader_in_leaders [OF assms(1,3)]
      by (simp add: own_number_def leaders_def)
    then have "task_pgrp s' c = g" using p(3) by (simp add: task_pgrp_def s') (simp add: change_pgrp_def)
    then show ?thesis using True g by (simp add: getpgid_def m_def)
  next
    case False
    then have "find_task_by_vpid k s' n = Some p" using p(2) by (simp add: own_number_def s')
    then show ?thesis using False g grp assms(4) by (simp add: getpgid_def m_def)
  qed
qed (use assms(5) in simp)

lemma new_session_task [simp]:
  "task (new_session gl s) x =
     (if x = gl then (task s gl)\<lparr>sig_leader := True, sess := task_pid s gl, pgrp := task_pid s gl, tty := False\<rparr>
      else task s x)"
  by (simp add: new_session_def)

text \<open>A \<open>setsid\<close> that does not fail returns the caller's process number; session and group
  of the caller then have that number, no other process is in that group, and a second \<open>setsid\<close> fails and
  changes nothing.\<close>

lemma setsid_new_session:
  assumes "wf s" "c \<in> set (live s)" "setsid k c s = (r, s')" "r \<noteq> - EPERM"
  shows "r = getpid k c s \<and> getsid k c 0 s' = r \<and> getpgrp k c s' = r
    \<and> (\<forall>x \<in> leaders s'. task_pgrp s' x = task_pgrp s' c \<longrightarrow> x = leader_of s' c)
    \<and> setsid k c s' = (- EPERM, s')"
proof -
  define gl where "gl = leader_of s c"
  have gl: "leader_of s gl = gl" using leader_in_leaders [OF assms(1,2)] by (simp add: leaders_def gl_def)
  have r: "r = vnr k (task_pid s gl)" "s' = new_session gl s" "group_member s (task_pid s gl) = None"
    using assms(3,4) setsid_eq [OF assms(1,2), of k] by (auto simp: Let_def gl_def split: if_splits)
  have lead: "leader_of s' x = leader_of s x" for x by (simp add: r(2) leader_of_new)
  have own: "task_pgrp s' c = task_pid s gl" "task_session s' c = task_pid s gl"
    by (simp_all add: task_pgrp_def task_session_def lead gl_def [symmetric]) (simp_all add: r(2))
  have alone: "x = gl" if "x \<in> leaders s'" "task_pgrp s' x = task_pgrp s' c" for x
  proof (rule ccontr)
    assume x: "x \<noteq> gl"
    have "x \<in> leaders s" using that(1) by (simp add: leaders_def r(2) leader_of_new)
    then have "pgrp (task s x) \<noteq> task_pid s gl" "leader_of s x = x"
      using group_member_None [OF r(3)] by (simp_all add: leaders_def)
    moreover have "pgrp (task s' x) = pgrp (task s x)" using x by (simp add: r(2))
    ultimately show False using that(2) by (simp add: own task_pgrp_def [of s' x] lead)
  qed
  have wf': "wf s'" "c \<in> set (live s')" using assms(1,2) by (simp_all add: r(2) wf_new leader_of_new)
  have "sig_leader (task s' gl)" by (simp add: r(2))
  then have "setsid k c s' = (- EPERM, s')"
    using setsid_eq [OF wf', of k] by (simp add: Let_def lead gl_def)
  with alone show ?thesis
    by (simp add: getpid_def getsid_def getpgrp_def getpgid_def own lead gl_def [symmetric] r(1))
qed

section \<open>An example\<close>

text \<open>A shell (task 1, pid 10) that leads its session, and its child (task 2, pid 20) with a thread
  (task 3, pid 21).\<close>

definition shell_task :: ptask where
  "shell_task = \<lparr>group_leader = 1, real_parent = 0, pid = 10, pgrp = 10, sess = 10, sig_leader = True, forknoexec = False,
     tty = True\<rparr>"

definition child_task :: ptask where
  "child_task = \<lparr>group_leader = 2, real_parent = 1, pid = 20, pgrp = 10, sess = 10, sig_leader = False, forknoexec = True,
     tty = True\<rparr>"

definition job_state :: pg_state where
  "job_state = \<lparr>task = (\<lambda>x. if x = 1 then shell_task else if x = 2 then child_task else child_task\<lparr>pid := 21\<rparr>),
     live = [1, 2, 3]\<rparr>"

definition plain_pids :: pg_api where
  "plain_pids = \<lparr>vnr = int, find_vpid = (\<lambda>n. if 0 < n then Some (nat n) else None), lsm_setpgid = (\<lambda>_ _. 0),
     lsm_getpgid = (\<lambda>_. 0), lsm_getsid = (\<lambda>_. 0)\<rparr>"

lemmas job_defs = job_state_def shell_task_def child_task_def plain_pids_def

lemma job_wf: "wf job_state" "numbering plain_pids job_state"
  by (simp_all add: wf_def numbering_def job_defs leader_of_def task_pid_def)

lemma job_sessions: "sessions_ok job_state"
  by (simp add: sessions_ok_def leaders_def leader_of_def job_defs)

end
