(* ===== verification/Priority.thy ===== *)
theory Priority
  imports ProcGroups
begin

text \<open>
  Scheduling priorities: \<^verbatim>\<open>set_one_prio_perm\<close>, \<^verbatim>\<open>set_one_prio\<close>, \<^verbatim>\<open>setpriority\<close> and \<^verbatim>\<open>getpriority\<close> of
  \<^verbatim>\<open>HW2_APES/PROBLEM5/system_call/sys.c\<close>.

  The tasks, their groups and their numbers are those of \<open>ProcGroups\<close>. Capabilities, the resource limit
  on nice values, the security module, the user name space and the table of users are parameters. The
  three loops over tasks go through the task list; the calls hold its lock.
\<close>

section \<open>State\<close>

type_synonym kuid = "32 word"

record prio_state =
  procs :: pg_state
  nice :: "nat \<Rightarrow> int"
  real_uid :: "nat \<Rightarrow> kuid"
  eff_uid :: "nat \<Rightarrow> kuid"

record prio_api =
  pids :: pg_api
  make_kuid :: "nat \<Rightarrow> 32 word \<Rightarrow> kuid"
  known_user :: "kuid \<Rightarrow> bool"
  nice_capable :: "nat \<Rightarrow> bool"
  can_nice :: "nat \<Rightarrow> int \<Rightarrow> bool"
  lsm_setnice :: "nat \<Rightarrow> int \<Rightarrow> int"

definition MIN_NICE :: int where "MIN_NICE = - 20"
definition MAX_NICE :: int where "MAX_NICE = 19"
definition PRIO_PROCESS :: int where "PRIO_PROCESS = 0"
definition PRIO_PGRP :: int where "PRIO_PGRP = 1"
definition PRIO_USER :: int where "PRIO_USER = 2"

lemmas prio_consts = MIN_NICE_def MAX_NICE_def PRIO_PROCESS_def PRIO_PGRP_def PRIO_USER_def

definition nice_to_rlimit :: "int \<Rightarrow> int" where
  "nice_to_rlimit n = MAX_NICE - n + 1"

section \<open>The calls\<close>

definition set_one_prio_perm :: "prio_api \<Rightarrow> nat \<Rightarrow> nat \<Rightarrow> prio_state \<Rightarrow> bool" where
  "set_one_prio_perm k current p s =
    (if real_uid s p = eff_uid s current \<or> eff_uid s p = eff_uid s current then True
     else if nice_capable k p then True
     else False)"

text \<open>\<^verbatim>\<open>set_user_nice\<close> belongs to the scheduler. Here it stores whatever it is given: that a nice value stays in
  its range rests on the calls of this file alone.\<close>

definition set_user_nice :: "nat \<Rightarrow> int \<Rightarrow> prio_state \<Rightarrow> prio_state" where
  "set_user_nice p v s = s\<lparr>nice := (nice s)(p := v)\<rparr>"

definition set_one_prio :: "prio_api \<Rightarrow> nat \<Rightarrow> nat \<Rightarrow> int \<Rightarrow> int \<Rightarrow> prio_state \<Rightarrow> int \<times> prio_state" where
  "set_one_prio k current p niceval error s =
    (if \<not> set_one_prio_perm k current p s then (- EPERM, s)
     else if niceval < nice s p \<and> \<not> can_nice k p niceval then (- EACCES, s)
     else
       let no_nice = lsm_setnice k p niceval in
       if no_nice \<noteq> 0 then (no_nice, s)
       else (if error = - ESRCH then 0 else error, set_user_nice p niceval s))"

text \<open>The tasks that \<open>which\<close> and \<open>who\<close> select; both loops are taken to visit them in the order of \<open>live\<close>.\<close>

definition group_tasks :: "nat \<Rightarrow> prio_state \<Rightarrow> nat list" where
  "group_tasks g s = filter (\<lambda>p. task_pgrp (procs s) p = g) (live (procs s))"

definition user_tasks :: "prio_api \<Rightarrow> kuid \<Rightarrow> prio_state \<Rightarrow> nat list" where
  "user_tasks k u s = filter (\<lambda>p. real_uid s p = u \<and> vnr (pids k) (task_pid (procs s) p) \<noteq> 0) (live (procs s))"

definition prio_tasks :: "prio_api \<Rightarrow> nat \<Rightarrow> int \<Rightarrow> int \<Rightarrow> prio_state \<Rightarrow> nat list" where
  "prio_tasks k current which who s =
    (if which = PRIO_PROCESS then
       (case (if who \<noteq> 0 then find_task_by_vpid (pids k) (procs s) who else Some current) of
          None \<Rightarrow> []
        | Some p \<Rightarrow> [p])
     else if which = PRIO_PGRP then
       (case (if who \<noteq> 0 then find_vpid (pids k) who else Some (task_pgrp (procs s) current)) of
          None \<Rightarrow> []
        | Some g \<Rightarrow> group_tasks g s)
     else
       let uid = (if who = 0 then real_uid s current else make_kuid k current (word_of_int who)) in
       if uid \<noteq> real_uid s current \<and> \<not> known_user k uid then [] else user_tasks k uid s)"

definition setpriority :: "prio_api \<Rightarrow> nat \<Rightarrow> int \<Rightarrow> int \<Rightarrow> int \<Rightarrow> prio_state \<Rightarrow> int \<times> prio_state" where
  "setpriority k current which who niceval s =
    (if which > PRIO_USER \<or> which < PRIO_PROCESS then (- EINVAL, s)
     else
       let niceval = (if niceval < MIN_NICE then MIN_NICE else niceval);
           niceval = (if niceval > MAX_NICE then MAX_NICE else niceval)
       in fold (\<lambda>p (error, s). set_one_prio k current p niceval error s)
            (prio_tasks k current which who s) (- ESRCH, s))"

definition getpriority :: "prio_api \<Rightarrow> nat \<Rightarrow> int \<Rightarrow> int \<Rightarrow> prio_state \<Rightarrow> int" where
  "getpriority k current which who s =
    (if which > PRIO_USER \<or> which < PRIO_PROCESS then - EINVAL
     else fold (\<lambda>p retval. let niceval = nice_to_rlimit (nice s p) in if niceval > retval then niceval else retval)
            (prio_tasks k current which who s) (- ESRCH))"

section \<open>What a call does, task by task\<close>

text \<open>Why a task is refused the value, or 0; the nearest nice value there is; and the result of a call:
  no task, or the last refusal.\<close>

definition refusal :: "prio_api \<Rightarrow> nat \<Rightarrow> int \<Rightarrow> prio_state \<Rightarrow> nat \<Rightarrow> int" where
  "refusal k current v s p =
    (if \<not> set_one_prio_perm k current p s then - EPERM
     else if v < nice s p \<and> \<not> can_nice k p v then - EACCES
     else lsm_setnice k p v)"

definition nearest_nice :: "int \<Rightarrow> int" where
  "nearest_nice v = max (- 20) (min 19 v)"

definition last_refusal :: "int list \<Rightarrow> int" where
  "last_refusal es = (if es = [] then - ESRCH else if filter (\<lambda>e. e \<noteq> 0) es = [] then 0 else last (filter (\<lambda>e. e \<noteq> 0) es))"

definition with_nice :: "(nat \<Rightarrow> bool) \<Rightarrow> int \<Rightarrow> prio_state \<Rightarrow> prio_state" where
  "with_nice P v s = s\<lparr>nice := \<lambda>p. if P p then v else nice s p\<rparr>"

lemma set_user_nice_eq: "set_user_nice p v s = with_nice (\<lambda>q. q = p) v s"
proof -
  have "(\<lambda>q. if q = p then v else nice s q) = (nice s)(p := v)" by auto
  then show ?thesis by (simp add: set_user_nice_def with_nice_def)
qed

lemma set_one_prio_eq:
  "set_one_prio k c p v e s =
    (if refusal k c v s p = 0 then (if e = - ESRCH then 0 else e, with_nice (\<lambda>q. q = p) v s)
     else (refusal k c v s p, s))"
  by (simp add: set_one_prio_def refusal_def set_user_nice_eq Let_def errno_defs)

lemma refusal_with_nice: "\<not> P p \<Longrightarrow> refusal k c v (with_nice P v s) p = refusal k c v s p"
  by (simp add: refusal_def set_one_prio_perm_def with_nice_def)

lemma with_nice_twice: "with_nice P v (with_nice Q v s) = with_nice (\<lambda>p. P p \<or> Q p) v s"
  by (simp add: with_nice_def fun_eq_iff)

lemma last_refusal_snoc:
  "last_refusal (es @ [e]) = (if e \<noteq> 0 then e else if last_refusal es = - ESRCH \<and> es = [] then 0 else last_refusal es)"
  by (auto simp: last_refusal_def)

lemma last_refusal_ESRCH: "- ESRCH \<notin> set es \<Longrightarrow> last_refusal es = - ESRCH \<longleftrightarrow> es = []"
  using last_in_set [of "filter (\<lambda>e. e \<noteq> 0) es"] by (auto simp: last_refusal_def errno_defs)

lemma set_loop:
  assumes "distinct ps" "\<forall>p. lsm_setnice k p v \<noteq> - ESRCH"
  shows "fold (\<lambda>p (error, s). set_one_prio k c p v error s) ps (- ESRCH, s)
    = (last_refusal (map (refusal k c v s) ps), with_nice (\<lambda>p. p \<in> set ps \<and> refusal k c v s p = 0) v s)"
  using assms(1)
proof (induction ps rule: rev_induct)
  case Nil
  show ?case by (simp add: last_refusal_def with_nice_def)
next
  case (snoc p ps)
  have no: "- ESRCH \<notin> set (map (refusal k c v s) ps)"
    using assms(2) by (force simp: refusal_def errno_defs)
  have r: "refusal k c v (with_nice (\<lambda>p. p \<in> set ps \<and> refusal k c v s p = 0) v s) p = refusal k c v s p"
    using snoc.prems by (intro refusal_with_nice) simp
  show ?case
  proof (cases "refusal k c v s p = 0")
    case True
    then have "(\<lambda>q. q = p \<or> q \<in> set ps \<and> refusal k c v s q = 0) = (\<lambda>q. q \<in> set (ps @ [p]) \<and> refusal k c v s q = 0)"
      by auto
    with True snoc last_refusal_ESRCH [OF no] show ?thesis
      by (simp add: set_one_prio_eq r with_nice_twice last_refusal_snoc)
  next
    case False
    then have "(\<lambda>q. q \<in> set (ps @ [p]) \<and> refusal k c v s q = 0) = (\<lambda>q. q \<in> set ps \<and> refusal k c v s q = 0)"
      by auto
    with False snoc show ?thesis
      by (simp add: set_one_prio_eq r last_refusal_snoc)
  qed
qed

lemma distinct_prio_tasks: "distinct (live (procs s)) \<Longrightarrow> distinct (prio_tasks k c which who s)"
  by (simp add: prio_tasks_def group_tasks_def user_tasks_def Let_def split: option.split)

lemma with_nice_simps [simp]:
  "procs (with_nice P v s) = procs s" "real_uid (with_nice P v s) = real_uid s" "eff_uid (with_nice P v s) = eff_uid s"
  "nice (with_nice P v s) p = (if P p then v else nice s p)"
  by (simp_all add: with_nice_def)

lemma prio_tasks_with_nice: "prio_tasks k c which who (with_nice P v s) = prio_tasks k c which who s"
proof -
  have "group_tasks g (with_nice P v s) = group_tasks g s" "user_tasks k u (with_nice P v s) = user_tasks k u s" for g u
    by (simp_all add: group_tasks_def user_tasks_def)
  then show ?thesis by (simp add: prio_tasks_def Let_def cong: option.case_cong)
qed

lemma clamped:
  "(let v = (if v < MIN_NICE then MIN_NICE else v); v = (if v > MAX_NICE then MAX_NICE else v) in f v) = f (nearest_nice v)"
  by (auto simp: Let_def prio_consts nearest_nice_def min_def max_def)

lemma nearest_bounds: "- 20 \<le> nearest_nice v" "nearest_nice v \<le> 19"
  by (simp_all add: nearest_nice_def)

lemma setpriority_eq:
  assumes "PRIO_PROCESS \<le> which" "which \<le> PRIO_USER" "distinct (live (procs s))"
    and "\<forall>p v. lsm_setnice k p v \<noteq> - ESRCH"
  shows "setpriority k c which who v s =
    (last_refusal (map (refusal k c (nearest_nice v) s) (prio_tasks k c which who s)),
     with_nice (\<lambda>p. p \<in> set (prio_tasks k c which who s) \<and> refusal k c (nearest_nice v) s p = 0) (nearest_nice v) s)"
proof -
  have "setpriority k c which who v s
      = fold (\<lambda>p (error, s). set_one_prio k c p (nearest_nice v) error s) (prio_tasks k c which who s) (- ESRCH, s)"
    using assms(1,2) unfolding setpriority_def clamped by simp
  also have "\<dots> = (last_refusal (map (refusal k c (nearest_nice v) s) (prio_tasks k c which who s)),
     with_nice (\<lambda>p. p \<in> set (prio_tasks k c which who s) \<and> refusal k c (nearest_nice v) s p = 0) (nearest_nice v) s)"
    using assms(3,4) by (intro set_loop distinct_prio_tasks) simp_all
  finally show ?thesis .
qed


section \<open>Reading the priorities back\<close>

lemma fold_largest:
  fixes f :: "'a \<Rightarrow> int"
  shows "fold (\<lambda>p r. let n = f p in if n > r then n else r) ps r = Max (insert r (f ` set ps))"
proof (induction ps arbitrary: r)
  case (Cons p ps)
  have "(let n = f p in if n > r then n else r) = max r (f p)" by (simp add: max_def Let_def)
  moreover have "Max (insert (max r (f p)) (f ` set ps)) = Max (insert r (f ` set (p # ps)))"
    by (cases "ps = []") (simp_all add: max.assoc max.left_commute max.commute)
  ultimately show ?case by (simp add: Cons.IH [of "max r (f p)"])
qed simp

lemma getpriority_eq:
  assumes "PRIO_PROCESS \<le> which" "which \<le> PRIO_USER"
  shows "getpriority k c which who s = Max (insert (- ESRCH) ((\<lambda>p. 20 - nice s p) ` set (prio_tasks k c which who s)))"
  using assms unfolding getpriority_def fold_largest by (simp add: nice_to_rlimit_def MAX_NICE_def)

lemma getpriority_bounds:
  assumes "\<forall>p. - 20 \<le> nice s p \<and> nice s p \<le> 19"
  shows "getpriority k c which who s \<in> {- EINVAL, - ESRCH} \<union> {1..40}"
proof (cases "PRIO_PROCESS \<le> which \<and> which \<le> PRIO_USER")
  case True
  let ?A = "insert (- ESRCH) ((\<lambda>p. 20 - nice s p) ` set (prio_tasks k c which who s))"
  have "Max ?A \<in> ?A" by (rule Max_in) simp_all
  moreover have "?A \<subseteq> {- EINVAL, - ESRCH} \<union> {1..40}"
  proof
    fix x assume "x \<in> ?A"
    then show "x \<in> {- EINVAL, - ESRCH} \<union> {1..40}"
      using assms by fastforce
  qed
  moreover have "getpriority k c which who s = Max ?A" using True by (simp add: getpriority_eq)
  ultimately show ?thesis by (metis subsetD)
next
  case False
  then have "getpriority k c which who s = - EINVAL" by (auto simp: getpriority_def)
  then show ?thesis by simp
qed

lemma no_refusal: "last_refusal es = 0 \<Longrightarrow> es \<noteq> [] \<and> (\<forall>e \<in> set es. e = 0)"
  using last_in_set [of "filter (\<lambda>e. e \<noteq> 0) es"]
  by (auto simp: last_refusal_def ESRCH_def filter_empty_conv split: if_splits)

text \<open>After a \<open>setpriority\<close> that returned 0, \<open>getpriority\<close> of the same selection answers 20
  minus the nice value nearest to the one given (nice values are -20 to 19, answers 40 to 1).\<close>

lemma setpriority_getpriority:
  assumes "distinct (live (procs s))" "\<forall>p v. lsm_setnice k p v \<noteq> - ESRCH"
    and "setpriority k c which who v s = (0, s')"
  shows "getpriority k c which who s' = 20 - nearest_nice v"
proof -
  have which: "PRIO_PROCESS \<le> which" "which \<le> PRIO_USER"
    using assms(3) by (auto simp: setpriority_def EINVAL_def split: if_splits)
  let ?ps = "prio_tasks k c which who s" and ?v = "nearest_nice v"
  have r: "last_refusal (map (refusal k c ?v s) ?ps) = 0"
    "s' = with_nice (\<lambda>p. p \<in> set ?ps \<and> refusal k c ?v s p = 0) ?v s"
    using setpriority_eq [OF which assms(1,2), of c who v] assms(3) by auto
  have "?ps \<noteq> []" "\<forall>p \<in> set ?ps. nice s' p = ?v" using no_refusal [OF r(1)] r(2) by auto
  then have "(\<lambda>p. 20 - nice s' p) ` set ?ps = {20 - ?v}" by (cases ?ps) auto
  then show ?thesis
    using getpriority_eq [OF which, of k c who s'] nearest_bounds(2) [of v]
    by (simp add: r(2) prio_tasks_with_nice ESRCH_def)
qed

section \<open>A task without privileges\<close>

text \<open>A sequence of calls of one task.\<close>

definition set_priorities :: "prio_api \<Rightarrow> nat \<Rightarrow> (int \<times> int \<times> int) list \<Rightarrow> prio_state \<Rightarrow> prio_state" where
  "set_priorities k current calls = fold (\<lambda>(which, who, v) s. snd (setpriority k current which who v s)) calls"

text \<open>A task without CAP_SYS_NICE and with no room in its nice limit makes no task more favoured by any
  sequence of \<open>setpriority\<close> calls, and changes only tasks one of whose user ids is its effective one.\<close>

lemma nice_only_own_and_up:
  assumes "distinct (live (procs s))" "\<forall>p v. lsm_setnice k p v \<noteq> - ESRCH"
    and "\<forall>p. \<not> nice_capable k p" "\<forall>p v. \<not> can_nice k p v"
  shows "nice s p \<le> nice (set_priorities k c calls s) p
    \<and> (nice (set_priorities k c calls s) p \<noteq> nice s p \<longrightarrow> real_uid s p = eff_uid s c \<or> eff_uid s p = eff_uid s c)"
proof -
  have step: "nice s p \<le> nice (snd (setpriority k c which who v s)) p
      \<and> (nice (snd (setpriority k c which who v s)) p \<noteq> nice s p
          \<longrightarrow> real_uid s p = eff_uid s c \<or> eff_uid s p = eff_uid s c)
      \<and> procs (snd (setpriority k c which who v s)) = procs s
      \<and> real_uid (snd (setpriority k c which who v s)) = real_uid s
      \<and> eff_uid (snd (setpriority k c which who v s)) = eff_uid s"
    if "distinct (live (procs s))" for which who v s
  proof (cases "PRIO_PROCESS \<le> which \<and> which \<le> PRIO_USER")
    case True
    have "nice s p \<le> nearest_nice v \<and> (real_uid s p = eff_uid s c \<or> eff_uid s p = eff_uid s c)"
      if "refusal k c (nearest_nice v) s p = 0"
      using that assms(3,4) by (auto simp: refusal_def set_one_prio_perm_def errno_defs split: if_splits)
    then show ?thesis
      using True that assms(2) by (auto simp: setpriority_eq)
  next
    case False
    then have "snd (setpriority k c which who v s) = s" by (auto simp: setpriority_def)
    then show ?thesis by simp
  qed
  show ?thesis
    using assms(1)
  proof (induction calls arbitrary: s)
    case (Cons call calls)
    obtain which who v where call: "call = (which, who, v)" by (cases call)
    let ?t = "snd (setpriority k c which who v s)"
    note st = step [OF Cons.prems, of which who v]
    have "distinct (live (procs ?t))" using st Cons.prems by simp
    from Cons.IH [OF this] st show ?case by (auto simp: set_priorities_def call)
  qed (simp add: set_priorities_def)
qed

section \<open>An example\<close>

text \<open>The shell and its child of \<open>ProcGroups\<close>, all of user 1000, on a system without privileges.\<close>

definition prio_example :: prio_state where
  "prio_example = \<lparr>procs = job_state, nice = (\<lambda>_. 5), real_uid = (\<lambda>_. 1000), eff_uid = (\<lambda>_. 1000)\<rparr>"

definition plain_prio :: prio_api where
  "plain_prio = \<lparr>pids = plain_pids, make_kuid = (\<lambda>_ u. u), known_user = (\<lambda>_. False), nice_capable = (\<lambda>_. False),
     can_nice = (\<lambda>_ _. False), lsm_setnice = (\<lambda>_ _. 0)\<rparr>"

lemma prio_example_live: "distinct (live (procs prio_example))" "\<forall>p v. lsm_setnice plain_prio p v \<noteq> - ESRCH"
  by (simp_all add: prio_example_def job_state_def plain_prio_def ESRCH_def)


end
