(* ===== verification/Machine.thy ===== *)
theory Machine
  imports Rlimits Priority
begin

text \<open>
  Several tasks and the calls of \<^verbatim>\<open>sys.c\<close> that look at each other's state: the identity calls change the
  credentials that \<open>setpriority\<close> and \<open>prlimit64\<close> check, \<open>setpgid\<close> and \<open>setsid\<close> the processes
  that \<open>setpriority\<close> selects. One state holds all of it; a call of a task is the operation of its component on its part of the
  state, with the services that the caller's credentials give it. The threads of a process share their resource limits, which
  are kept under its leader.

  Capability checks of the caller against a user namespace, the tree of these namespaces with their owners, the security
  module, pid numbers, id maps and the check of a nice value against the limits are parameters.
\<close>

section \<open>State and services\<close>

record ('x, 'l) machine =
  credentials :: "nat \<Rightarrow> 'x Creds.task"
  processes :: pg_state
  niceness :: "nat \<Rightarrow> int"
  rlims :: "nat \<Rightarrow> 'l rlimit list"
  has_sighand :: "nat \<Rightarrow> bool"
  cpu_timers :: "(nat \<times> 'l) list"

record ('x, 'l) system =
  ids :: "'x id_api"
  pid_numbers :: pg_api
  capable_in_ns :: "'x cred \<Rightarrow> nat \<Rightarrow> capability \<Rightarrow> bool"
  init_ns :: nat
  ns_parent :: "nat \<Rightarrow> nat option"
  ns_owner :: "nat \<Rightarrow> kid"
  user_exists :: "kuid \<Rightarrow> bool"
  nice_allowed :: "'x cred \<Rightarrow> 'l rlimit list \<Rightarrow> int \<Rightarrow> bool"
  setnice_hook :: "nat \<Rightarrow> int \<Rightarrow> int"
  setrlimit_hook :: "nat \<Rightarrow> nat \<Rightarrow> 'l rlimit \<Rightarrow> int"
  prlimit_hook :: "'x cred \<Rightarrow> 'x cred \<Rightarrow> bool \<Rightarrow> bool \<Rightarrow> int"
  max_files :: nat
  has_posix_timers :: bool
  compat_no_limit :: "32 word"

definition cred_of :: "('x, 'l) machine \<Rightarrow> nat \<Rightarrow> 'x cred" where
  "cred_of m t = Creds.cred (credentials m t)"

definition process_of :: "('x, 'l) machine \<Rightarrow> nat \<Rightarrow> nat" where
  "process_of m t = leader_of (processes m) t"

definition prio_view :: "('x, 'l) machine \<Rightarrow> prio_state" where
  "prio_view m = \<lparr>procs = processes m, nice = niceness m, real_uid = \<lambda>t. uid (cred_of m t), eff_uid = \<lambda>t. euid (cred_of m t)\<rparr>"

definition prio_services :: "('x, 'l) system \<Rightarrow> nat \<Rightarrow> ('x, 'l) machine \<Rightarrow> prio_api" where
  "prio_services k c m = \<lparr>pids = pid_numbers k,
     make_kuid = \<lambda>t u. Creds.make_kuid (ids k) (user_ns (cred_of m t)) u, known_user = user_exists k,
     nice_capable = \<lambda>t. capable_in_ns k (cred_of m c) (user_ns (cred_of m t)) CAP_SYS_NICE,
     can_nice = \<lambda>t v. nice_allowed k (cred_of m c) (rlims m (process_of m t)) v, lsm_setnice = setnice_hook k\<rparr>"

definition limit_view :: "('x, 'l) machine \<Rightarrow> ('x, 'l) rl_state" where
  "limit_view m = \<lparr>ptask = \<lambda>t. \<lparr>tcred = cred_of m t, sighand = has_sighand m t, signal = process_of m t\<rparr>,
     limits = rlims m, cpu_updates = cpu_timers m\<rparr>"

definition limit_services :: "('x, 'l) system \<Rightarrow> nat \<Rightarrow> ('x, 'l) machine \<Rightarrow> ('x, 'l) rl_api" where
  "limit_services k c m = \<lparr>current = c, find_task = find_task_by_vpid (pid_numbers k) (processes m),
     capable = capable_in_ns k (cred_of m c) (init_ns k), capable_in = capable_in_ns k (cred_of m c),
     lsm_setrlimit = setrlimit_hook k, lsm_prlimit = prlimit_hook k, nr_open = max_files k,
     posix_timers = has_posix_timers k, compat_infinity = compat_no_limit k\<rparr>"

section \<open>Calls of any task\<close>

datatype 'l call = Identity id_call | Group int int | Session | Nice int int int | Limits "'l rl_call"

primrec sys_call :: "('x, 'l::len word) system \<Rightarrow> nat \<Rightarrow> 'l word call \<Rightarrow> ('x, 'l word) machine \<Rightarrow> ('x, 'l word) machine" where
  "sys_call k c (Identity i) m = m\<lparr>credentials := (credentials m)(c := do_call (ids k) i (credentials m c))\<rparr>"
| "sys_call k c (Group n g) m = m\<lparr>processes := pg_step (pid_numbers k) (Setpgid c n g) (processes m)\<rparr>"
| "sys_call k c Session m = m\<lparr>processes := pg_step (pid_numbers k) (Setsid c) (processes m)\<rparr>"
| "sys_call k c (Nice which who v) m =
    m\<lparr>niceness := nice (snd (setpriority (prio_services k c m) c which who v (prio_view m)))\<rparr>"
| "sys_call k c (Limits l) m =
    (let s = rl_step (limit_services k c m) l (limit_view m) in m\<lparr>rlims := limits s, cpu_timers := cpu_updates s\<rparr>)"

definition sys_calls ::
    "('x, 'l::len word) system \<Rightarrow> (nat \<times> 'l word call) list \<Rightarrow> ('x, 'l word) machine \<Rightarrow> ('x, 'l word) machine" where
  "sys_calls k = fold (\<lambda>(c, call). sys_call k c call)"

section \<open>Who can change what\<close>

text \<open>Process leaders never change.\<close>

lemma pg_step_leader: "leader_of (pg_step k call s) x = leader_of s x"
proof (cases call)
  case (Setpgid c n g)
  then show ?thesis by (cases rule: setpgid_result [of k c n g s]) simp_all
next
  case (Setsid c)
  have flag: "leader_of (s\<lparr>task := (task s)(y := (task s y)\<lparr>sig_leader := b\<rparr>)\<rparr>) z = leader_of s z"
    "leader_of (s\<lparr>task := (task s)(y := (task s y)\<lparr>tty := b\<rparr>)\<rparr>) z = leader_of s z" for s y b z
    by (simp_all add: leader_of_def)
  have "leader_of (set_special_pids c g s) z = leader_of s z" for g s z
    by (simp add: set_special_pids_def Let_def)
  with Setsid show ?thesis by (simp add: setsid_def Let_def flag)
qed

text \<open>\<open>setpriority\<close> leaves a task alone for which the caller has no permission.\<close>

lemma set_one_prio_others:
  assumes "set_one_prio k c p v e s = (e', t)"
  shows "real_uid t = real_uid s \<and> eff_uid t = eff_uid s
    \<and> (q \<noteq> p \<or> \<not> set_one_prio_perm k c q s \<longrightarrow> nice t q = nice s q)"
  using assms by (auto simp: set_one_prio_def set_user_nice_def Let_def split: if_splits)

lemma set_prio_loop_others:
  assumes "\<not> set_one_prio_perm k c q s"
  shows "nice (snd (fold (\<lambda>p (error, s). set_one_prio k c p v error s) ps (e, s))) q = nice s q"
  using assms
proof (induction ps arbitrary: e s)
  case (Cons p ps)
  obtain e' t where t: "set_one_prio k c p v e s = (e', t)" by fastforce
  from set_one_prio_others [OF t, of q] Cons.prems
  have "nice t q = nice s q" "\<not> set_one_prio_perm k c q t" by (auto simp: set_one_prio_perm_def)
  with Cons.IH [of t e'] t show ?case by simp
qed simp

lemma setpriority_others:
  "\<not> set_one_prio_perm k c q s \<Longrightarrow> nice (snd (setpriority k c which who v s)) q = nice s q"
  by (simp add: setpriority_def set_prio_loop_others Let_def)

text \<open>A limit call changes the limits of a process only over a task of it that is the caller or that the
  caller may change.\<close>

lemma do_prlimit_others:
  "sg \<noteq> signal (ptask s tsk) \<Longrightarrow> limits (snd (snd (do_prlimit k tsk r new old s))) sg = limits s sg"
  by (simp add: do_prlimit_def Let_def split: option.split)

lemma do_prlimit_others_eq:
  "do_prlimit k tsk r new old s = (x, y, t) \<Longrightarrow> sg \<noteq> signal (ptask s tsk) \<Longrightarrow> limits t sg = limits s sg"
  using do_prlimit_others [of sg s tsk k r new old] by simp

definition may_limit :: "('x, 'l::len word) rl_api \<Rightarrow> ('x, 'l word) rl_state \<Rightarrow> nat \<Rightarrow> bool" where
  "may_limit k s tsk \<longleftrightarrow> tsk = current k
     \<or> uid (tcred (ptask s (current k))) = uid (tcred (ptask s tsk))
     \<or> capable_in k (user_ns (tcred (ptask s tsk))) CAP_SYS_RESOURCE"

lemma permission_may: "check_prlimit_permission k tsk rd wr s = 0 \<Longrightarrow> may_limit k s tsk"
  by (auto simp: check_prlimit_permission_def may_limit_def Let_def EPERM_def split: if_splits)

lemma rl_step_others:
  assumes "\<forall>tsk. signal (ptask s tsk) = sg \<longrightarrow> \<not> may_limit k s tsk"
  shows "limits (rl_step k c s) sg = limits s sg"
proof -
  have own: "sg \<noteq> signal (ptask s (current k))" using assms by (auto simp: may_limit_def)
  have other: "sg \<noteq> signal (ptask s tsk)" if "check_prlimit_permission k tsk rd wr s = 0" for tsk rd wr
    using permission_may [OF that] assms by blast
  show ?thesis
  proof (cases c)
    case (Prlimit64 pid r new old)
    then show ?thesis
      by (auto simp: prlimit64_def Let_def do_prlimit_others dest: other do_prlimit_others_eq split: option.split prod.split)
  qed (use own in \<open>auto simp: getrlimit_def setrlimit_def compat_setrlimit_def compat_getrlimit_def Let_def
      dest: do_prlimit_others_eq split: option.split prod.split uptr.split\<close>)
qed

section \<open>Users are isolated\<close>

definition confined :: "('x, 'l) system \<Rightarrow> kid set \<Rightarrow> 'x Creds.task \<Rightarrow> bool" where
  "confined k U t \<longleftrightarrow> powerless (ids k) CAP_SETUID t \<and> uids t \<subseteq> U
     \<and> CAP_SYS_NICE \<notin> permitted (Creds.cred t) \<and> CAP_SYS_RESOURCE \<notin> permitted (Creds.cred t)"

lemma confined_stays: "confined k U t \<Longrightarrow> confined k U (do_call (ids k) i t)"
  using uids_step [of "ids k" t i] by (auto simp: confined_def uids_kept_def powerless_def)

text \<open>A user namespace and those it lies in.\<close>

inductive lies_in :: "(nat \<Rightarrow> nat option) \<Rightarrow> nat \<Rightarrow> nat \<Rightarrow> bool" for parent where
  itself: "lies_in parent n n"
| above: "parent n = Some p \<Longrightarrow> lies_in parent p a \<Longrightarrow> lies_in parent n a"

text \<open>What \<^verbatim>\<open>user_namespaces(7)\<close> says: a task has a capability in a namespace only when in this namespace, or in one that it lies
  in, it is a member and the capability is in force there, or it is a member of the parent and the
  namespace belongs to its effective user. (Only a permitted capability can be in force.)\<close>

definition userns_rules :: "('x, 'l) system \<Rightarrow> bool" where
  "userns_rules k \<longleftrightarrow> (\<forall>c ns cap. capable_in_ns k c ns cap \<longrightarrow> (\<exists>a. lies_in (ns_parent k) ns a
     \<and> (a = user_ns c \<and> cap \<in> permitted c \<or> ns_parent k a = Some (user_ns c) \<and> ns_owner k a = euid c)))"

text \<open>A process that no task of \<open>A\<close> and no user of \<open>U\<close> has to do with: none of its threads is one of the tasks, has its real or
  effective user id in \<open>U\<close>, or is in a namespace that belongs to a user of \<open>U\<close> or lies in such a one.\<close>

definition untouched_thread :: "('x, 'l) system \<Rightarrow> nat set \<Rightarrow> kid set \<Rightarrow> nat \<Rightarrow> 'x cred \<Rightarrow> bool" where
  "untouched_thread k A U q c \<longleftrightarrow> q \<notin> A \<and> uid c \<notin> U \<and> euid c \<notin> U
     \<and> (\<forall>a. lies_in (ns_parent k) (user_ns c) a \<longrightarrow> ns_owner k a \<notin> U)"

definition out_of_reach :: "('x, 'l) system \<Rightarrow> ('x, 'l) machine \<Rightarrow> nat set \<Rightarrow> kid set \<Rightarrow> nat \<Rightarrow> bool" where
  "out_of_reach k m A U p \<longleftrightarrow>
     (\<forall>q. process_of m q = process_of m p \<longrightarrow> untouched_thread k A U q (cred_of m q))"

definition same_for :: "nat \<Rightarrow> ('x, 'l) machine \<Rightarrow> ('x, 'l) machine \<Rightarrow> bool" where
  "same_for p m m' \<longleftrightarrow> niceness m' p = niceness m p \<and> rlims m' (process_of m p) = rlims m (process_of m p)
     \<and> credentials m' p = credentials m p"

lemma not_capable:
  assumes "userns_rules k" "euid c \<in> U" "cap \<notin> permitted c" "untouched_thread k A U q d"
  shows "\<not> capable_in_ns k c (user_ns d) cap"
  using assms unfolding userns_rules_def untouched_thread_def by metis

lemma sys_call_same:
  assumes "userns_rules k" "c \<in> A" "confined k U (credentials m c)" "out_of_reach k m A U p"
  shows "same_for p m (sys_call k c call m)"
proof -
  have U: "uid (cred_of m c) \<in> U" "euid (cred_of m c) \<in> U" using assms(3) by (auto simp: confined_def uids_def cred_of_def)
  have far: "untouched_thread k A U q (cred_of m q)" if "process_of m q = process_of m p" for q
    using assms(4) that by (simp add: out_of_reach_def)
  then have apart: "q \<notin> A" "uid (cred_of m q) \<notin> U" "euid (cred_of m q) \<notin> U" if "process_of m q = process_of m p" for q
    using that by (auto simp: untouched_thread_def)
  have nocap: "\<not> capable_in_ns k (cred_of m c) (user_ns (cred_of m q)) CAP_SYS_NICE"
    "\<not> capable_in_ns k (cred_of m c) (user_ns (cred_of m q)) CAP_SYS_RESOURCE" if "process_of m q = process_of m p" for q
    using not_capable [OF assms(1) U(2) _ far [OF that]] assms(3) by (auto simp: confined_def cred_of_def)
  show ?thesis
  proof (cases call)
    case (Nice which who v)
    have "\<not> set_one_prio_perm (prio_services k c m) c p (prio_view m)"
      using nocap [of p] U apart [of p] by (auto simp: set_one_prio_perm_def prio_services_def prio_view_def)
    from setpriority_others [OF this] show ?thesis by (simp add: Nice same_for_def) (simp add: prio_view_def)
  next
    case (Limits l)
    have "\<forall>tsk. signal (ptask (limit_view m) tsk) = process_of m p \<longrightarrow> \<not> may_limit (limit_services k c m) (limit_view m) tsk"
      using nocap U apart assms(2) by (auto simp: may_limit_def limit_services_def limit_view_def)
    from rl_step_others [OF this, of l] show ?thesis by (simp add: Limits same_for_def Let_def) (simp add: limit_view_def)
  qed (use apart [of p] assms(2) in \<open>auto simp: same_for_def\<close>)
qed

lemma sys_call_process: "process_of (sys_call k c call m) q = process_of m q"
  by (cases call) (simp_all add: process_of_def pg_step_leader Let_def del: pg_step.simps)

lemma sys_call_creds:
  "credentials (sys_call k c call m) q = credentials m q
   \<or> q = c \<and> (\<exists>i. credentials (sys_call k c call m) q = do_call (ids k) i (credentials m q))"
  by (cases call) (auto simp: Let_def)

lemma sys_call_confined:
  "confined k U (credentials m q) \<Longrightarrow> confined k U (credentials (sys_call k c call m) q)"
  using sys_call_creds [of k c call m q] confined_stays by metis

lemma sys_call_out_of_reach:
  assumes "out_of_reach k m A U p" "c \<in> A"
  shows "out_of_reach k (sys_call k c call m) A U p"
proof -
  have "credentials (sys_call k c call m) q = credentials m q" if "q \<notin> A" for q
    using sys_call_creds [of k c call m q] that assms(2) by blast
  with assms(1) show ?thesis by (auto simp: out_of_reach_def untouched_thread_def sys_call_process cred_of_def)
qed

text \<open>Users are isolated from each other. Let any number of tasks call identity, group, priority and limit calls in any
  order, tasks without capabilities whose user ids lie in \<open>U\<close> to begin with. A process that neither these tasks nor these
  users have to do with (\<open>untouched_thread\<close>) keeps its nice values, its resource limits and its credentials.\<close>

lemma users_isolated:
  assumes "userns_rules k" "\<forall>(c, call) \<in> set calls. confined k U (credentials m c)"
    and "\<forall>q. process_of m q = process_of m p \<longrightarrow> untouched_thread k (fst ` set calls) U q (cred_of m q)"
  shows "niceness (sys_calls k calls m) p = niceness m p
    \<and> rlims (sys_calls k calls m) (process_of m p) = rlims m (process_of m p)
    \<and> credentials (sys_calls k calls m) p = credentials m p"
proof -
  let ?A = "fst ` set calls"
  have "same_for p m (sys_calls k cs m)"
    if "\<forall>c \<in> fst ` set cs. c \<in> ?A" "\<forall>c \<in> ?A. confined k U (credentials m c)" "out_of_reach k m ?A U p" for cs m
    using that
  proof (induction cs arbitrary: m)
    case (Cons cc cs)
    obtain c call where cc: "cc = (c, call)" by fastforce
    let ?m = "sys_call k c call m"
    have c: "c \<in> ?A" using Cons.prems(1) cc by simp
    have same: "same_for p m ?m" using Cons.prems c by (intro sys_call_same [OF assms(1)]) auto
    have "out_of_reach k ?m ?A U p" using Cons.prems(3) c by (rule sys_call_out_of_reach)
    moreover have "\<forall>c \<in> ?A. confined k U (credentials ?m c)" using Cons.prems(2) sys_call_confined by blast
    ultimately have "same_for p ?m (sys_calls k cs ?m)" using Cons.prems(1) by (intro Cons.IH) auto
    with same show ?case by (simp add: same_for_def sys_calls_def cc sys_call_process)
  qed (simp add: sys_calls_def same_for_def)
  moreover have "\<forall>c \<in> ?A. confined k U (credentials m c)" using assms(2) by auto
  moreover have "out_of_reach k m ?A U p" using assms(3) by (simp add: out_of_reach_def)
  ultimately have "same_for p m (sys_calls k calls m)" by blast
  then show ?thesis by (simp add: same_for_def)
qed

section \<open>The system stays consistent\<close>

definition consistent :: "nat list \<Rightarrow> ('x, 'l::len word) machine \<Rightarrow> bool" where
  "consistent ts m \<longleftrightarrow> sessions_ok (processes m) \<and> wf (processes m) \<and> live (processes m) = ts
     \<and> limits_ok (limit_view m) \<and> (\<forall>p. - 20 \<le> niceness m p \<and> niceness m p \<le> 19)"

lemma set_one_prio_range:
  "\<forall>p. - 20 \<le> nice s p \<and> nice s p \<le> 19 \<Longrightarrow> - 20 \<le> v \<Longrightarrow> v \<le> 19 \<Longrightarrow> set_one_prio k c p v e s = (e', t)
    \<Longrightarrow> \<forall>p. - 20 \<le> nice t p \<and> nice t p \<le> 19"
  by (auto simp: set_one_prio_def set_user_nice_def Let_def split: if_splits)

lemma set_prio_loop_range:
  "\<forall>p. - 20 \<le> nice s p \<and> nice s p \<le> 19 \<Longrightarrow> - 20 \<le> v \<Longrightarrow> v \<le> 19 \<Longrightarrow>
    \<forall>p. - 20 \<le> nice (snd (fold (\<lambda>p (error, s). set_one_prio k c p v error s) ps (e, s))) p
      \<and> nice (snd (fold (\<lambda>p (error, s). set_one_prio k c p v error s) ps (e, s))) p \<le> 19"
proof (induction ps arbitrary: e s)
  case (Cons p ps)
  obtain e' t where t: "set_one_prio k c p v e s = (e', t)" by fastforce
  show ?case using Cons.IH [OF set_one_prio_range [OF Cons.prems t] Cons.prems(2,3), of e'] t by simp
qed simp

lemma setpriority_range:
  "\<forall>p. - 20 \<le> nice s p \<and> nice s p \<le> 19 \<Longrightarrow>
    \<forall>p. - 20 \<le> nice (snd (setpriority k c which who v s)) p \<and> nice (snd (setpriority k c which who v s)) p \<le> 19"
  using set_prio_loop_range [OF _ nearest_bounds, of s] unfolding setpriority_def clamped by simp

lemma sys_call_consistent:
  assumes "consistent ts m" "c \<in> set ts"
  shows "consistent ts (sys_call k c call m)"
proof (cases call)
  case (Identity i)
  then show ?thesis using assms by (simp add: consistent_def limits_ok_def limit_view_def)
next
  case (Group n g)
  have "c \<in> set (live (processes m))" using assms by (simp add: consistent_def)
  with sessions_ok_step [of "processes m" "Setpgid c n g" "pid_numbers k"] assms show ?thesis
    by (simp add: Group consistent_def limits_ok_def limit_view_def)
next
  case Session
  have "c \<in> set (live (processes m))" using assms by (simp add: consistent_def)
  with sessions_ok_step [of "processes m" "Setsid c" "pid_numbers k"] assms show ?thesis
    by (simp add: Session consistent_def limits_ok_def limit_view_def)
next
  case (Nice which who v)
  with assms show ?thesis
    using setpriority_range [of "prio_view m" "prio_services k c m" c which who v]
    by (simp add: consistent_def limits_ok_def limit_view_def) (simp add: prio_view_def)
next
  case (Limits l)
  from rl_step_good [of "limit_services k c m" "limit_view m" l] assms
  have "limits_ok (rl_step (limit_services k c m) l (limit_view m))" by (simp add: good_step_def consistent_def)
  with assms show ?thesis by (simp add: Limits consistent_def Let_def limits_ok_def limit_view_def)
qed

interpretation system: call_invariant "\<lambda>(c, call). sys_call k c call" "\<lambda>(c, call). c \<in> set ts" "consistent ts" for k ts
  by unfold_locales (auto simp: sys_call_consistent)

text \<open>C30: Whatever identity, group, priority and limit calls the tasks of a system make in whatever order, process groups stay within
  sessions, nice values stay between -20 and 19, and every soft limit stays at or below its hard limit, with the one
  exception that \<^verbatim>\<open>do_prlimit\<close> itself makes: a CPU time limit of 0 is stored as 1, so the CPU limit can be soft 1 over hard 0
  (\<open>cpu_limit_zero\<close>).\<close>

theorem system_stays_consistent:
  assumes "consistent ts m" "\<forall>(c, call) \<in> set calls. c \<in> set ts"
  shows "consistent ts (sys_calls k calls m)"
  using system.run_keeps [of ts m calls k] assms by (auto simp: sys_calls_def)

section \<open>An example\<close>

text \<open>The shell of \<open>ProcGroups\<close> belongs to root, its child with both threads to a user without capabilities, who
  owns the namespace 1 below the first one.\<close>

definition demo_system :: "(unit, 32 word) system" where
  "demo_system = \<lparr>ids = demo_ids, pid_numbers = plain_pids, 
     capable_in_ns = \<lambda>c ns cap. ns = user_ns c \<and> cap \<in> permitted c
       \<or> ns = 1 \<and> user_ns c = 0 \<and> (cap \<in> permitted c \<or> euid c = 1000),
     init_ns = 0, ns_parent = \<lambda>n. if n = 1 then Some 0 else None, ns_owner = \<lambda>n. if n = 1 then 1000 else 0,
     user_exists = \<lambda>_. True, nice_allowed = \<lambda>c ls v. False, setnice_hook = \<lambda>_ _. 0, setrlimit_hook = \<lambda>_ _ _. 0,
     prlimit_hook = \<lambda>_ _ _ _. 0, max_files = 1000, has_posix_timers = True, compat_no_limit = - 1\<rparr>"

definition demo_machine :: "(unit, 32 word) machine" where
  "demo_machine = \<lparr>credentials = \<lambda>t. if t = 1 then demo_task {} 0 0 else demo_task {} 1000 1000, processes = job_state,
     niceness = \<lambda>_. 0, rlims = \<lambda>_. replicate 16 \<lparr>rlim_cur = 100, rlim_max = 500\<rparr>, has_sighand = \<lambda>_. True, cpu_timers = []\<rparr>"

definition demo_calls :: "(nat \<times> 32 word call) list" where
  "demo_calls = [(2, Identity (Setuid 0)), (2, Nice 0 10 15), (3, Nice 0 20 15),
     (3, Limits (Prlimit64 10 7 (Good \<lparr>rlim_cur = 1, rlim_max = 1\<rparr>) Null)), (2, Session)]"

lemma demo_ns: "ns_parent demo_system n = (if n = 1 then Some 0 else None)" "ns_owner demo_system n = (if n = 1 then 1000 else 0)"
  by (simp_all add: demo_system_def)

lemma lies_in_demo: "lies_in (ns_parent demo_system) n a \<longleftrightarrow> a = n \<or> n = 1 \<and> a = 0"
proof
  show "lies_in (ns_parent demo_system) n a \<Longrightarrow> a = n \<or> n = 1 \<and> a = 0"
    by (induction rule: lies_in.induct) (auto simp: demo_ns split: if_splits)
  show "lies_in (ns_parent demo_system) n a" if "a = n \<or> n = 1 \<and> a = 0"
    using that
  proof
    assume "n = 1 \<and> a = 0"
    with lies_in.above [OF _ lies_in.itself, of "ns_parent demo_system" 1 0] show ?thesis by (simp add: demo_ns)
  qed (simp only: lies_in.itself)
qed

lemma demo_userns: "userns_rules demo_system"
  unfolding userns_rules_def
proof (intro allI impI)
  fix c :: "unit cred" and ns cap
  let ?above = "\<lambda>a. lies_in (ns_parent demo_system) ns a
     \<and> (a = user_ns c \<and> cap \<in> permitted c \<or> ns_parent demo_system a = Some (user_ns c) \<and> ns_owner demo_system a = euid c)"
  assume "capable_in_ns demo_system c ns cap"
  then consider "ns = user_ns c" "cap \<in> permitted c" | "ns = 1" "user_ns c = 0" "cap \<in> permitted c"
    | "ns = 1" "user_ns c = 0" "euid c = 1000"
    by (auto simp: demo_system_def)
  then show "\<exists>a. ?above a"
  proof cases
    case 1
    then have "?above ns" by (simp add: demo_ns lies_in_demo)
    then show ?thesis by blast
  next
    case 2
    then have "?above 0" by (simp add: demo_ns lies_in_demo)
    then show ?thesis by blast
  next
    case 3
    then have "?above 1" by (simp add: demo_ns lies_in_demo)
    then show ?thesis by blast
  qed
qed

lemma demo_reaches:
  "niceness (sys_calls demo_system [(3, Nice 0 20 15)] demo_machine) 2 = 15"
  by code_simp

theorem system_stays_consistent_witness:
  "consistent [1, 2, 3] (sys_calls demo_system demo_calls demo_machine)"
proof -
  have "consistent [1, 2, 3] demo_machine"
    by (simp add: consistent_def demo_machine_def limits_ok_def limit_view_def ordered_limit_def RLIM_NLIMITS_def)
      (simp add: job_state_def sessions_ok_def wf_def leaders_def leader_of_def task_pid_def shell_task_def child_task_def inj_on_def)
  then show ?thesis by (rule system_stays_consistent) (simp add: demo_calls_def)
qed

end
