(* ===== verification/SyscallDecls.thy ===== *)
theory SyscallDecls
  imports Prelude
begin

text \<open>
  The interface of the kernel: the prototypes of the system calls in
  \<^verbatim>\<open>HW2_APES/PROBLEM5/system_call/syscalls.h\<close> and the table of their numbers on ARM in
  \<^verbatim>\<open>HW2_APES/PROBLEM5/system_call/syscall.tbl\<close>, entry by entry.

  A prototype is a name with the types of its parameters; every call returns a \<^verbatim>\<open>long\<close>. Qualifiers and the
  types that pointers point to are left out. What a \<^verbatim>\<open>typedef\<close> stands for is not said in these
  files and stays open here. Preprocessor conditions, those of \<^verbatim>\<open>sys.c\<close> included, are fields of a record.
\<close>

section \<open>Types and prototypes\<close>

datatype cbase = C_pointer | C_short | C_ushort | C_int | C_uint | C_long | C_ulong | C_llong | C_ullong

datatype ctype = Base cbase | Typedef string

type_synonym prototype = "string \<times> ctype list"

record build_config =
  old_sigsuspend :: bool
  old_sigsuspend3 :: bool
  old_sigaction :: bool
  odd_rt_sigaction :: bool
  stat64_wanted :: bool
  bits_per_long :: nat
  have_uid16 :: bool
  old_uname_wanted :: bool
  getpgrp_wanted :: bool
  gethostname_wanted :: bool
  old_getrlimit_wanted :: bool
  clone_backwards :: bool
  clone_backwards3 :: bool

definition prototypes1 :: "build_config \<Rightarrow> prototype list" where
  "prototypes1 c =
   [(''sys32_quotactl'', [Base C_uint, Base C_pointer, Typedef ''qid_t'', Base C_pointer]),
    (''sys_time'', [Base C_pointer]), (''sys_stime'', [Base C_pointer]),
    (''sys_gettimeofday'', [Base C_pointer, Base C_pointer]),
    (''sys_settimeofday'', [Base C_pointer, Base C_pointer]), (''sys_adjtimex'', [Base C_pointer]),
    (''sys_times'', [Base C_pointer]), (''sys_gettid'', []),
    (''sys_nanosleep'', [Base C_pointer, Base C_pointer]), (''sys_alarm'', [Base C_uint]),
    (''sys_getpid'', []), (''sys_getppid'', []), (''sys_getuid'', []), (''sys_geteuid'', []),
    (''sys_getgid'', []), (''sys_getegid'', []),
    (''sys_getresuid'', [Base C_pointer, Base C_pointer, Base C_pointer]),
    (''sys_getresgid'', [Base C_pointer, Base C_pointer, Base C_pointer]),
    (''sys_getpgid'', [Typedef ''pid_t'']), (''sys_getpgrp'', []), (''sys_getsid'', [Typedef ''pid_t'']),
    (''sys_getgroups'', [Base C_int, Base C_pointer]),
    (''sys_setregid'', [Typedef ''gid_t'', Typedef ''gid_t'']), (''sys_setgid'', [Typedef ''gid_t'']),
    (''sys_setreuid'', [Typedef ''uid_t'', Typedef ''uid_t'']), (''sys_setuid'', [Typedef ''uid_t'']),
    (''sys_setresuid'', [Typedef ''uid_t'', Typedef ''uid_t'', Typedef ''uid_t'']),
    (''sys_setresgid'', [Typedef ''gid_t'', Typedef ''gid_t'', Typedef ''gid_t'']),
    (''sys_setfsuid'', [Typedef ''uid_t'']), (''sys_setfsgid'', [Typedef ''gid_t'']),
    (''sys_setpgid'', [Typedef ''pid_t'', Typedef ''pid_t'']), (''sys_setsid'', []),
    (''sys_setgroups'', [Base C_int, Base C_pointer]), (''sys_acct'', [Base C_pointer]),
    (''sys_capget'', [Typedef ''cap_user_header_t'', Typedef ''cap_user_data_t'']),
    (''sys_capset'', [Typedef ''cap_user_header_t'', Typedef ''cap_user_data_t'']),
    (''sys_personality'', [Base C_uint]), (''sys_sigpending'', [Base C_pointer]),
    (''sys_sigprocmask'', [Base C_int, Base C_pointer, Base C_pointer]),
    (''sys_sigaltstack'', [Base C_pointer, Base C_pointer]), (''sys_getitimer'', [Base C_int, Base C_pointer]),
    (''sys_setitimer'', [Base C_int, Base C_pointer, Base C_pointer]),
    (''sys_timer_create'', [Typedef ''clockid_t'', Base C_pointer, Base C_pointer]),
    (''sys_timer_gettime'', [Typedef ''timer_t'', Base C_pointer]),
    (''sys_timer_getoverrun'', [Typedef ''timer_t'']),
    (''sys_timer_settime'', [Typedef ''timer_t'', Base C_int, Base C_pointer, Base C_pointer]),
    (''sys_timer_delete'', [Typedef ''timer_t'']),
    (''sys_clock_settime'', [Typedef ''clockid_t'', Base C_pointer]),
    (''sys_clock_gettime'', [Typedef ''clockid_t'', Base C_pointer]),
    (''sys_clock_adjtime'', [Typedef ''clockid_t'', Base C_pointer]),
    (''sys_clock_getres'', [Typedef ''clockid_t'', Base C_pointer]),
    (''sys_clock_nanosleep'', [Typedef ''clockid_t'', Base C_int, Base C_pointer, Base C_pointer]),
    (''sys_nice'', [Base C_int]),
    (''sys_sched_setscheduler'', [Typedef ''pid_t'', Base C_int, Base C_pointer]),
    (''sys_sched_setparam'', [Typedef ''pid_t'', Base C_pointer]),
    (''sys_sched_setattr'', [Typedef ''pid_t'', Base C_pointer, Base C_uint]),
    (''sys_sched_getscheduler'', [Typedef ''pid_t'']),
    (''sys_sched_getparam'', [Typedef ''pid_t'', Base C_pointer]),
    (''sys_sched_getattr'', [Typedef ''pid_t'', Base C_pointer, Base C_uint, Base C_uint]),
    (''sys_sched_setaffinity'', [Typedef ''pid_t'', Base C_uint, Base C_pointer]),
    (''sys_sched_getaffinity'', [Typedef ''pid_t'', Base C_uint, Base C_pointer]), (''sys_sched_yield'', []),
    (''sys_sched_get_priority_max'', [Base C_int]), (''sys_sched_get_priority_min'', [Base C_int]),
    (''sys_sched_rr_get_interval'', [Typedef ''pid_t'', Base C_pointer]),
    (''sys_setpriority'', [Base C_int, Base C_int, Base C_int]),
    (''sys_getpriority'', [Base C_int, Base C_int]), (''sys_shutdown'', [Base C_int, Base C_int]),
    (''sys_reboot'', [Base C_int, Base C_int, Base C_uint, Base C_pointer]), (''sys_restart_syscall'', []),
    (''sys_kexec_load'', [Base C_ulong, Base C_ulong, Base C_pointer, Base C_ulong]),
    (''sys_kexec_file_load'', [Base C_int, Base C_int, Base C_ulong, Base C_pointer, Base C_ulong]),
    (''sys_exit'', [Base C_int]), (''sys_exit_group'', [Base C_int]),
    (''sys_wait4'', [Typedef ''pid_t'', Base C_pointer, Base C_int, Base C_pointer]),
    (''sys_waitid'', [Base C_int, Typedef ''pid_t'', Base C_pointer, Base C_int, Base C_pointer]),
    (''sys_waitpid'', [Typedef ''pid_t'', Base C_pointer, Base C_int]),
    (''sys_set_tid_address'', [Base C_pointer]),
    (''sys_futex'', [Base C_pointer, Base C_int, Typedef ''u32'', Base C_pointer, Base C_pointer, Typedef ''u32'']),
    (''sys_init_module'', [Base C_pointer, Base C_ulong, Base C_pointer]),
    (''sys_delete_module'', [Base C_pointer, Base C_uint])]
    @ (if old_sigsuspend c then [(''sys_sigsuspend'', [Typedef ''old_sigset_t''])] else [])
    @ (if old_sigsuspend3 c then [(''sys_sigsuspend'', [Base C_int, Base C_int, Typedef ''old_sigset_t''])] else [])"

definition prototypes2 :: "build_config \<Rightarrow> prototype list" where
  "prototypes2 c =
   [(''sys_rt_sigsuspend'', [Base C_pointer, Typedef ''size_t''])]
    @ (if old_sigaction c then [(''sys_sigaction'', [Base C_int, Base C_pointer, Base C_pointer])] else [])
    @ (if \<not> odd_rt_sigaction c then [(''sys_rt_sigaction'', [Base C_int, Base C_pointer, Base C_pointer, Typedef ''size_t''])] else [])
    @ [(''sys_rt_sigprocmask'', [Base C_int, Base C_pointer, Base C_pointer, Typedef ''size_t'']),
    (''sys_rt_sigpending'', [Base C_pointer, Typedef ''size_t'']),
    (''sys_rt_sigtimedwait'', [Base C_pointer, Base C_pointer, Base C_pointer, Typedef ''size_t'']),
    (''sys_rt_tgsigqueueinfo'', [Typedef ''pid_t'', Typedef ''pid_t'', Base C_int, Base C_pointer]),
    (''sys_kill'', [Typedef ''pid_t'', Base C_int]),
    (''sys_tgkill'', [Typedef ''pid_t'', Typedef ''pid_t'', Base C_int]),
    (''sys_tkill'', [Typedef ''pid_t'', Base C_int]),
    (''sys_rt_sigqueueinfo'', [Typedef ''pid_t'', Base C_int, Base C_pointer]), (''sys_sgetmask'', []),
    (''sys_ssetmask'', [Base C_int]), (''sys_signal'', [Base C_int, Typedef ''__sighandler_t'']),
    (''sys_pause'', []), (''sys_sync'', []), (''sys_fsync'', [Base C_uint]),
    (''sys_fdatasync'', [Base C_uint]), (''sys_bdflush'', [Base C_int, Base C_long]),
    (''sys_mount'', [Base C_pointer, Base C_pointer, Base C_pointer, Base C_ulong, Base C_pointer]),
    (''sys_umount'', [Base C_pointer, Base C_int]), (''sys_oldumount'', [Base C_pointer]),
    (''sys_truncate'', [Base C_pointer, Base C_long]), (''sys_ftruncate'', [Base C_uint, Base C_ulong]),
    (''sys_stat'', [Base C_pointer, Base C_pointer]), (''sys_statfs'', [Base C_pointer, Base C_pointer]),
    (''sys_statfs64'', [Base C_pointer, Typedef ''size_t'', Base C_pointer]),
    (''sys_fstatfs'', [Base C_uint, Base C_pointer]),
    (''sys_fstatfs64'', [Base C_uint, Typedef ''size_t'', Base C_pointer]),
    (''sys_lstat'', [Base C_pointer, Base C_pointer]), (''sys_fstat'', [Base C_uint, Base C_pointer]),
    (''sys_newstat'', [Base C_pointer, Base C_pointer]), (''sys_newlstat'', [Base C_pointer, Base C_pointer]),
    (''sys_newfstat'', [Base C_uint, Base C_pointer]), (''sys_ustat'', [Base C_uint, Base C_pointer])]
    @ (if stat64_wanted c then [(''sys_stat64'', [Base C_pointer, Base C_pointer]), (''sys_fstat64'', [Base C_ulong, Base C_pointer]),
      (''sys_lstat64'', [Base C_pointer, Base C_pointer]),
      (''sys_fstatat64'', [Base C_int, Base C_pointer, Base C_pointer, Base C_int])] else [])
    @ (if bits_per_long c = 32 then [(''sys_truncate64'', [Base C_pointer, Typedef ''loff_t'']),
      (''sys_ftruncate64'', [Base C_uint, Typedef ''loff_t''])] else [])
    @ [(''sys_setxattr'', [Base C_pointer, Base C_pointer, Base C_pointer, Typedef ''size_t'', Base C_int]),
    (''sys_lsetxattr'', [Base C_pointer, Base C_pointer, Base C_pointer, Typedef ''size_t'', Base C_int]),
    (''sys_fsetxattr'', [Base C_int, Base C_pointer, Base C_pointer, Typedef ''size_t'', Base C_int]),
    (''sys_getxattr'', [Base C_pointer, Base C_pointer, Base C_pointer, Typedef ''size_t'']),
    (''sys_lgetxattr'', [Base C_pointer, Base C_pointer, Base C_pointer, Typedef ''size_t'']),
    (''sys_fgetxattr'', [Base C_int, Base C_pointer, Base C_pointer, Typedef ''size_t'']),
    (''sys_listxattr'', [Base C_pointer, Base C_pointer, Typedef ''size_t'']),
    (''sys_llistxattr'', [Base C_pointer, Base C_pointer, Typedef ''size_t'']),
    (''sys_flistxattr'', [Base C_int, Base C_pointer, Typedef ''size_t'']),
    (''sys_removexattr'', [Base C_pointer, Base C_pointer]),
    (''sys_lremovexattr'', [Base C_pointer, Base C_pointer]),
    (''sys_fremovexattr'', [Base C_int, Base C_pointer]), (''sys_brk'', [Base C_ulong]),
    (''sys_mprotect'', [Base C_ulong, Typedef ''size_t'', Base C_ulong]),
    (''sys_mremap'', [Base C_ulong, Base C_ulong, Base C_ulong, Base C_ulong, Base C_ulong]),
    (''sys_remap_file_pages'', [Base C_ulong, Base C_ulong, Base C_ulong, Base C_ulong, Base C_ulong]),
    (''sys_msync'', [Base C_ulong, Typedef ''size_t'', Base C_int]),
    (''sys_fadvise64'', [Base C_int, Typedef ''loff_t'', Typedef ''size_t'', Base C_int]),
    (''sys_fadvise64_64'', [Base C_int, Typedef ''loff_t'', Typedef ''loff_t'', Base C_int]),
    (''sys_munmap'', [Base C_ulong, Typedef ''size_t'']), (''sys_mlock'', [Base C_ulong, Typedef ''size_t'']),
    (''sys_munlock'', [Base C_ulong, Typedef ''size_t'']), (''sys_mlockall'', [Base C_int]),
    (''sys_munlockall'', []), (''sys_madvise'', [Base C_ulong, Typedef ''size_t'', Base C_int]),
    (''sys_mincore'', [Base C_ulong, Typedef ''size_t'', Base C_pointer]),
    (''sys_pivot_root'', [Base C_pointer, Base C_pointer]), (''sys_chroot'', [Base C_pointer]),
    (''sys_mknod'', [Base C_pointer, Typedef ''umode_t'', Base C_uint]),
    (''sys_link'', [Base C_pointer, Base C_pointer]), (''sys_symlink'', [Base C_pointer, Base C_pointer]),
    (''sys_unlink'', [Base C_pointer]), (''sys_rename'', [Base C_pointer, Base C_pointer]),
    (''sys_chmod'', [Base C_pointer, Typedef ''umode_t'']),
    (''sys_fchmod'', [Base C_uint, Typedef ''umode_t'']),
    (''sys_fcntl'', [Base C_uint, Base C_uint, Base C_ulong])]
    @ (if bits_per_long c = 32 then [(''sys_fcntl64'', [Base C_uint, Base C_uint, Base C_ulong])] else [])"

definition prototypes3 :: "build_config \<Rightarrow> prototype list" where
  "prototypes3 c =
   [(''sys_pipe'', [Base C_pointer]), (''sys_pipe2'', [Base C_pointer, Base C_int]),
    (''sys_dup'', [Base C_uint]), (''sys_dup2'', [Base C_uint, Base C_uint]),
    (''sys_dup3'', [Base C_uint, Base C_uint, Base C_int]),
    (''sys_ioperm'', [Base C_ulong, Base C_ulong, Base C_int]),
    (''sys_ioctl'', [Base C_uint, Base C_uint, Base C_ulong]), (''sys_flock'', [Base C_uint, Base C_uint]),
    (''sys_io_setup'', [Base C_uint, Base C_pointer]), (''sys_io_destroy'', [Typedef ''aio_context_t'']),
    (''sys_io_getevents'', [Typedef ''aio_context_t'', Base C_long, Base C_long, Base C_pointer, Base C_pointer]),
    (''sys_io_submit'', [Typedef ''aio_context_t'', Base C_long, Base C_pointer]),
    (''sys_io_cancel'', [Typedef ''aio_context_t'', Base C_pointer, Base C_pointer]),
    (''sys_sendfile'', [Base C_int, Base C_int, Base C_pointer, Typedef ''size_t'']),
    (''sys_sendfile64'', [Base C_int, Base C_int, Base C_pointer, Typedef ''size_t'']),
    (''sys_readlink'', [Base C_pointer, Base C_pointer, Base C_int]),
    (''sys_creat'', [Base C_pointer, Typedef ''umode_t'']),
    (''sys_open'', [Base C_pointer, Base C_int, Typedef ''umode_t'']), (''sys_close'', [Base C_uint]),
    (''sys_access'', [Base C_pointer, Base C_int]), (''sys_vhangup'', []),
    (''sys_chown'', [Base C_pointer, Typedef ''uid_t'', Typedef ''gid_t'']),
    (''sys_lchown'', [Base C_pointer, Typedef ''uid_t'', Typedef ''gid_t'']),
    (''sys_fchown'', [Base C_uint, Typedef ''uid_t'', Typedef ''gid_t''])]
    @ (if have_uid16 c then [(''sys_chown16'', [Base C_pointer, Typedef ''old_uid_t'', Typedef ''old_gid_t'']),
      (''sys_lchown16'', [Base C_pointer, Typedef ''old_uid_t'', Typedef ''old_gid_t'']),
      (''sys_fchown16'', [Base C_uint, Typedef ''old_uid_t'', Typedef ''old_gid_t'']),
      (''sys_setregid16'', [Typedef ''old_gid_t'', Typedef ''old_gid_t'']),
      (''sys_setgid16'', [Typedef ''old_gid_t'']),
      (''sys_setreuid16'', [Typedef ''old_uid_t'', Typedef ''old_uid_t'']),
      (''sys_setuid16'', [Typedef ''old_uid_t'']),
      (''sys_setresuid16'', [Typedef ''old_uid_t'', Typedef ''old_uid_t'', Typedef ''old_uid_t'']),
      (''sys_getresuid16'', [Base C_pointer, Base C_pointer, Base C_pointer]),
      (''sys_setresgid16'', [Typedef ''old_gid_t'', Typedef ''old_gid_t'', Typedef ''old_gid_t'']),
      (''sys_getresgid16'', [Base C_pointer, Base C_pointer, Base C_pointer]),
      (''sys_setfsuid16'', [Typedef ''old_uid_t'']), (''sys_setfsgid16'', [Typedef ''old_gid_t'']),
      (''sys_getgroups16'', [Base C_int, Base C_pointer]), (''sys_setgroups16'', [Base C_int, Base C_pointer]),
      (''sys_getuid16'', []), (''sys_geteuid16'', []), (''sys_getgid16'', []), (''sys_getegid16'', [])] else [])"

definition prototypes4 :: "build_config \<Rightarrow> prototype list" where
  "prototypes4 c =
   [(''sys_utime'', [Base C_pointer, Base C_pointer]), (''sys_utimes'', [Base C_pointer, Base C_pointer]),
    (''sys_lseek'', [Base C_uint, Typedef ''off_t'', Base C_uint]),
    (''sys_llseek'', [Base C_uint, Base C_ulong, Base C_ulong, Base C_pointer, Base C_uint]),
    (''sys_read'', [Base C_uint, Base C_pointer, Typedef ''size_t'']),
    (''sys_readahead'', [Base C_int, Typedef ''loff_t'', Typedef ''size_t'']),
    (''sys_readv'', [Base C_ulong, Base C_pointer, Base C_ulong]),
    (''sys_write'', [Base C_uint, Base C_pointer, Typedef ''size_t'']),
    (''sys_writev'', [Base C_ulong, Base C_pointer, Base C_ulong]),
    (''sys_pread64'', [Base C_uint, Base C_pointer, Typedef ''size_t'', Typedef ''loff_t'']),
    (''sys_pwrite64'', [Base C_uint, Base C_pointer, Typedef ''size_t'', Typedef ''loff_t'']),
    (''sys_preadv'', [Base C_ulong, Base C_pointer, Base C_ulong, Base C_ulong, Base C_ulong]),
    (''sys_preadv2'', [Base C_ulong, Base C_pointer, Base C_ulong, Base C_ulong, Base C_ulong, Typedef ''rwf_t'']),
    (''sys_pwritev'', [Base C_ulong, Base C_pointer, Base C_ulong, Base C_ulong, Base C_ulong]),
    (''sys_pwritev2'', [Base C_ulong, Base C_pointer, Base C_ulong, Base C_ulong, Base C_ulong, Typedef ''rwf_t'']),
    (''sys_getcwd'', [Base C_pointer, Base C_ulong]), (''sys_mkdir'', [Base C_pointer, Typedef ''umode_t'']),
    (''sys_chdir'', [Base C_pointer]), (''sys_fchdir'', [Base C_uint]), (''sys_rmdir'', [Base C_pointer]),
    (''sys_lookup_dcookie'', [Typedef ''u64'', Base C_pointer, Typedef ''size_t'']),
    (''sys_quotactl'', [Base C_uint, Base C_pointer, Typedef ''qid_t'', Base C_pointer]),
    (''sys_getdents'', [Base C_uint, Base C_pointer, Base C_uint]),
    (''sys_getdents64'', [Base C_uint, Base C_pointer, Base C_uint]),
    (''sys_setsockopt'', [Base C_int, Base C_int, Base C_int, Base C_pointer, Base C_int]),
    (''sys_getsockopt'', [Base C_int, Base C_int, Base C_int, Base C_pointer, Base C_pointer]),
    (''sys_bind'', [Base C_int, Base C_pointer, Base C_int]),
    (''sys_connect'', [Base C_int, Base C_pointer, Base C_int]),
    (''sys_accept'', [Base C_int, Base C_pointer, Base C_pointer]),
    (''sys_accept4'', [Base C_int, Base C_pointer, Base C_pointer, Base C_int]),
    (''sys_getsockname'', [Base C_int, Base C_pointer, Base C_pointer]),
    (''sys_getpeername'', [Base C_int, Base C_pointer, Base C_pointer]),
    (''sys_send'', [Base C_int, Base C_pointer, Typedef ''size_t'', Base C_uint]),
    (''sys_sendto'', [Base C_int, Base C_pointer, Typedef ''size_t'', Base C_uint, Base C_pointer, Base C_int]),
    (''sys_sendmsg'', [Base C_int, Base C_pointer, Base C_uint]),
    (''sys_sendmmsg'', [Base C_int, Base C_pointer, Base C_uint, Base C_uint]),
    (''sys_recv'', [Base C_int, Base C_pointer, Typedef ''size_t'', Base C_uint]),
    (''sys_recvfrom'', [Base C_int, Base C_pointer, Typedef ''size_t'', Base C_uint, Base C_pointer, Base C_pointer]),
    (''sys_recvmsg'', [Base C_int, Base C_pointer, Base C_uint]),
    (''sys_recvmmsg'', [Base C_int, Base C_pointer, Base C_uint, Base C_uint, Base C_pointer]),
    (''sys_socket'', [Base C_int, Base C_int, Base C_int]),
    (''sys_socketpair'', [Base C_int, Base C_int, Base C_int, Base C_pointer]),
    (''sys_socketcall'', [Base C_int, Base C_pointer]), (''sys_listen'', [Base C_int, Base C_int]),
    (''sys_poll'', [Base C_pointer, Base C_uint, Base C_int]),
    (''sys_select'', [Base C_int, Base C_pointer, Base C_pointer, Base C_pointer, Base C_pointer]),
    (''sys_old_select'', [Base C_pointer]), (''sys_epoll_create'', [Base C_int]),
    (''sys_epoll_create1'', [Base C_int]),
    (''sys_epoll_ctl'', [Base C_int, Base C_int, Base C_int, Base C_pointer]),
    (''sys_epoll_wait'', [Base C_int, Base C_pointer, Base C_int, Base C_int]),
    (''sys_epoll_pwait'', [Base C_int, Base C_pointer, Base C_int, Base C_int, Base C_pointer, Typedef ''size_t'']),
    (''sys_gethostname'', [Base C_pointer, Base C_int]), (''sys_sethostname'', [Base C_pointer, Base C_int]),
    (''sys_setdomainname'', [Base C_pointer, Base C_int]), (''sys_newuname'', [Base C_pointer]),
    (''sys_uname'', [Base C_pointer]), (''sys_olduname'', [Base C_pointer]),
    (''sys_getrlimit'', [Base C_uint, Base C_pointer])]
    @ (if old_getrlimit_wanted c then [(''sys_old_getrlimit'', [Base C_uint, Base C_pointer])] else [])"

definition prototypes5 :: "prototype list" where
  "prototypes5 =
   [(''sys_setrlimit'', [Base C_uint, Base C_pointer]),
    (''sys_prlimit64'', [Typedef ''pid_t'', Base C_uint, Base C_pointer, Base C_pointer]),
    (''sys_getrusage'', [Base C_int, Base C_pointer]), (''sys_umask'', [Base C_int]),
    (''sys_msgget'', [Typedef ''key_t'', Base C_int]),
    (''sys_msgsnd'', [Base C_int, Base C_pointer, Typedef ''size_t'', Base C_int]),
    (''sys_msgrcv'', [Base C_int, Base C_pointer, Typedef ''size_t'', Base C_long, Base C_int]),
    (''sys_msgctl'', [Base C_int, Base C_int, Base C_pointer]),
    (''sys_semget'', [Typedef ''key_t'', Base C_int, Base C_int]),
    (''sys_semop'', [Base C_int, Base C_pointer, Base C_uint]),
    (''sys_semctl'', [Base C_int, Base C_int, Base C_int, Base C_ulong]),
    (''sys_semtimedop'', [Base C_int, Base C_pointer, Base C_uint, Base C_pointer]),
    (''sys_shmat'', [Base C_int, Base C_pointer, Base C_int]),
    (''sys_shmget'', [Typedef ''key_t'', Typedef ''size_t'', Base C_int]), (''sys_shmdt'', [Base C_pointer]),
    (''sys_shmctl'', [Base C_int, Base C_int, Base C_pointer]),
    (''sys_ipc'', [Base C_uint, Base C_int, Base C_ulong, Base C_ulong, Base C_pointer, Base C_long]),
    (''sys_mq_open'', [Base C_pointer, Base C_int, Typedef ''umode_t'', Base C_pointer]),
    (''sys_mq_unlink'', [Base C_pointer]),
    (''sys_mq_timedsend'', [Typedef ''mqd_t'', Base C_pointer, Typedef ''size_t'', Base C_uint, Base C_pointer]),
    (''sys_mq_timedreceive'', [Typedef ''mqd_t'', Base C_pointer, Typedef ''size_t'', Base C_pointer, Base C_pointer]),
    (''sys_mq_notify'', [Typedef ''mqd_t'', Base C_pointer]),
    (''sys_mq_getsetattr'', [Typedef ''mqd_t'', Base C_pointer, Base C_pointer]),
    (''sys_pciconfig_iobase'', [Base C_long, Base C_ulong, Base C_ulong]),
    (''sys_pciconfig_read'', [Base C_ulong, Base C_ulong, Base C_ulong, Base C_ulong, Base C_pointer]),
    (''sys_pciconfig_write'', [Base C_ulong, Base C_ulong, Base C_ulong, Base C_ulong, Base C_pointer]),
    (''sys_prctl'', [Base C_int, Base C_ulong, Base C_ulong, Base C_ulong, Base C_ulong]),
    (''sys_swapon'', [Base C_pointer, Base C_int]), (''sys_swapoff'', [Base C_pointer]),
    (''sys_sysctl'', [Base C_pointer]), (''sys_sysinfo'', [Base C_pointer]),
    (''sys_sysfs'', [Base C_int, Base C_ulong, Base C_ulong]),
    (''sys_syslog'', [Base C_int, Base C_pointer, Base C_int]), (''sys_uselib'', [Base C_pointer]),
    (''sys_ni_syscall'', []), (''sys_ptrace'', [Base C_long, Base C_long, Base C_ulong, Base C_ulong]),
    (''sys_add_key'', [Base C_pointer, Base C_pointer, Base C_pointer, Typedef ''size_t'', Typedef ''key_serial_t'']),
    (''sys_request_key'', [Base C_pointer, Base C_pointer, Base C_pointer, Typedef ''key_serial_t'']),
    (''sys_keyctl'', [Base C_int, Base C_ulong, Base C_ulong, Base C_ulong, Base C_ulong]),
    (''sys_ioprio_set'', [Base C_int, Base C_int, Base C_int]), (''sys_ioprio_get'', [Base C_int, Base C_int]),
    (''sys_set_mempolicy'', [Base C_int, Base C_pointer, Base C_ulong]),
    (''sys_migrate_pages'', [Typedef ''pid_t'', Base C_ulong, Base C_pointer, Base C_pointer]),
    (''sys_move_pages'', [Typedef ''pid_t'', Base C_ulong, Base C_pointer, Base C_pointer, Base C_pointer, Base C_int]),
    (''sys_mbind'', [Base C_ulong, Base C_ulong, Base C_ulong, Base C_pointer, Base C_ulong, Base C_uint]),
    (''sys_get_mempolicy'', [Base C_pointer, Base C_pointer, Base C_ulong, Base C_ulong, Base C_ulong]),
    (''sys_inotify_init'', []), (''sys_inotify_init1'', [Base C_int]),
    (''sys_inotify_add_watch'', [Base C_int, Base C_pointer, Typedef ''u32'']),
    (''sys_inotify_rm_watch'', [Base C_int, Typedef ''__s32'']),
    (''sys_spu_run'', [Base C_int, Base C_pointer, Base C_pointer]),
    (''sys_spu_create'', [Base C_pointer, Base C_uint, Typedef ''umode_t'', Base C_int]),
    (''sys_mknodat'', [Base C_int, Base C_pointer, Typedef ''umode_t'', Base C_uint]),
    (''sys_mkdirat'', [Base C_int, Base C_pointer, Typedef ''umode_t'']),
    (''sys_unlinkat'', [Base C_int, Base C_pointer, Base C_int]),
    (''sys_symlinkat'', [Base C_pointer, Base C_int, Base C_pointer]),
    (''sys_linkat'', [Base C_int, Base C_pointer, Base C_int, Base C_pointer, Base C_int]),
    (''sys_renameat'', [Base C_int, Base C_pointer, Base C_int, Base C_pointer]),
    (''sys_renameat2'', [Base C_int, Base C_pointer, Base C_int, Base C_pointer, Base C_uint]),
    (''sys_futimesat'', [Base C_int, Base C_pointer, Base C_pointer]),
    (''sys_faccessat'', [Base C_int, Base C_pointer, Base C_int]),
    (''sys_fchmodat'', [Base C_int, Base C_pointer, Typedef ''umode_t'']),
    (''sys_fchownat'', [Base C_int, Base C_pointer, Typedef ''uid_t'', Typedef ''gid_t'', Base C_int]),
    (''sys_openat'', [Base C_int, Base C_pointer, Base C_int, Typedef ''umode_t'']),
    (''sys_newfstatat'', [Base C_int, Base C_pointer, Base C_pointer, Base C_int]),
    (''sys_readlinkat'', [Base C_int, Base C_pointer, Base C_pointer, Base C_int]),
    (''sys_utimensat'', [Base C_int, Base C_pointer, Base C_pointer, Base C_int]),
    (''sys_unshare'', [Base C_ulong])]"

definition prototypes6 :: "build_config \<Rightarrow> prototype list" where
  "prototypes6 c =
   [(''sys_splice'', [Base C_int, Base C_pointer, Base C_int, Base C_pointer, Typedef ''size_t'', Base C_uint]),
    (''sys_vmsplice'', [Base C_int, Base C_pointer, Base C_ulong, Base C_uint]),
    (''sys_tee'', [Base C_int, Base C_int, Typedef ''size_t'', Base C_uint]),
    (''sys_sync_file_range'', [Base C_int, Typedef ''loff_t'', Typedef ''loff_t'', Base C_uint]),
    (''sys_sync_file_range2'', [Base C_int, Base C_uint, Typedef ''loff_t'', Typedef ''loff_t'']),
    (''sys_get_robust_list'', [Base C_int, Base C_pointer, Base C_pointer]),
    (''sys_set_robust_list'', [Base C_pointer, Typedef ''size_t'']),
    (''sys_getcpu'', [Base C_pointer, Base C_pointer, Base C_pointer]),
    (''sys_signalfd'', [Base C_int, Base C_pointer, Typedef ''size_t'']),
    (''sys_signalfd4'', [Base C_int, Base C_pointer, Typedef ''size_t'', Base C_int]),
    (''sys_timerfd_create'', [Base C_int, Base C_int]),
    (''sys_timerfd_settime'', [Base C_int, Base C_int, Base C_pointer, Base C_pointer]),
    (''sys_timerfd_gettime'', [Base C_int, Base C_pointer]), (''sys_eventfd'', [Base C_uint]),
    (''sys_eventfd2'', [Base C_uint, Base C_int]), (''sys_memfd_create'', [Base C_pointer, Base C_uint]),
    (''sys_userfaultfd'', [Base C_int]),
    (''sys_fallocate'', [Base C_int, Base C_int, Typedef ''loff_t'', Typedef ''loff_t'']),
    (''sys_old_readdir'', [Base C_uint, Base C_pointer, Base C_uint]),
    (''sys_pselect6'', [Base C_int, Base C_pointer, Base C_pointer, Base C_pointer, Base C_pointer, Base C_pointer]),
    (''sys_ppoll'', [Base C_pointer, Base C_uint, Base C_pointer, Base C_pointer, Typedef ''size_t'']),
    (''sys_fanotify_init'', [Base C_uint, Base C_uint]),
    (''sys_fanotify_mark'', [Base C_int, Base C_uint, Typedef ''u64'', Base C_int, Base C_pointer]),
    (''sys_syncfs'', [Base C_int]), (''sys_fork'', []), (''sys_vfork'', [])]
    @ (if clone_backwards c then [(''sys_clone'', [Base C_ulong, Base C_ulong, Base C_pointer, Base C_ulong, Base C_pointer])]
    else if clone_backwards3 c then [(''sys_clone'', [Base C_ulong, Base C_ulong, Base C_int, Base C_pointer, Base C_pointer, Base C_ulong])]
    else [(''sys_clone'', [Base C_ulong, Base C_ulong, Base C_pointer, Base C_pointer, Base C_ulong])])
    @ [(''sys_execve'', [Base C_pointer, Base C_pointer, Base C_pointer]),
    (''sys_perf_event_open'', [Base C_pointer, Typedef ''pid_t'', Base C_int, Base C_int, Base C_ulong]),
    (''sys_mmap_pgoff'', [Base C_ulong, Base C_ulong, Base C_ulong, Base C_ulong, Base C_ulong, Base C_ulong]),
    (''sys_old_mmap'', [Base C_pointer]),
    (''sys_name_to_handle_at'', [Base C_int, Base C_pointer, Base C_pointer, Base C_pointer, Base C_int]),
    (''sys_open_by_handle_at'', [Base C_int, Base C_pointer, Base C_int]),
    (''sys_setns'', [Base C_int, Base C_int]),
    (''sys_process_vm_readv'', [Typedef ''pid_t'', Base C_pointer, Base C_ulong, Base C_pointer, Base C_ulong, Base C_ulong]),
    (''sys_process_vm_writev'', [Typedef ''pid_t'', Base C_pointer, Base C_ulong, Base C_pointer, Base C_ulong, Base C_ulong]),
    (''sys_kcmp'', [Typedef ''pid_t'', Typedef ''pid_t'', Base C_int, Base C_ulong, Base C_ulong]),
    (''sys_finit_module'', [Base C_int, Base C_pointer, Base C_int]),
    (''sys_seccomp'', [Base C_uint, Base C_uint, Base C_pointer]),
    (''sys_getrandom'', [Base C_pointer, Typedef ''size_t'', Base C_uint]),
    (''sys_bpf'', [Base C_int, Base C_pointer, Base C_uint]),
    (''sys_execveat'', [Base C_int, Base C_pointer, Base C_pointer, Base C_pointer, Base C_int]),
    (''sys_membarrier'', [Base C_int, Base C_int]),
    (''sys_copy_file_range'', [Base C_int, Base C_pointer, Base C_int, Base C_pointer, Typedef ''size_t'', Base C_uint]),
    (''sys_mlock2'', [Base C_ulong, Typedef ''size_t'', Base C_int]),
    (''sys_pkey_mprotect'', [Base C_ulong, Typedef ''size_t'', Base C_ulong, Base C_int]),
    (''sys_pkey_alloc'', [Base C_ulong, Base C_ulong]), (''sys_pkey_free'', [Base C_int]),
    (''sys_statx'', [Base C_int, Base C_pointer, Base C_uint, Base C_uint, Base C_pointer]),
    (''sys_viks_hello'', []), (''sys_my_sort'', [Base C_pointer, Typedef ''size_t'', Base C_pointer])]"

definition declarations :: "build_config \<Rightarrow> prototype list" where
  "declarations c = prototypes1 c @ prototypes2 c @ prototypes3 c @ prototypes4 c @ prototypes5 @ prototypes6 c"

section \<open>The table\<close>

text \<open>A number, for which binary interface it is meant, the name, the function, and the function for the
  old interface where that is a different one.\<close>

datatype abi = Common | Oabi | Eabi

type_synonym table_entry = "nat \<times> abi \<times> string \<times> string option \<times> string option"

definition table1 :: "table_entry list" where
  "table1 =
   [(0, Common, ''restart_syscall'', Some ''sys_restart_syscall'', None),
    (1, Common, ''exit'', Some ''sys_exit'', None), (2, Common, ''fork'', Some ''sys_fork'', None),
    (3, Common, ''read'', Some ''sys_read'', None), (4, Common, ''write'', Some ''sys_write'', None),
    (5, Common, ''open'', Some ''sys_open'', None), (6, Common, ''close'', Some ''sys_close'', None),
    (8, Common, ''creat'', Some ''sys_creat'', None), (9, Common, ''link'', Some ''sys_link'', None),
    (10, Common, ''unlink'', Some ''sys_unlink'', None), (11, Common, ''execve'', Some ''sys_execve'', None),
    (12, Common, ''chdir'', Some ''sys_chdir'', None), (13, Oabi, ''time'', Some ''sys_time'', None),
    (14, Common, ''mknod'', Some ''sys_mknod'', None), (15, Common, ''chmod'', Some ''sys_chmod'', None),
    (16, Common, ''lchown'', Some ''sys_lchown16'', None), (19, Common, ''lseek'', Some ''sys_lseek'', None),
    (20, Common, ''getpid'', Some ''sys_getpid'', None), (21, Common, ''mount'', Some ''sys_mount'', None),
    (22, Oabi, ''umount'', Some ''sys_oldumount'', None),
    (23, Common, ''setuid'', Some ''sys_setuid16'', None),
    (24, Common, ''getuid'', Some ''sys_getuid16'', None), (25, Oabi, ''stime'', Some ''sys_stime'', None),
    (26, Common, ''ptrace'', Some ''sys_ptrace'', None), (27, Oabi, ''alarm'', Some ''sys_alarm'', None),
    (29, Common, ''pause'', Some ''sys_pause'', None), (30, Oabi, ''utime'', Some ''sys_utime'', None),
    (33, Common, ''access'', Some ''sys_access'', None), (34, Common, ''nice'', Some ''sys_nice'', None),
    (36, Common, ''sync'', Some ''sys_sync'', None), (37, Common, ''kill'', Some ''sys_kill'', None),
    (38, Common, ''rename'', Some ''sys_rename'', None), (39, Common, ''mkdir'', Some ''sys_mkdir'', None),
    (40, Common, ''rmdir'', Some ''sys_rmdir'', None), (41, Common, ''dup'', Some ''sys_dup'', None),
    (42, Common, ''pipe'', Some ''sys_pipe'', None), (43, Common, ''times'', Some ''sys_times'', None),
    (45, Common, ''brk'', Some ''sys_brk'', None), (46, Common, ''setgid'', Some ''sys_setgid16'', None),
    (47, Common, ''getgid'', Some ''sys_getgid16'', None),
    (49, Common, ''geteuid'', Some ''sys_geteuid16'', None),
    (50, Common, ''getegid'', Some ''sys_getegid16'', None), (51, Common, ''acct'', Some ''sys_acct'', None),
    (52, Common, ''umount2'', Some ''sys_umount'', None), (54, Common, ''ioctl'', Some ''sys_ioctl'', None),
    (55, Common, ''fcntl'', Some ''sys_fcntl'', None), (57, Common, ''setpgid'', Some ''sys_setpgid'', None),
    (60, Common, ''umask'', Some ''sys_umask'', None), (61, Common, ''chroot'', Some ''sys_chroot'', None),
    (62, Common, ''ustat'', Some ''sys_ustat'', None), (63, Common, ''dup2'', Some ''sys_dup2'', None),
    (64, Common, ''getppid'', Some ''sys_getppid'', None),
    (65, Common, ''getpgrp'', Some ''sys_getpgrp'', None), (66, Common, ''setsid'', Some ''sys_setsid'', None),
    (67, Common, ''sigaction'', Some ''sys_sigaction'', None),
    (70, Common, ''setreuid'', Some ''sys_setreuid16'', None),
    (71, Common, ''setregid'', Some ''sys_setregid16'', None),
    (72, Common, ''sigsuspend'', Some ''sys_sigsuspend'', None),
    (73, Common, ''sigpending'', Some ''sys_sigpending'', None),
    (74, Common, ''sethostname'', Some ''sys_sethostname'', None),
    (75, Common, ''setrlimit'', Some ''sys_setrlimit'', None),
    (76, Oabi, ''getrlimit'', Some ''sys_old_getrlimit'', None),
    (77, Common, ''getrusage'', Some ''sys_getrusage'', None),
    (78, Common, ''gettimeofday'', Some ''sys_gettimeofday'', None),
    (79, Common, ''settimeofday'', Some ''sys_settimeofday'', None),
    (80, Common, ''getgroups'', Some ''sys_getgroups16'', None),
    (81, Common, ''setgroups'', Some ''sys_setgroups16'', None),
    (82, Oabi, ''select'', Some ''sys_old_select'', None),
    (83, Common, ''symlink'', Some ''sys_symlink'', None),
    (85, Common, ''readlink'', Some ''sys_readlink'', None),
    (86, Common, ''uselib'', Some ''sys_uselib'', None), (87, Common, ''swapon'', Some ''sys_swapon'', None),
    (88, Common, ''reboot'', Some ''sys_reboot'', None),
    (89, Oabi, ''readdir'', Some ''sys_old_readdir'', None), (90, Oabi, ''mmap'', Some ''sys_old_mmap'', None),
    (91, Common, ''munmap'', Some ''sys_munmap'', None),
    (92, Common, ''truncate'', Some ''sys_truncate'', None),
    (93, Common, ''ftruncate'', Some ''sys_ftruncate'', None),
    (94, Common, ''fchmod'', Some ''sys_fchmod'', None), (95, Common, ''fchown'', Some ''sys_fchown16'', None),
    (96, Common, ''getpriority'', Some ''sys_getpriority'', None),
    (97, Common, ''setpriority'', Some ''sys_setpriority'', None),
    (99, Common, ''statfs'', Some ''sys_statfs'', None),
    (100, Common, ''fstatfs'', Some ''sys_fstatfs'', None),
    (102, Oabi, ''socketcall'', Some ''sys_socketcall'', Some ''sys_oabi_socketcall''),
    (103, Common, ''syslog'', Some ''sys_syslog'', None),
    (104, Common, ''setitimer'', Some ''sys_setitimer'', None),
    (105, Common, ''getitimer'', Some ''sys_getitimer'', None),
    (106, Common, ''stat'', Some ''sys_newstat'', None), (107, Common, ''lstat'', Some ''sys_newlstat'', None),
    (108, Common, ''fstat'', Some ''sys_newfstat'', None),
    (111, Common, ''vhangup'', Some ''sys_vhangup'', None),
    (113, Oabi, ''syscall'', Some ''sys_syscall'', None), (114, Common, ''wait4'', Some ''sys_wait4'', None),
    (115, Common, ''swapoff'', Some ''sys_swapoff'', None),
    (116, Common, ''sysinfo'', Some ''sys_sysinfo'', None),
    (117, Oabi, ''ipc'', Some ''sys_ipc'', Some ''sys_oabi_ipc''),
    (118, Common, ''fsync'', Some ''sys_fsync'', None),
    (119, Common, ''sigreturn'', Some ''sys_sigreturn_wrapper'', None),
    (120, Common, ''clone'', Some ''sys_clone'', None),
    (121, Common, ''setdomainname'', Some ''sys_setdomainname'', None),
    (122, Common, ''uname'', Some ''sys_newuname'', None),
    (124, Common, ''adjtimex'', Some ''sys_adjtimex'', None),
    (125, Common, ''mprotect'', Some ''sys_mprotect'', None),
    (126, Common, ''sigprocmask'', Some ''sys_sigprocmask'', None),
    (128, Common, ''init_module'', Some ''sys_init_module'', None),
    (129, Common, ''delete_module'', Some ''sys_delete_module'', None),
    (131, Common, ''quotactl'', Some ''sys_quotactl'', None),
    (132, Common, ''getpgid'', Some ''sys_getpgid'', None),
    (133, Common, ''fchdir'', Some ''sys_fchdir'', None),
    (134, Common, ''bdflush'', Some ''sys_bdflush'', None), (135, Common, ''sysfs'', Some ''sys_sysfs'', None),
    (136, Common, ''personality'', Some ''sys_personality'', None),
    (138, Common, ''setfsuid'', Some ''sys_setfsuid16'', None),
    (139, Common, ''setfsgid'', Some ''sys_setfsgid16'', None),
    (140, Common, ''_llseek'', Some ''sys_llseek'', None),
    (141, Common, ''getdents'', Some ''sys_getdents'', None),
    (142, Common, ''_newselect'', Some ''sys_select'', None),
    (143, Common, ''flock'', Some ''sys_flock'', None), (144, Common, ''msync'', Some ''sys_msync'', None),
    (145, Common, ''readv'', Some ''sys_readv'', None), (146, Common, ''writev'', Some ''sys_writev'', None),
    (147, Common, ''getsid'', Some ''sys_getsid'', None),
    (148, Common, ''fdatasync'', Some ''sys_fdatasync'', None),
    (149, Common, ''_sysctl'', Some ''sys_sysctl'', None)]"

definition table2 :: "table_entry list" where
  "table2 =
   [(150, Common, ''mlock'', Some ''sys_mlock'', None), (151, Common, ''munlock'', Some ''sys_munlock'', None),
    (152, Common, ''mlockall'', Some ''sys_mlockall'', None),
    (153, Common, ''munlockall'', Some ''sys_munlockall'', None),
    (154, Common, ''sched_setparam'', Some ''sys_sched_setparam'', None),
    (155, Common, ''sched_getparam'', Some ''sys_sched_getparam'', None),
    (156, Common, ''sched_setscheduler'', Some ''sys_sched_setscheduler'', None),
    (157, Common, ''sched_getscheduler'', Some ''sys_sched_getscheduler'', None),
    (158, Common, ''sched_yield'', Some ''sys_sched_yield'', None),
    (159, Common, ''sched_get_priority_max'', Some ''sys_sched_get_priority_max'', None),
    (160, Common, ''sched_get_priority_min'', Some ''sys_sched_get_priority_min'', None),
    (161, Common, ''sched_rr_get_interval'', Some ''sys_sched_rr_get_interval'', None),
    (162, Common, ''nanosleep'', Some ''sys_nanosleep'', None),
    (163, Common, ''mremap'', Some ''sys_mremap'', None),
    (164, Common, ''setresuid'', Some ''sys_setresuid16'', None),
    (165, Common, ''getresuid'', Some ''sys_getresuid16'', None),
    (168, Common, ''poll'', Some ''sys_poll'', None), (169, Common, ''nfsservctl'', None, None),
    (170, Common, ''setresgid'', Some ''sys_setresgid16'', None),
    (171, Common, ''getresgid'', Some ''sys_getresgid16'', None),
    (172, Common, ''prctl'', Some ''sys_prctl'', None),
    (173, Common, ''rt_sigreturn'', Some ''sys_rt_sigreturn_wrapper'', None),
    (174, Common, ''rt_sigaction'', Some ''sys_rt_sigaction'', None),
    (175, Common, ''rt_sigprocmask'', Some ''sys_rt_sigprocmask'', None),
    (176, Common, ''rt_sigpending'', Some ''sys_rt_sigpending'', None),
    (177, Common, ''rt_sigtimedwait'', Some ''sys_rt_sigtimedwait'', None),
    (178, Common, ''rt_sigqueueinfo'', Some ''sys_rt_sigqueueinfo'', None),
    (179, Common, ''rt_sigsuspend'', Some ''sys_rt_sigsuspend'', None),
    (180, Common, ''pread64'', Some ''sys_pread64'', Some ''sys_oabi_pread64''),
    (181, Common, ''pwrite64'', Some ''sys_pwrite64'', Some ''sys_oabi_pwrite64''),
    (182, Common, ''chown'', Some ''sys_chown16'', None), (183, Common, ''getcwd'', Some ''sys_getcwd'', None),
    (184, Common, ''capget'', Some ''sys_capget'', None), (185, Common, ''capset'', Some ''sys_capset'', None),
    (186, Common, ''sigaltstack'', Some ''sys_sigaltstack'', None),
    (187, Common, ''sendfile'', Some ''sys_sendfile'', None),
    (190, Common, ''vfork'', Some ''sys_vfork'', None),
    (191, Common, ''ugetrlimit'', Some ''sys_getrlimit'', None),
    (192, Common, ''mmap2'', Some ''sys_mmap2'', None),
    (193, Common, ''truncate64'', Some ''sys_truncate64'', Some ''sys_oabi_truncate64''),
    (194, Common, ''ftruncate64'', Some ''sys_ftruncate64'', Some ''sys_oabi_ftruncate64''),
    (195, Common, ''stat64'', Some ''sys_stat64'', Some ''sys_oabi_stat64''),
    (196, Common, ''lstat64'', Some ''sys_lstat64'', Some ''sys_oabi_lstat64''),
    (197, Common, ''fstat64'', Some ''sys_fstat64'', Some ''sys_oabi_fstat64''),
    (198, Common, ''lchown32'', Some ''sys_lchown'', None),
    (199, Common, ''getuid32'', Some ''sys_getuid'', None),
    (200, Common, ''getgid32'', Some ''sys_getgid'', None),
    (201, Common, ''geteuid32'', Some ''sys_geteuid'', None),
    (202, Common, ''getegid32'', Some ''sys_getegid'', None),
    (203, Common, ''setreuid32'', Some ''sys_setreuid'', None),
    (204, Common, ''setregid32'', Some ''sys_setregid'', None),
    (205, Common, ''getgroups32'', Some ''sys_getgroups'', None),
    (206, Common, ''setgroups32'', Some ''sys_setgroups'', None),
    (207, Common, ''fchown32'', Some ''sys_fchown'', None),
    (208, Common, ''setresuid32'', Some ''sys_setresuid'', None),
    (209, Common, ''getresuid32'', Some ''sys_getresuid'', None),
    (210, Common, ''setresgid32'', Some ''sys_setresgid'', None),
    (211, Common, ''getresgid32'', Some ''sys_getresgid'', None),
    (212, Common, ''chown32'', Some ''sys_chown'', None),
    (213, Common, ''setuid32'', Some ''sys_setuid'', None),
    (214, Common, ''setgid32'', Some ''sys_setgid'', None),
    (215, Common, ''setfsuid32'', Some ''sys_setfsuid'', None),
    (216, Common, ''setfsgid32'', Some ''sys_setfsgid'', None),
    (217, Common, ''getdents64'', Some ''sys_getdents64'', None),
    (218, Common, ''pivot_root'', Some ''sys_pivot_root'', None),
    (219, Common, ''mincore'', Some ''sys_mincore'', None),
    (220, Common, ''madvise'', Some ''sys_madvise'', None),
    (221, Common, ''fcntl64'', Some ''sys_fcntl64'', Some ''sys_oabi_fcntl64''),
    (224, Common, ''gettid'', Some ''sys_gettid'', None),
    (225, Common, ''readahead'', Some ''sys_readahead'', Some ''sys_oabi_readahead''),
    (226, Common, ''setxattr'', Some ''sys_setxattr'', None),
    (227, Common, ''lsetxattr'', Some ''sys_lsetxattr'', None),
    (228, Common, ''fsetxattr'', Some ''sys_fsetxattr'', None),
    (229, Common, ''getxattr'', Some ''sys_getxattr'', None),
    (230, Common, ''lgetxattr'', Some ''sys_lgetxattr'', None),
    (231, Common, ''fgetxattr'', Some ''sys_fgetxattr'', None),
    (232, Common, ''listxattr'', Some ''sys_listxattr'', None),
    (233, Common, ''llistxattr'', Some ''sys_llistxattr'', None),
    (234, Common, ''flistxattr'', Some ''sys_flistxattr'', None),
    (235, Common, ''removexattr'', Some ''sys_removexattr'', None),
    (236, Common, ''lremovexattr'', Some ''sys_lremovexattr'', None),
    (237, Common, ''fremovexattr'', Some ''sys_fremovexattr'', None),
    (238, Common, ''tkill'', Some ''sys_tkill'', None),
    (239, Common, ''sendfile64'', Some ''sys_sendfile64'', None),
    (240, Common, ''futex'', Some ''sys_futex'', None),
    (241, Common, ''sched_setaffinity'', Some ''sys_sched_setaffinity'', None),
    (242, Common, ''sched_getaffinity'', Some ''sys_sched_getaffinity'', None),
    (243, Common, ''io_setup'', Some ''sys_io_setup'', None),
    (244, Common, ''io_destroy'', Some ''sys_io_destroy'', None),
    (245, Common, ''io_getevents'', Some ''sys_io_getevents'', None),
    (246, Common, ''io_submit'', Some ''sys_io_submit'', None),
    (247, Common, ''io_cancel'', Some ''sys_io_cancel'', None),
    (248, Common, ''exit_group'', Some ''sys_exit_group'', None),
    (249, Common, ''lookup_dcookie'', Some ''sys_lookup_dcookie'', None),
    (250, Common, ''epoll_create'', Some ''sys_epoll_create'', None),
    (251, Common, ''epoll_ctl'', Some ''sys_epoll_ctl'', Some ''sys_oabi_epoll_ctl''),
    (252, Common, ''epoll_wait'', Some ''sys_epoll_wait'', Some ''sys_oabi_epoll_wait''),
    (253, Common, ''remap_file_pages'', Some ''sys_remap_file_pages'', None),
    (256, Common, ''set_tid_address'', Some ''sys_set_tid_address'', None),
    (257, Common, ''timer_create'', Some ''sys_timer_create'', None),
    (258, Common, ''timer_settime'', Some ''sys_timer_settime'', None),
    (259, Common, ''timer_gettime'', Some ''sys_timer_gettime'', None),
    (260, Common, ''timer_getoverrun'', Some ''sys_timer_getoverrun'', None),
    (261, Common, ''timer_delete'', Some ''sys_timer_delete'', None),
    (262, Common, ''clock_settime'', Some ''sys_clock_settime'', None),
    (263, Common, ''clock_gettime'', Some ''sys_clock_gettime'', None),
    (264, Common, ''clock_getres'', Some ''sys_clock_getres'', None),
    (265, Common, ''clock_nanosleep'', Some ''sys_clock_nanosleep'', None),
    (266, Common, ''statfs64'', Some ''sys_statfs64_wrapper'', None),
    (267, Common, ''fstatfs64'', Some ''sys_fstatfs64_wrapper'', None),
    (268, Common, ''tgkill'', Some ''sys_tgkill'', None), (269, Common, ''utimes'', Some ''sys_utimes'', None),
    (270, Common, ''arm_fadvise64_64'', Some ''sys_arm_fadvise64_64'', None),
    (271, Common, ''pciconfig_iobase'', Some ''sys_pciconfig_iobase'', None),
    (272, Common, ''pciconfig_read'', Some ''sys_pciconfig_read'', None),
    (273, Common, ''pciconfig_write'', Some ''sys_pciconfig_write'', None),
    (274, Common, ''mq_open'', Some ''sys_mq_open'', None),
    (275, Common, ''mq_unlink'', Some ''sys_mq_unlink'', None),
    (276, Common, ''mq_timedsend'', Some ''sys_mq_timedsend'', None),
    (277, Common, ''mq_timedreceive'', Some ''sys_mq_timedreceive'', None),
    (278, Common, ''mq_notify'', Some ''sys_mq_notify'', None),
    (279, Common, ''mq_getsetattr'', Some ''sys_mq_getsetattr'', None),
    (280, Common, ''waitid'', Some ''sys_waitid'', None), (281, Common, ''socket'', Some ''sys_socket'', None),
    (282, Common, ''bind'', Some ''sys_bind'', Some ''sys_oabi_bind'')]"

definition table3 :: "table_entry list" where
  "table3 =
   [(283, Common, ''connect'', Some ''sys_connect'', Some ''sys_oabi_connect''),
    (284, Common, ''listen'', Some ''sys_listen'', None), (285, Common, ''accept'', Some ''sys_accept'', None),
    (286, Common, ''getsockname'', Some ''sys_getsockname'', None),
    (287, Common, ''getpeername'', Some ''sys_getpeername'', None),
    (288, Common, ''socketpair'', Some ''sys_socketpair'', None),
    (289, Common, ''send'', Some ''sys_send'', None),
    (290, Common, ''sendto'', Some ''sys_sendto'', Some ''sys_oabi_sendto''),
    (291, Common, ''recv'', Some ''sys_recv'', None), (292, Common, ''recvfrom'', Some ''sys_recvfrom'', None),
    (293, Common, ''shutdown'', Some ''sys_shutdown'', None),
    (294, Common, ''setsockopt'', Some ''sys_setsockopt'', None),
    (295, Common, ''getsockopt'', Some ''sys_getsockopt'', None),
    (296, Common, ''sendmsg'', Some ''sys_sendmsg'', Some ''sys_oabi_sendmsg''),
    (297, Common, ''recvmsg'', Some ''sys_recvmsg'', None),
    (298, Common, ''semop'', Some ''sys_semop'', Some ''sys_oabi_semop''),
    (299, Common, ''semget'', Some ''sys_semget'', None), (300, Common, ''semctl'', Some ''sys_semctl'', None),
    (301, Common, ''msgsnd'', Some ''sys_msgsnd'', None), (302, Common, ''msgrcv'', Some ''sys_msgrcv'', None),
    (303, Common, ''msgget'', Some ''sys_msgget'', None), (304, Common, ''msgctl'', Some ''sys_msgctl'', None),
    (305, Common, ''shmat'', Some ''sys_shmat'', None), (306, Common, ''shmdt'', Some ''sys_shmdt'', None),
    (307, Common, ''shmget'', Some ''sys_shmget'', None), (308, Common, ''shmctl'', Some ''sys_shmctl'', None),
    (309, Common, ''add_key'', Some ''sys_add_key'', None),
    (310, Common, ''request_key'', Some ''sys_request_key'', None),
    (311, Common, ''keyctl'', Some ''sys_keyctl'', None),
    (312, Common, ''semtimedop'', Some ''sys_semtimedop'', Some ''sys_oabi_semtimedop''),
    (313, Common, ''vserver'', None, None), (314, Common, ''ioprio_set'', Some ''sys_ioprio_set'', None),
    (315, Common, ''ioprio_get'', Some ''sys_ioprio_get'', None),
    (316, Common, ''inotify_init'', Some ''sys_inotify_init'', None),
    (317, Common, ''inotify_add_watch'', Some ''sys_inotify_add_watch'', None),
    (318, Common, ''inotify_rm_watch'', Some ''sys_inotify_rm_watch'', None),
    (319, Common, ''mbind'', Some ''sys_mbind'', None),
    (320, Common, ''get_mempolicy'', Some ''sys_get_mempolicy'', None),
    (321, Common, ''set_mempolicy'', Some ''sys_set_mempolicy'', None),
    (322, Common, ''openat'', Some ''sys_openat'', None),
    (323, Common, ''mkdirat'', Some ''sys_mkdirat'', None),
    (324, Common, ''mknodat'', Some ''sys_mknodat'', None),
    (325, Common, ''fchownat'', Some ''sys_fchownat'', None),
    (326, Common, ''futimesat'', Some ''sys_futimesat'', None),
    (327, Common, ''fstatat64'', Some ''sys_fstatat64'', Some ''sys_oabi_fstatat64''),
    (328, Common, ''unlinkat'', Some ''sys_unlinkat'', None),
    (329, Common, ''renameat'', Some ''sys_renameat'', None),
    (330, Common, ''linkat'', Some ''sys_linkat'', None),
    (331, Common, ''symlinkat'', Some ''sys_symlinkat'', None),
    (332, Common, ''readlinkat'', Some ''sys_readlinkat'', None),
    (333, Common, ''fchmodat'', Some ''sys_fchmodat'', None),
    (334, Common, ''faccessat'', Some ''sys_faccessat'', None),
    (335, Common, ''pselect6'', Some ''sys_pselect6'', None),
    (336, Common, ''ppoll'', Some ''sys_ppoll'', None), (337, Common, ''unshare'', Some ''sys_unshare'', None),
    (338, Common, ''set_robust_list'', Some ''sys_set_robust_list'', None),
    (339, Common, ''get_robust_list'', Some ''sys_get_robust_list'', None),
    (340, Common, ''splice'', Some ''sys_splice'', None),
    (341, Common, ''arm_sync_file_range'', Some ''sys_sync_file_range2'', None),
    (342, Common, ''tee'', Some ''sys_tee'', None), (343, Common, ''vmsplice'', Some ''sys_vmsplice'', None),
    (344, Common, ''move_pages'', Some ''sys_move_pages'', None),
    (345, Common, ''getcpu'', Some ''sys_getcpu'', None),
    (346, Common, ''epoll_pwait'', Some ''sys_epoll_pwait'', None),
    (347, Common, ''kexec_load'', Some ''sys_kexec_load'', None),
    (348, Common, ''utimensat'', Some ''sys_utimensat'', None),
    (349, Common, ''signalfd'', Some ''sys_signalfd'', None),
    (350, Common, ''timerfd_create'', Some ''sys_timerfd_create'', None),
    (351, Common, ''eventfd'', Some ''sys_eventfd'', None),
    (352, Common, ''fallocate'', Some ''sys_fallocate'', None),
    (353, Common, ''timerfd_settime'', Some ''sys_timerfd_settime'', None),
    (354, Common, ''timerfd_gettime'', Some ''sys_timerfd_gettime'', None),
    (355, Common, ''signalfd4'', Some ''sys_signalfd4'', None),
    (356, Common, ''eventfd2'', Some ''sys_eventfd2'', None),
    (357, Common, ''epoll_create1'', Some ''sys_epoll_create1'', None),
    (358, Common, ''dup3'', Some ''sys_dup3'', None), (359, Common, ''pipe2'', Some ''sys_pipe2'', None),
    (360, Common, ''inotify_init1'', Some ''sys_inotify_init1'', None),
    (361, Common, ''preadv'', Some ''sys_preadv'', None),
    (362, Common, ''pwritev'', Some ''sys_pwritev'', None),
    (363, Common, ''rt_tgsigqueueinfo'', Some ''sys_rt_tgsigqueueinfo'', None),
    (364, Common, ''perf_event_open'', Some ''sys_perf_event_open'', None),
    (365, Common, ''recvmmsg'', Some ''sys_recvmmsg'', None),
    (366, Common, ''accept4'', Some ''sys_accept4'', None),
    (367, Common, ''fanotify_init'', Some ''sys_fanotify_init'', None),
    (368, Common, ''fanotify_mark'', Some ''sys_fanotify_mark'', None),
    (369, Common, ''prlimit64'', Some ''sys_prlimit64'', None),
    (370, Common, ''name_to_handle_at'', Some ''sys_name_to_handle_at'', None),
    (371, Common, ''open_by_handle_at'', Some ''sys_open_by_handle_at'', None),
    (372, Common, ''clock_adjtime'', Some ''sys_clock_adjtime'', None),
    (373, Common, ''syncfs'', Some ''sys_syncfs'', None),
    (374, Common, ''sendmmsg'', Some ''sys_sendmmsg'', None),
    (375, Common, ''setns'', Some ''sys_setns'', None),
    (376, Common, ''process_vm_readv'', Some ''sys_process_vm_readv'', None),
    (377, Common, ''process_vm_writev'', Some ''sys_process_vm_writev'', None),
    (378, Common, ''kcmp'', Some ''sys_kcmp'', None),
    (379, Common, ''finit_module'', Some ''sys_finit_module'', None),
    (380, Common, ''sched_setattr'', Some ''sys_sched_setattr'', None),
    (381, Common, ''sched_getattr'', Some ''sys_sched_getattr'', None),
    (382, Common, ''renameat2'', Some ''sys_renameat2'', None),
    (383, Common, ''seccomp'', Some ''sys_seccomp'', None),
    (384, Common, ''getrandom'', Some ''sys_getrandom'', None),
    (385, Common, ''memfd_create'', Some ''sys_memfd_create'', None),
    (386, Common, ''bpf'', Some ''sys_bpf'', None), (387, Common, ''execveat'', Some ''sys_execveat'', None),
    (388, Common, ''userfaultfd'', Some ''sys_userfaultfd'', None),
    (389, Common, ''membarrier'', Some ''sys_membarrier'', None),
    (390, Common, ''mlock2'', Some ''sys_mlock2'', None),
    (391, Common, ''copy_file_range'', Some ''sys_copy_file_range'', None),
    (392, Common, ''preadv2'', Some ''sys_preadv2'', None),
    (393, Common, ''pwritev2'', Some ''sys_pwritev2'', None),
    (394, Common, ''pkey_mprotect'', Some ''sys_pkey_mprotect'', None),
    (395, Common, ''pkey_alloc'', Some ''sys_pkey_alloc'', None),
    (396, Common, ''pkey_free'', Some ''sys_pkey_free'', None),
    (397, Common, ''statx'', Some ''sys_statx'', None),
    (398, Common, ''viks_hello'', Some ''sys_viks_hello'', None),
    (399, Common, ''my_sort'', Some ''sys_my_sort'', None)]"

definition syscall_table :: "table_entry list" where
  "syscall_table = table1 @ table2 @ table3"

end
