(* ===== verification/SyscallEntry.thy ===== *)
theory SyscallEntry
  imports SyscallDecls Creds MySort
begin

text \<open>
  The way into a system call: the macros \<^verbatim>\<open>__MAP\<close>, \<^verbatim>\<open>SYSCALL_DEFINEx\<close> and \<^verbatim>\<open>SYSCALL_METADATA\<close> and
  \<^verbatim>\<open>addr_limit_user_check\<close> of \<^verbatim>\<open>HW2_APES/PROBLEM5/system_call/syscalls.h\<close>, the heads of the calls
  that \<^verbatim>\<open>sys.c\<close> defines with them, and the way from a number over the table to the identity calls and
  to \<^verbatim>\<open>my_sort\<close>.

  A call gets its arguments in registers, which are integers here. The function that the
  macro defines around the body takes every argument as a \<^verbatim>\<open>long\<close> (or \<^verbatim>\<open>long long\<close>) and casts it to its type.
  How many bytes a \<^verbatim>\<open>long\<close> has and what a \<^verbatim>\<open>typedef\<close> stands for are parameters.
\<close>

section \<open>Types of arguments\<close>

record platform =
  long_bytes :: nat
  typedefs :: "string \<Rightarrow> cbase"

primrec base_of :: "platform \<Rightarrow> ctype \<Rightarrow> cbase" where
  "base_of p (Base b) = b"
| "base_of p (Typedef s) = typedefs p s"

primrec bytes_of :: "platform \<Rightarrow> cbase \<Rightarrow> nat" where
  "bytes_of p C_pointer = long_bytes p"
| "bytes_of p C_short = 2"
| "bytes_of p C_ushort = 2"
| "bytes_of p C_int = 4"
| "bytes_of p C_uint = 4"
| "bytes_of p C_long = long_bytes p"
| "bytes_of p C_ulong = long_bytes p"
| "bytes_of p C_llong = 8"
| "bytes_of p C_ullong = 8"

definition signed :: "cbase \<Rightarrow> bool" where
  "signed b \<longleftrightarrow> b = C_short \<or> b = C_int \<or> b = C_long \<or> b = C_llong"

definition size_of :: "platform \<Rightarrow> ctype \<Rightarrow> nat" where
  "size_of p t = bytes_of p (base_of p t)"

definition type_is_ll :: "platform \<Rightarrow> ctype \<Rightarrow> bool" where
  "type_is_ll p t \<longleftrightarrow> base_of p t = C_llong \<or> base_of p t = C_ullong"

text \<open>The bytes of the register that \<^verbatim>\<open>__SC_LONG\<close> declares, the cast, and the test that fails the build.\<close>

definition sc_long :: "platform \<Rightarrow> ctype \<Rightarrow> nat" where
  "sc_long p t = (if type_is_ll p t then 8 else long_bytes p)"

definition sc_cast :: "platform \<Rightarrow> ctype \<Rightarrow> int \<Rightarrow> int" where
  "sc_cast p t v =
    (let n = 8 * size_of p t in if signed (base_of p t) then signed_take_bit (n - 1) v else take_bit n v)"

definition sc_test :: "platform \<Rightarrow> ctype \<Rightarrow> bool" where
  "sc_test p t \<longleftrightarrow> \<not> (\<not> type_is_ll p t \<and> size_of p t > long_bytes p)"

section \<open>The macros\<close>

type_synonym params = "(ctype \<times> string) list"

text \<open>\<^verbatim>\<open>__MAP1\<close> takes exactly one pair, \<^verbatim>\<open>__MAP0\<close> ignores its arguments, there is none beyond \<^verbatim>\<open>__MAP6\<close>.\<close>

fun sc_map :: "nat \<Rightarrow> (ctype \<times> string \<Rightarrow> 'b) \<Rightarrow> params \<Rightarrow> 'b list option" where
  "sc_map 0 m args = Some []"
| "sc_map (Suc n) m [] = None"
| "sc_map (Suc 0) m (a # args) = (if args = [] then Some [m a] else None)"
| "sc_map (Suc (Suc n)) m (a # args) =
    (if n < 5 then map_option (Cons (m a)) (sc_map (Suc n) m args) else None)"

record syscall_metadata =
  meta_name :: string
  syscall_nr :: int
  nb_args :: nat
  types :: "ctype list option"
  args :: "string list option"
  enter_event :: string
  exit_event :: string

definition SYSCALL_METADATA :: "string \<Rightarrow> nat \<Rightarrow> params \<Rightarrow> syscall_metadata option" where
  "SYSCALL_METADATA sname nb xs = do {
     ts \<leftarrow> sc_map nb fst xs;
     as \<leftarrow> sc_map nb snd xs;
     Some \<lparr>meta_name = ''sys'' @ sname, syscall_nr = - 1, nb_args = nb,
       types = (if nb \<noteq> 0 then Some ts else None), args = (if nb \<noteq> 0 then Some as else None),
       enter_event = ''sys_enter'' @ sname, exit_event = ''sys_exit'' @ sname\<rparr>
   }"

text \<open>The prototype that a definition declares; \<open>None\<close>: it does not expand.\<close>

definition SYSCALL_DEFINEx :: "nat \<Rightarrow> string \<Rightarrow> params \<Rightarrow> prototype option" where
  "SYSCALL_DEFINEx x sname xs = map_option (Pair (''sys'' @ sname)) (sc_map x fst xs)"

definition SYSCALL_DEFINE :: "nat \<Rightarrow> string \<Rightarrow> params \<Rightarrow> prototype option" where
  "SYSCALL_DEFINE n name xs = SYSCALL_DEFINEx n (''_'' @ name) xs"

text \<open>The heads in \<^verbatim>\<open>sys.c\<close>: number of parameters, name, parameters.\<close>

definition heads :: "build_config \<Rightarrow> (nat \<times> string \<times> params) list" where
  "heads c =
   [(3, ''setpriority'', [(Base C_int, ''which''), (Base C_int, ''who''), (Base C_int, ''niceval'')]),
    (2, ''getpriority'', [(Base C_int, ''which''), (Base C_int, ''who'')]),
    (2, ''setregid'', [(Typedef ''gid_t'', ''rgid''), (Typedef ''gid_t'', ''egid'')]),
    (1, ''setgid'', [(Typedef ''gid_t'', ''gid'')]),
    (2, ''setreuid'', [(Typedef ''uid_t'', ''ruid''), (Typedef ''uid_t'', ''euid'')]),
    (1, ''setuid'', [(Typedef ''uid_t'', ''uid'')]),
    (3, ''setresuid'', [(Typedef ''uid_t'', ''ruid''), (Typedef ''uid_t'', ''euid''), (Typedef ''uid_t'', ''suid'')]),
    (3, ''getresuid'', [(Base C_pointer, ''ruidp''), (Base C_pointer, ''euidp''), (Base C_pointer, ''suidp'')]),
    (3, ''setresgid'', [(Typedef ''gid_t'', ''rgid''), (Typedef ''gid_t'', ''egid''), (Typedef ''gid_t'', ''sgid'')]),
    (3, ''getresgid'', [(Base C_pointer, ''rgidp''), (Base C_pointer, ''egidp''), (Base C_pointer, ''sgidp'')]),
    (1, ''setfsuid'', [(Typedef ''uid_t'', ''uid'')]), (1, ''setfsgid'', [(Typedef ''gid_t'', ''gid'')]),
    (0, ''getpid'', []), (0, ''viks_hello'', []),
    (3, ''my_sort'', [(Base C_pointer, ''src_buffer''), (Typedef ''size_t'', ''buffer_size''), (Base C_pointer, ''sorted_buffer'')]),
    (0, ''gettid'', []), (0, ''getppid'', []), (0, ''getuid'', []), (0, ''geteuid'', []), (0, ''getgid'', []),
    (0, ''getegid'', []), (1, ''times'', [(Base C_pointer, ''tbuf'')]),
    (2, ''setpgid'', [(Typedef ''pid_t'', ''pid''), (Typedef ''pid_t'', ''pgid'')]),
    (1, ''getpgid'', [(Typedef ''pid_t'', ''pid'')])]
    @ (if getpgrp_wanted c then [(0, ''getpgrp'', [])] else [])
    @ [(1, ''getsid'', [(Typedef ''pid_t'', ''pid'')]), (0, ''setsid'', []),
    (1, ''newuname'', [(Base C_pointer, ''name'')])]
    @ (if old_uname_wanted c then [(1, ''uname'', [(Base C_pointer, ''name'')]), (1, ''olduname'', [(Base C_pointer, ''name'')])] else [])
    @ [(2, ''sethostname'', [(Base C_pointer, ''name''), (Base C_int, ''len'')])]
    @ (if gethostname_wanted c then [(2, ''gethostname'', [(Base C_pointer, ''name''), (Base C_int, ''len'')])] else [])
    @ [(2, ''setdomainname'', [(Base C_pointer, ''name''), (Base C_int, ''len'')]),
    (2, ''getrlimit'', [(Base C_uint, ''resource''), (Base C_pointer, ''rlim'')])]
    @ (if old_getrlimit_wanted c then [(2, ''old_getrlimit'', [(Base C_uint, ''resource''), (Base C_pointer, ''rlim'')])] else [])
    @ [(4, ''prlimit64'', [(Typedef ''pid_t'', ''pid''), (Base C_uint, ''resource''), (Base C_pointer, ''new_rlim''), (Base C_pointer, ''old_rlim'')]),
    (2, ''setrlimit'', [(Base C_uint, ''resource''), (Base C_pointer, ''rlim'')]),
    (2, ''getrusage'', [(Base C_int, ''who''), (Base C_pointer, ''ru'')]),
    (1, ''umask'', [(Base C_int, ''mask'')]),
    (5, ''prctl'', [(Base C_int, ''option''), (Base C_ulong, ''arg2''), (Base C_ulong, ''arg3''), (Base C_ulong, ''arg4''), (Base C_ulong, ''arg5'')]),
    (3, ''getcpu'', [(Base C_pointer, ''cpup''), (Base C_pointer, ''nodep''), (Base C_pointer, ''unused'')]),
    (1, ''sysinfo'', [(Base C_pointer, ''info'')])]"

text \<open>The function \<^verbatim>\<open>SyS_name\<close> around the body \<^verbatim>\<open>SYSC_name\<close>.\<close>

definition SyS :: "platform \<Rightarrow> ctype list \<Rightarrow> (int list \<Rightarrow> 'r) \<Rightarrow> int list \<Rightarrow> 'r" where
  "SyS p ts SYSC regs = SYSC (map2 (sc_cast p) ts regs)"

text \<open>Which events are those of system calls; without \<^verbatim>\<open>CONFIG_FTRACE_SYSCALLS\<close> none is.\<close>

datatype event_class = Event_class_syscall_enter | Event_class_syscall_exit | Other_class

definition is_syscall_trace_event :: "bool \<Rightarrow> event_class \<Rightarrow> bool" where
  "is_syscall_trace_event ftrace_syscalls cls \<longleftrightarrow>
     ftrace_syscalls \<and> (cls = Event_class_syscall_enter \<or> cls = Event_class_syscall_exit)"

text \<open>On the way back to the user; \<open>None\<close> is the crash that a kernel can be built for.\<close>

record user_return =
  tif_fscheck :: bool
  user_limit :: bool
  killed :: bool

definition addr_limit_user_check :: "bool \<Rightarrow> bool \<Rightarrow> user_return \<Rightarrow> user_return option" where
  "addr_limit_user_check has_flag bug_on_corruption s =
    (if has_flag \<and> \<not> tif_fscheck s then Some s
     else if \<not> user_limit s \<and> bug_on_corruption then None
     else
       let s = (if \<not> user_limit s then s\<lparr>killed := True\<rparr> else s)
       in Some (if has_flag then s\<lparr>tif_fscheck := False\<rparr> else s))"

section \<open>From a number to a call\<close>

definition handler :: "nat \<Rightarrow> string option" where
  "handler nr = (case find (\<lambda>(n, a, name, f, old). n = nr \<and> a \<noteq> Oabi) syscall_table of
     None \<Rightarrow> None
   | Some (n, a, name, f, old) \<Rightarrow> f)"

text \<open>The calls on ids. A result of type \<^verbatim>\<open>uid_t\<close> becomes a \<^verbatim>\<open>long\<close>.\<close>

type_synonym 'x id_state = "'x task \<times> (addr \<rightharpoonup> 32 word)"

definition as_long :: "platform \<Rightarrow> 32 word \<Rightarrow> int" where
  "as_long p v = signed_take_bit (8 * long_bytes p - 1) (uint v)"

abbreviation uid_t :: ctype where "uid_t \<equiv> Typedef ''uid_t''"
abbreviation gid_t :: ctype where "gid_t \<equiv> Typedef ''gid_t''"
abbreviation arg :: "int list \<Rightarrow> nat \<Rightarrow> 32 word" where "arg as i \<equiv> word_of_int (as ! i)"
abbreviation ptr :: "int list \<Rightarrow> nat \<Rightarrow> addr" where "ptr as i \<equiv> nat (as ! i)"

definition with_task :: "int \<times> 'x task \<Rightarrow> (addr \<rightharpoonup> 32 word) \<Rightarrow> int \<times> 'x id_state" where
  "with_task r m = (fst r, snd r, m)"

definition with_memory :: "int \<times> (addr \<rightharpoonup> 32 word) \<Rightarrow> 'x task \<Rightarrow> int \<times> 'x id_state" where
  "with_memory r t = (fst r, t, snd r)"

definition id_entries ::
  "platform \<Rightarrow> 'x id_api \<Rightarrow> (string \<times> (int list \<Rightarrow> 'x id_state \<Rightarrow> int \<times> 'x id_state)) list" where
  "id_entries p k = [
     (''sys_setregid'', \<lambda>r (t, m). SyS p [gid_t, gid_t] (\<lambda>as. with_task (setregid k (arg as 0) (arg as 1) t) m) r),
     (''sys_setgid'', \<lambda>r (t, m). SyS p [gid_t] (\<lambda>as. with_task (setgid k (arg as 0) t) m) r),
     (''sys_setreuid'', \<lambda>r (t, m). SyS p [uid_t, uid_t] (\<lambda>as. with_task (setreuid k (arg as 0) (arg as 1) t) m) r),
     (''sys_setuid'', \<lambda>r (t, m). SyS p [uid_t] (\<lambda>as. with_task (setuid k (arg as 0) t) m) r),
     (''sys_setresuid'', \<lambda>r (t, m). SyS p [uid_t, uid_t, uid_t]
        (\<lambda>as. with_task (setresuid k (arg as 0) (arg as 1) (arg as 2) t) m) r),
     (''sys_getresuid'', \<lambda>r (t, m). SyS p [Base C_pointer, Base C_pointer, Base C_pointer]
        (\<lambda>as. with_memory (getresuid k (ptr as 0) (ptr as 1) (ptr as 2) t m) t) r),
     (''sys_setresgid'', \<lambda>r (t, m). SyS p [gid_t, gid_t, gid_t]
        (\<lambda>as. with_task (setresgid k (arg as 0) (arg as 1) (arg as 2) t) m) r),
     (''sys_getresgid'', \<lambda>r (t, m). SyS p [Base C_pointer, Base C_pointer, Base C_pointer]
        (\<lambda>as. with_memory (getresgid k (ptr as 0) (ptr as 1) (ptr as 2) t m) t) r),
     (''sys_setfsuid'', \<lambda>r (t, m). SyS p [uid_t]
        (\<lambda>as. with_task (case setfsuid k (arg as 0) t of (v, t) \<Rightarrow> (as_long p v, t)) m) r),
     (''sys_setfsgid'', \<lambda>r (t, m). SyS p [gid_t]
        (\<lambda>as. with_task (case setfsgid k (arg as 0) t of (v, t) \<Rightarrow> (as_long p v, t)) m) r),
     (''sys_getuid'', \<lambda>r (t, m). (as_long p (getuid k t), t, m)),
     (''sys_geteuid'', \<lambda>r (t, m). (as_long p (geteuid k t), t, m)),
     (''sys_getgid'', \<lambda>r (t, m). (as_long p (getgid k t), t, m)),
     (''sys_getegid'', \<lambda>r (t, m). (as_long p (getegid k t), t, m))]"

text \<open>A number that does not lead to one of them is outside this model.\<close>

definition svc_ids :: "platform \<Rightarrow> 'x id_api \<Rightarrow> nat \<Rightarrow> int list \<Rightarrow> 'x id_state \<Rightarrow> (int \<times> 'x id_state) option" where
  "svc_ids p k nr regs s = do {
     f \<leftarrow> handler nr;
     e \<leftarrow> map_of (id_entries p k) f;
     Some (e regs s)
   }"

fun svc_run :: "platform \<Rightarrow> 'x id_api \<Rightarrow> (nat \<times> int list) list \<Rightarrow> 'x id_state \<Rightarrow> 'x id_state option" where
  "svc_run p k [] s = Some s"
| "svc_run p k ((nr, regs) # calls) s = do { (r, s) \<leftarrow> svc_ids p k nr regs s; svc_run p k calls s }"

text \<open>\<^verbatim>\<open>my_sort\<close> behind its macro.\<close>

definition sys_my_sort :: "platform \<Rightarrow> 'u kapi \<Rightarrow> 'u kernel \<Rightarrow> int list \<Rightarrow> (int \<times> 'u kernel) option" where
  "sys_my_sort p api s =
    SyS p [Base C_pointer, Typedef ''size_t'', Base C_pointer]
      (\<lambda>as. my_sort api s (ptr as 0) (arg as 1) (ptr as 2))"

section \<open>The body gets arguments of its types\<close>

text \<open>The values of a type.\<close>

definition in_range :: "platform \<Rightarrow> ctype \<Rightarrow> int \<Rightarrow> bool" where
  "in_range p t x \<longleftrightarrow>
    (let n = 8 * size_of p t in
     if signed (base_of p t) then - (2 ^ (n - 1)) \<le> x \<and> x < 2 ^ (n - 1) else 0 \<le> x \<and> x < 2 ^ n)"

lemma size_pos: "0 < long_bytes p \<Longrightarrow> 0 < size_of p t"
  by (cases "base_of p t") (simp_all add: size_of_def)

lemma cast_in_range: "0 < long_bytes p \<Longrightarrow> in_range p t (sc_cast p t v)"
  using size_pos [of p t]
  by (simp add: in_range_def sc_cast_def Let_def signed_take_bit_int_greater_eq_minus_exp
      signed_take_bit_int_less_exp)

lemma cast_exact:
  assumes "0 < long_bytes p" "in_range p t x" "v mod 2 ^ (8 * size_of p t) = x mod 2 ^ (8 * size_of p t)"
  shows "sc_cast p t v = x"
proof -
  let ?n = "8 * size_of p t"
  have n: "Suc (?n - 1) = ?n" using size_pos [OF assms(1), of t] by simp
  have v: "take_bit ?n v = take_bit ?n x" using assms(3) by (simp add: take_bit_eq_mod)
  show ?thesis
  proof (cases "signed (base_of p t)")
    case True
    have "signed_take_bit (?n - 1) v = signed_take_bit (?n - 1) x"
      using v n by (simp add: signed_take_bit_eq_iff_take_bit_eq)
    also have "\<dots> = x" using assms(2) True by (simp add: in_range_def Let_def signed_take_bit_int_eq_self)
    finally show ?thesis using True by (simp add: sc_cast_def Let_def)
  next
    case False
    have "take_bit ?n x = x" using assms(2) False by (simp add: in_range_def Let_def take_bit_int_eq_self)
    then show ?thesis using v False by (simp add: sc_cast_def Let_def)
  qed
qed

text \<open>C26: The function around a call gives the body arguments within the ranges of their types, whatever the
  registers hold, and exactly the caller's values when each register agrees with its value in the
  bytes of the type: what stands in the other bytes does not matter.\<close>

theorem body_gets_its_types:
  assumes "0 < long_bytes p" "length regs = length ts"
  shows "\<exists>as. SyS p ts SYSC regs = SYSC as \<and> length as = length ts \<and> (\<forall>i < length ts. in_range p (ts ! i) (as ! i))
     \<and> (\<forall>xs. length xs = length ts \<and> (\<forall>i < length ts. in_range p (ts ! i) (xs ! i)
          \<and> regs ! i mod 2 ^ (8 * size_of p (ts ! i)) = xs ! i mod 2 ^ (8 * size_of p (ts ! i))) \<longrightarrow> as = xs)"
proof (intro exI conjI allI impI)
  let ?as = "map2 (sc_cast p) ts regs"
  show "SyS p ts SYSC regs = SYSC ?as" by (simp add: SyS_def)
  show "length ?as = length ts" using assms(2) by simp
  show "in_range p (ts ! i) (?as ! i)" if "i < length ts" for i
    using that assms by (simp add: cast_in_range)
  show "?as = xs" if "length xs = length ts \<and> (\<forall>i < length ts. in_range p (ts ! i) (xs ! i)
      \<and> regs ! i mod 2 ^ (8 * size_of p (ts ! i)) = xs ! i mod 2 ^ (8 * size_of p (ts ! i)))" for xs
    using that assms by (intro nth_equalityI) (simp_all add: cast_exact)
qed

section \<open>Prototypes, definitions and table agree\<close>

text \<open>What the platform's headers say about the types: there are two that are wider than 32 bits everywhere.\<close>

definition standard_types :: "platform \<Rightarrow> bool" where
  "standard_types p \<longleftrightarrow> (long_bytes p = 4 \<or> long_bytes p = 8)
     \<and> (\<forall>s. typedefs p s = C_llong \<or> typedefs p s = C_ullong \<longleftrightarrow> s = ''loff_t'' \<or> s = ''u64'')
     \<and> typedefs p ''size_t'' \<in> {C_uint, C_ulong} \<and> bytes_of p (typedefs p ''size_t'') = long_bytes p"

text \<open>Then every type passes the test, and the register that the macro declares holds all its bytes.\<close>

lemma no_argument_cut:
  assumes "standard_types p"
  shows "sc_test p t \<and> size_of p t \<le> sc_long p t"
proof -
  have "4 \<le> long_bytes p" using assms unfolding standard_types_def by linarith
  then show ?thesis by (cases "base_of p t") (auto simp: sc_test_def sc_long_def size_of_def type_is_ll_def)
qed

text \<open>The registers that arguments take by the procedure call standard of ARM: one, or an even pair for a type of two.\<close>

fun registers :: "platform \<Rightarrow> nat \<Rightarrow> ctype list \<Rightarrow> nat" where
  "registers p n [] = n"
| "registers p n (t # ts) =
    (if long_bytes p < size_of p t then registers p (2 * ((n + 1) div 2) + 2) ts else registers p (n + 1) ts)"

fun count_registers :: "nat \<Rightarrow> ctype list \<Rightarrow> nat" where
  "count_registers n [] = n"
| "count_registers n (Base b # ts) =
    (if b = C_llong \<or> b = C_ullong then count_registers (2 * ((n + 1) div 2) + 2) ts else count_registers (n + 1) ts)"
| "count_registers n (Typedef s # ts) =
    (if s = ''loff_t'' \<or> s = ''u64'' then count_registers (2 * ((n + 1) div 2) + 2) ts else count_registers (n + 1) ts)"

lemma registers_count:
  assumes "standard_types p" "long_bytes p = 4"
  shows "registers p n ts = count_registers n ts"
proof (induction ts arbitrary: n)
  case (Cons t ts)
  have wide: "4 < bytes_of p b \<longleftrightarrow> b = C_llong \<or> b = C_ullong" for b using assms(2) by (cases b) simp_all
  show ?case
  proof (cases t)
    case (Base b)
    then show ?thesis using Cons.IH wide [of b] assms(2) by (simp add: size_of_def)
  next
    case (Typedef s)
    then show ?thesis using Cons.IH wide [of "typedefs p s"] assms by (simp add: size_of_def standard_types_def)
  qed
qed simp

text \<open>Two prototypes need more than the six registers of a call.\<close>

definition too_wide :: "string \<Rightarrow> bool" where
  "too_wide nm \<longleftrightarrow> nm = ''sys_fadvise64_64'' \<or> nm = ''sys_sync_file_range''"

definition fits :: "prototype \<Rightarrow> bool" where
  "fits d \<longleftrightarrow> (6 < count_registers 0 (snd d) \<longleftrightarrow> too_wide (fst d))"

lemma prototypes_fit: "list_all fits (declarations c)"
proof -
  have "list_all fits (prototypes1 c)" by (simp add: prototypes1_def fits_def too_wide_def)
  moreover have "list_all fits (prototypes2 c)" by (simp add: prototypes2_def fits_def too_wide_def)
  moreover have "list_all fits (prototypes3 c)" by (simp add: prototypes3_def fits_def too_wide_def)
  moreover have "list_all fits (prototypes4 c)" by (simp add: prototypes4_def fits_def too_wide_def)
  moreover have "list_all fits prototypes5" by (simp add: prototypes5_def fits_def too_wide_def)
  moreover have "list_all fits (prototypes6 c)" by (simp add: prototypes6_def fits_def too_wide_def)
  ultimately show ?thesis by (simp add: declarations_def)
qed

text \<open>Entries of the table whose functions have no prototype in the header.\<close>

definition undeclared :: "string list" where
  "undeclared = [''sys_syscall'', ''sys_sigreturn_wrapper'', ''sys_rt_sigreturn_wrapper'', ''sys_mmap2'',
     ''sys_statfs64_wrapper'', ''sys_fstatfs64_wrapper'', ''sys_arm_fadvise64_64'']"

lemma not_declared: "list_all (\<lambda>d. fst d \<notin> set undeclared) (declarations c)"
proof -
  let ?P = "\<lambda>d :: prototype. fst d \<notin> set undeclared"
  have "list_all ?P (prototypes1 c)" by (simp add: prototypes1_def undeclared_def)
  moreover have "list_all ?P (prototypes2 c)" by (simp add: prototypes2_def undeclared_def)
  moreover have "list_all ?P (prototypes3 c)" by (simp add: prototypes3_def undeclared_def)
  moreover have "list_all ?P (prototypes4 c)" by (simp add: prototypes4_def undeclared_def)
  moreover have "list_all ?P prototypes5" by (simp add: prototypes5_def undeclared_def)
  moreover have "list_all ?P (prototypes6 c)" by (simp add: prototypes6_def undeclared_def)
  ultimately show ?thesis by (simp add: declarations_def)
qed

lemma table_avoids: "list_all (\<lambda>(n, a, name, f, old). \<forall>nm. f = Some nm \<longrightarrow> \<not> too_wide nm) syscall_table"
proof -
  let ?P = "\<lambda>(n :: nat, a :: abi, name :: string, f, old :: string option). \<forall>nm. f = Some nm \<longrightarrow> \<not> too_wide nm"
  have "list_all ?P table1" by (simp add: table1_def too_wide_def)
  moreover have "list_all ?P table2" by (simp add: table2_def too_wide_def)
  moreover have "list_all ?P table3" by (simp add: table3_def too_wide_def)
  ultimately show ?thesis by (simp add: syscall_table_def)
qed

lemma table_names:
  "\<exists>n a name old. (n, a, name, Some ''sys_syscall'', old) \<in> set table1"
  "\<exists>n a name old. (n, a, name, Some ''sys_sigreturn_wrapper'', old) \<in> set table1"
  "\<exists>n a name old. (n, a, name, Some ''sys_rt_sigreturn_wrapper'', old) \<in> set table2"
  "\<exists>n a name old. (n, a, name, Some ''sys_mmap2'', old) \<in> set table2"
  "\<exists>n a name old. (n, a, name, Some ''sys_statfs64_wrapper'', old) \<in> set table2"
  "\<exists>n a name old. (n, a, name, Some ''sys_fstatfs64_wrapper'', old) \<in> set table2"
  "\<exists>n a name old. (n, a, name, Some ''sys_arm_fadvise64_64'', old) \<in> set table2"
  unfolding table1_def table2_def by (intro exI, (rule list.set_intros)+)+

lemma wide_declared:
  "(''sys_fadvise64_64'', [Base C_int, Typedef ''loff_t'', Typedef ''loff_t'', Base C_int]) \<in> set (declarations c)"
  "(''sys_sync_file_range'', [Base C_int, Typedef ''loff_t'', Typedef ''loff_t'', Base C_uint]) \<in> set (declarations c)"
  by (simp_all add: declarations_def prototypes2_def prototypes6_def)

text \<open>C27: With the registers that the procedure call standard of 32 bit ARM gives to arguments (one, or an even pair for
  a type of 64 bits), exactly two prototypes of the header need more than the six registers r0 to r5 of a system call,
  \<^verbatim>\<open>sys_fadvise64_64\<close> and \<^verbatim>\<open>sys_sync_file_range\<close>, and no entry of the table leads to these: every call of the table that the header
  declares gets its arguments in registers. Seven functions of the table are not declared there (\<open>undeclared\<close>), among them the variant
  of the first one with another order of parameters.\<close>

theorem calls_fit_registers:
  assumes "standard_types p" "long_bytes p = 4"
  shows "(\<forall>(nm, ts) \<in> set (declarations c). 6 < registers p 0 ts \<longleftrightarrow> too_wide nm)
    \<and> (\<forall>nm. too_wide nm \<longrightarrow> nm \<in> fst ` set (declarations c))
    \<and> (\<forall>(n, a, name, f, old) \<in> set syscall_table. \<forall>nm. f = Some nm \<longrightarrow> \<not> too_wide nm
         \<and> (\<forall>ts. (nm, ts) \<in> set (declarations c) \<longrightarrow> registers p 0 ts \<le> 6))
    \<and> (\<forall>nm \<in> set undeclared. nm \<notin> fst ` set (declarations c)
         \<and> (\<exists>n a name old. (n, a, name, Some nm, old) \<in> set syscall_table))"
proof (intro conjI)
  have fits: "6 < registers p 0 ts \<longleftrightarrow> too_wide nm" if "(nm, ts) \<in> set (declarations c)" for nm ts
    using prototypes_fit [of c] that by (auto simp: list_all_iff fits_def registers_count [OF assms])
  then show "\<forall>(nm, ts) \<in> set (declarations c). 6 < registers p 0 ts \<longleftrightarrow> too_wide nm" by blast
  show "\<forall>nm. too_wide nm \<longrightarrow> nm \<in> fst ` set (declarations c)"
    using wide_declared [of c] by (force simp: too_wide_def)
  show "\<forall>(n, a, name, f, old) \<in> set syscall_table. \<forall>nm. f = Some nm \<longrightarrow> \<not> too_wide nm
      \<and> (\<forall>ts. (nm, ts) \<in> set (declarations c) \<longrightarrow> registers p 0 ts \<le> 6)"
    using table_avoids fits by (fastforce simp: list_all_iff not_less)
  show "\<forall>nm \<in> set undeclared. nm \<notin> fst ` set (declarations c)
      \<and> (\<exists>n a name old. (n, a, name, Some nm, old) \<in> set syscall_table)"
  proof
    fix nm assume nm: "nm \<in> set undeclared"
    have "\<exists>n a name old. (n, a, name, Some nm, old) \<in> set table1 \<union> set table2"
      using nm table_names unfolding undeclared_def list.set insert_iff empty_iff by blast
    moreover have "nm \<notin> fst ` set (declarations c)" using nm not_declared [of c] by (auto simp: list_all_iff)
    ultimately show "nm \<notin> fst ` set (declarations c) \<and> (\<exists>n a name old. (n, a, name, Some nm, old) \<in> set syscall_table)"
      by (auto simp: syscall_table_def)
  qed
qed

text \<open>Every call that \<^verbatim>\<open>sys.c\<close> defines expands, and declares what the header declares.\<close>

definition declared :: "build_config \<Rightarrow> nat \<times> string \<times> params \<Rightarrow> bool" where
  "declared c = (\<lambda>(n, name, ps). 
     case SYSCALL_DEFINE n name ps of None \<Rightarrow> False | Some d \<Rightarrow> d \<in> set (declarations c))"

lemma in_prototypes1:
  "list_all (\<lambda>d. d \<in> set (prototypes1 c))
   [(''sys_setpriority'', [Base C_int, Base C_int, Base C_int]),
    (''sys_getpriority'', [Base C_int, Base C_int]),
    (''sys_setregid'', [Typedef ''gid_t'', Typedef ''gid_t'']), (''sys_setgid'', [Typedef ''gid_t'']),
    (''sys_setreuid'', [Typedef ''uid_t'', Typedef ''uid_t'']), (''sys_setuid'', [Typedef ''uid_t'']),
    (''sys_setresuid'', [Typedef ''uid_t'', Typedef ''uid_t'', Typedef ''uid_t'']),
    (''sys_getresuid'', [Base C_pointer, Base C_pointer, Base C_pointer]),
    (''sys_setresgid'', [Typedef ''gid_t'', Typedef ''gid_t'', Typedef ''gid_t'']),
    (''sys_getresgid'', [Base C_pointer, Base C_pointer, Base C_pointer]),
    (''sys_setfsuid'', [Typedef ''uid_t'']), (''sys_setfsgid'', [Typedef ''gid_t'']), (''sys_getpid'', []),
    (''sys_gettid'', []), (''sys_getppid'', []), (''sys_getuid'', []), (''sys_geteuid'', []),
    (''sys_getgid'', []), (''sys_getegid'', []), (''sys_times'', [Base C_pointer]),
    (''sys_setpgid'', [Typedef ''pid_t'', Typedef ''pid_t'']), (''sys_getpgid'', [Typedef ''pid_t'']),
    (''sys_getpgrp'', []), (''sys_getsid'', [Typedef ''pid_t'']), (''sys_setsid'', [])]"
  unfolding prototypes1_def list_all_Nil_iff list_all_Cons_iff simp_thms set_append by (intro conjI; rule UnI1, (rule list.set_intros)+)

lemma in_prototypes4:
  "list_all (\<lambda>d. d \<in> set (prototypes4 c))
   [(''sys_newuname'', [Base C_pointer]), (''sys_uname'', [Base C_pointer]),
    (''sys_olduname'', [Base C_pointer]), (''sys_sethostname'', [Base C_pointer, Base C_int]),
    (''sys_gethostname'', [Base C_pointer, Base C_int]), (''sys_setdomainname'', [Base C_pointer, Base C_int]),
    (''sys_getrlimit'', [Base C_uint, Base C_pointer])]"
  unfolding prototypes4_def list_all_Nil_iff list_all_Cons_iff simp_thms set_append by (intro conjI; rule UnI1, (rule list.set_intros)+)

lemma in_prototypes5:
  "list_all (\<lambda>d. d \<in> set prototypes5)
   [(''sys_prlimit64'', [Typedef ''pid_t'', Base C_uint, Base C_pointer, Base C_pointer]),
    (''sys_setrlimit'', [Base C_uint, Base C_pointer]), (''sys_getrusage'', [Base C_int, Base C_pointer]),
    (''sys_umask'', [Base C_int]),
    (''sys_prctl'', [Base C_int, Base C_ulong, Base C_ulong, Base C_ulong, Base C_ulong]),
    (''sys_sysinfo'', [Base C_pointer])]"
  unfolding prototypes5_def list_all_Nil_iff list_all_Cons_iff simp_thms set_append by (intro conjI; (rule list.set_intros)+)

lemma in_prototypes6:
  "list_all (\<lambda>d. d \<in> set (prototypes6 c))
   [(''sys_viks_hello'', []), (''sys_my_sort'', [Base C_pointer, Typedef ''size_t'', Base C_pointer]),
    (''sys_getcpu'', [Base C_pointer, Base C_pointer, Base C_pointer])]"
  unfolding prototypes6_def list_all_Nil_iff list_all_Cons_iff simp_thms set_append
  by (intro conjI, rule UnI2, rule UnI2, (rule list.set_intros)+, rule UnI2, rule UnI2, (rule list.set_intros)+,
      rule UnI1, (rule list.set_intros)+)

lemma in_old_getrlimit:
  "old_getrlimit_wanted c \<Longrightarrow> (''sys_old_getrlimit'', [Base C_uint, Base C_pointer]) \<in> set (prototypes4 c)"
  unfolding prototypes4_def set_append by (rule UnI2, simp)

lemma heads_declared: "list_all (declared c) (heads c)"
  using in_prototypes1 [of c] in_prototypes4 [of c] in_prototypes5 in_prototypes6 [of c] in_old_getrlimit [of c]
  by (simp add: heads_def declared_def SYSCALL_DEFINE_def SYSCALL_DEFINEx_def declarations_def eval_nat_numeral)

section \<open>Ids by number\<close>

lemma table_ascends: "sorted_wrt (<) (List.map fst syscall_table)"
  by (simp add: syscall_table_def table1_def table2_def table3_def sorted_wrt1 sorted_wrt2 del: sorted_wrt.simps)

lemma handler_of:
  assumes "(nr, a, name, f, old) \<in> set syscall_table" "a \<noteq> Oabi"
  shows "handler nr = f"
proof (cases "find (\<lambda>(n, a, name, f, old). n = nr \<and> a \<noteq> Oabi) syscall_table")
  case None
  then show ?thesis using assms by (auto simp: find_None_iff)
next
  case (Some e)
  then have e: "e \<in> set syscall_table" "fst e = nr" by (auto simp: find_Some_iff intro: nth_mem)
  have "distinct (List.map fst syscall_table)" using table_ascends by (simp add: strict_sorted_iff)
  moreover obtain rest where "e = (nr, rest)" using e(2) by (cases e) simp
  ultimately have "e = (nr, a, name, f, old)" using e(1) assms(1) by (auto dest: eq_key_imp_eq_value)
  with Some show ?thesis by (simp add: handler_def)
qed

lemma id_entries_in_table:
  "list_all (\<lambda>e. e \<in> set syscall_table)
   [(199, Common, ''getuid32'', Some ''sys_getuid'', None), (200, Common, ''getgid32'', Some ''sys_getgid'', None),
    (201, Common, ''geteuid32'', Some ''sys_geteuid'', None), (202, Common, ''getegid32'', Some ''sys_getegid'', None),
    (203, Common, ''setreuid32'', Some ''sys_setreuid'', None), (204, Common, ''setregid32'', Some ''sys_setregid'', None),
    (208, Common, ''setresuid32'', Some ''sys_setresuid'', None), (209, Common, ''getresuid32'', Some ''sys_getresuid'', None),
    (210, Common, ''setresgid32'', Some ''sys_setresgid'', None), (211, Common, ''getresgid32'', Some ''sys_getresgid'', None),
    (213, Common, ''setuid32'', Some ''sys_setuid'', None), (214, Common, ''setgid32'', Some ''sys_setgid'', None),
    (215, Common, ''setfsuid32'', Some ''sys_setfsuid'', None), (216, Common, ''setfsgid32'', Some ''sys_setfsgid'', None)]"
  unfolding syscall_table_def table2_def list_all_Nil_iff list_all_Cons_iff simp_thms set_append
  by (intro conjI; rule UnI2, rule UnI1, (rule list.set_intros)+)

lemma sort_in_table: "(399, Common, ''my_sort'', Some ''sys_my_sort'', None) \<in> set syscall_table"
  unfolding syscall_table_def table3_def set_append by (rule UnI2, rule UnI2, (rule list.set_intros)+)

lemma id_calls_answer:
  assumes "nr \<in> {199, 200, 201, 202, 203, 204, 208, 209, 210, 211, 213, 214, 215, 216}"
  shows "svc_ids p k nr regs s \<noteq> None"
proof -
  obtain a name f old where e: "(nr, a, name, Some f, old) \<in> set syscall_table" "a \<noteq> Oabi"
    and f: "map_of (id_entries p k) f \<noteq> None"
    using assms id_entries_in_table by (auto simp: list_all_Cons_iff id_entries_def)
  from f obtain g where "map_of (id_entries p k) f = Some g" by blast
  with handler_of [OF e] have "svc_ids p k nr regs s = Some (g regs s)" by (simp add: svc_ids_def)
  then show ?thesis by simp
qed

lemma is_call:
  "\<exists>c. snd (setregid k x y t) = do_call k c t" "\<exists>c. snd (setgid k x t) = do_call k c t"
  "\<exists>c. snd (setreuid k x y t) = do_call k c t" "\<exists>c. snd (setuid k x t) = do_call k c t"
  "\<exists>c. snd (setresuid k x y z t) = do_call k c t" "\<exists>c. snd (setresgid k x y z t) = do_call k c t"
  "\<exists>c. snd (setfsuid k x t) = do_call k c t" "\<exists>c. snd (setfsgid k x t) = do_call k c t"
  by (metis do_call.simps)+

lemma svc_ids_call:
  assumes "svc_ids p k nr regs (t, m) = Some (r, t', m')"
  shows "t' = t \<or> (\<exists>c. t' = do_call k c t)"
proof -
  obtain f e where "handler nr = Some f" and e: "map_of (id_entries p k) f = Some e" "e regs (t, m) = (r, t', m')"
    using assms by (auto simp: svc_ids_def Option.bind_eq_Some_conv)
  from map_of_SomeD [OF e(1)] e(2) show ?thesis
    by (auto simp: id_entries_def SyS_def with_task_def with_memory_def case_prod_unfold is_call)
qed

text \<open>A run of such calls changes the task like a sequence of identity calls.\<close>

lemma svc_run_calls:
  "svc_run p k calls (t, m) = Some (t', m') \<Longrightarrow> \<exists>cs. t' = fold (do_call k) cs t"
proof (induction calls arbitrary: t m)
  case Nil
  then show ?case by (intro exI [of _ "[]"]) simp
next
  case (Cons call calls)
  obtain nr regs where call: "call = (nr, regs)" by fastforce
  with Cons.prems obtain r t1 m1 where one: "svc_ids p k nr regs (t, m) = Some (r, t1, m1)"
    and rest: "svc_run p k calls (t1, m1) = Some (t', m')" by (auto simp: Option.bind_eq_Some_conv)
  from Cons.IH [OF rest] obtain cs where cs: "t' = fold (do_call k) cs t1" ..
  from svc_ids_call [OF one] show ?case
  proof
    assume "\<exists>c. t1 = do_call k c t"
    then obtain c where "t1 = do_call k c t" ..
    with cs show ?thesis by (intro exI [of _ "c # cs"]) simp
  qed (use cs in blast)
qed

text \<open>So in any run of these calls, with any contents of the registers, a task without CAP_SETUID and CAP_SETGID gains
  no identity: its real, effective and saved ids stay within those it had, its file system ids within these and the
  ones it had.\<close>

lemma no_gain_by_number:
  assumes "powerless k CAP_SETUID t" "powerless k CAP_SETGID t" "svc_run p k calls (t, m) = Some (t', m')"
  shows "uids t' \<subseteq> uids t \<and> fsuid (cred t') \<in> insert (fsuid (cred t)) (uids t)
    \<and> gids t' \<subseteq> gids t \<and> fsgid (cred t') \<in> insert (fsgid (cred t)) (gids t)"
proof -
  obtain cs where "t' = fold (do_call k) cs t" using svc_run_calls [OF assms(3)] ..
  then show ?thesis using creds_never_gain [OF assms(1,2), of cs] by (simp add: id_calls_def)
qed

text \<open>How a register holds an id and an address on ARM.\<close>

definition id_of :: "int \<Rightarrow> 32 word" where
  "id_of r = word_of_int r"

definition address_of :: "int \<Rightarrow> addr" where
  "address_of r = nat (r mod 2 ^ 32)"

lemma id_casts:
  assumes "long_bytes p = 4" "typedefs p ''uid_t'' = C_uint" "typedefs p ''gid_t'' = C_uint"
  shows "word_of_int (sc_cast p uid_t r) = id_of r" "word_of_int (sc_cast p gid_t r) = id_of r"
    "nat (sc_cast p (Base C_pointer) r) = address_of r" "as_long p v = sint v"
  using assms sint_uint [of v]
  by (simp_all add: id_of_def address_of_def sc_cast_def size_of_def signed_def as_long_def take_bit_eq_mod
      word_of_int_eq_iff)

lemma id_handlers:
  "handler 199 = Some ''sys_getuid''" "handler 200 = Some ''sys_getgid''" "handler 201 = Some ''sys_geteuid''"
  "handler 202 = Some ''sys_getegid''" "handler 203 = Some ''sys_setreuid''" "handler 204 = Some ''sys_setregid''"
  "handler 208 = Some ''sys_setresuid''" "handler 209 = Some ''sys_getresuid''" "handler 210 = Some ''sys_setresgid''"
  "handler 211 = Some ''sys_getresgid''" "handler 213 = Some ''sys_setuid''" "handler 214 = Some ''sys_setgid''"
  "handler 215 = Some ''sys_setfsuid''" "handler 216 = Some ''sys_setfsgid''"
  using id_entries_in_table handler_of by (auto simp: list_all_Cons_iff)

text \<open>C24: What each of the fourteen numbers of the calls on ids does on 32 bit ARM, for any contents of the registers: the table
  leads to the function, its macro casts every register to the argument type (an id is the lower 32 bits, an
  address is the register), the body is the one of \<open>Creds\<close>, and an id as the result comes back as a \<^verbatim>\<open>long\<close> with the same
  32 bits. \<^verbatim>\<open>uid_t\<close> and \<^verbatim>\<open>gid_t\<close> are unsigned, as the kernel's headers define them.\<close>

theorem id_calls_by_number:
  assumes "long_bytes p = 4" "typedefs p ''uid_t'' = C_uint" "typedefs p ''gid_t'' = C_uint"
  shows "svc_ids p k 199 [] (t, m) = Some (sint (getuid k t), t, m)
    \<and> svc_ids p k 200 [] (t, m) = Some (sint (getgid k t), t, m)
    \<and> svc_ids p k 201 [] (t, m) = Some (sint (geteuid k t), t, m)
    \<and> svc_ids p k 202 [] (t, m) = Some (sint (getegid k t), t, m)
    \<and> svc_ids p k 203 [a, b] (t, m) = Some (with_task (setreuid k (id_of a) (id_of b) t) m)
    \<and> svc_ids p k 204 [a, b] (t, m) = Some (with_task (setregid k (id_of a) (id_of b) t) m)
    \<and> svc_ids p k 208 [a, b, c] (t, m) = Some (with_task (setresuid k (id_of a) (id_of b) (id_of c) t) m)
    \<and> svc_ids p k 209 [a, b, c] (t, m)
        = Some (with_memory (getresuid k (address_of a) (address_of b) (address_of c) t m) t)
    \<and> svc_ids p k 210 [a, b, c] (t, m) = Some (with_task (setresgid k (id_of a) (id_of b) (id_of c) t) m)
    \<and> svc_ids p k 211 [a, b, c] (t, m)
        = Some (with_memory (getresgid k (address_of a) (address_of b) (address_of c) t m) t)
    \<and> svc_ids p k 213 [a] (t, m) = Some (with_task (setuid k (id_of a) t) m)
    \<and> svc_ids p k 214 [a] (t, m) = Some (with_task (setgid k (id_of a) t) m)
    \<and> svc_ids p k 215 [a] (t, m) = Some (sint (fst (setfsuid k (id_of a) t)), snd (setfsuid k (id_of a) t), m)
    \<and> svc_ids p k 216 [a] (t, m) = Some (sint (fst (setfsgid k (id_of a) t)), snd (setfsgid k (id_of a) t), m)"
  using assms
  by (intro conjI; simp add: svc_ids_def id_handlers id_entries_def SyS_def id_casts with_task_def case_prod_unfold)

section \<open>The sort call by its number\<close>

text \<open>The number 399 that the clients use leads to \<open>my_sort\<close>, which the header declares with the types of its
  definition; it gets the two addresses and the size that the caller put into registers of 32 bits.\<close>

lemma sort_by_number:
  assumes "standard_types p" "long_bytes p = 4" "src < 2 ^ 32" "dst < 2 ^ 32"
    and "r0 mod 2 ^ 32 = int src" "r1 mod 2 ^ 32 = uint n" "r2 mod 2 ^ 32 = int dst"
  shows "handler 399 = Some ''sys_my_sort''
    \<and> (''sys_my_sort'', [Base C_pointer, Typedef ''size_t'', Base C_pointer]) \<in> set (declarations c)
    \<and> sys_my_sort p api s [r0, r1, r2] = my_sort api s src n dst"
proof (intro conjI)
  show "handler 399 = Some ''sys_my_sort''" by (rule handler_of [OF sort_in_table]) simp
  show "(''sys_my_sort'', [Base C_pointer, Typedef ''size_t'', Base C_pointer]) \<in> set (declarations c)"
    using in_prototypes6 [of c] by (simp add: declarations_def)
  have "sc_cast p (Base C_pointer) r0 = int src" "sc_cast p (Base C_pointer) r2 = int dst"
    using assms by (simp_all add: sc_cast_def size_of_def signed_def take_bit_eq_mod)
  moreover have "typedefs p ''size_t'' = C_uint \<or> typedefs p ''size_t'' = C_ulong"
    using assms(1) by (simp add: standard_types_def)
  then have "sc_cast p (Typedef ''size_t'') r1 = uint n"
    using assms(2,6) by (elim disjE) (simp_all add: sc_cast_def size_of_def signed_def take_bit_eq_mod)
  ultimately show "sys_my_sort p api s [r0, r1, r2] = my_sort api s src n dst"
    by (simp add: sys_my_sort_def SyS_def)
qed

section \<open>Coming back to the user\<close>

text \<open>After the check the user runs with his own address limit, or is killed, or there was no check to make.\<close>

lemma back_to_user:
  "addr_limit_user_check has_flag bug s = Some s' \<Longrightarrow>
     user_limit s' \<or> killed s' \<or> has_flag \<and> \<not> tif_fscheck s"
  by (auto simp: addr_limit_user_check_def Let_def split: if_splits)

section \<open>Examples\<close>

definition arm :: platform where
  "arm = \<lparr>long_bytes = 4, typedefs = \<lambda>s. if s = ''loff_t'' then C_llong else if s = ''u64'' then C_ullong else C_uint\<rparr>"

lemma arm_standard: "standard_types arm" "long_bytes arm = 4"
  by (simp_all add: standard_types_def arm_def)

text \<open>A machine with registers of 64 bits: the upper half of a register does not reach \<open>setuid\<close>.\<close>

definition wide_platform :: platform where
  "wide_platform = \<lparr>long_bytes = 8, typedefs = \<lambda>s. if s = ''loff_t'' then C_llong else if s = ''u64'' then C_ullong else C_uint\<rparr>"

theorem body_gets_its_types_witness:
  "SyS wide_platform [uid_t] (\<lambda>as. as) [5 * 2 ^ 32 + 7] = [7]"
proof -
  have "0 < long_bytes wide_platform" "length [5 * 2 ^ 32 + 7 :: int] = length [uid_t]" by (simp_all add: wide_platform_def)
  from body_gets_its_types [OF this, of "\<lambda>as. as"] obtain as where
    as: "SyS wide_platform [uid_t] (\<lambda>as. as) [5 * 2 ^ 32 + 7] = as"
    and eq: "\<And>xs. length xs = length [uid_t] \<and> (\<forall>i < length [uid_t]. in_range wide_platform ([uid_t] ! i) (xs ! i)
       \<and> [5 * 2 ^ 32 + 7] ! i mod 2 ^ (8 * size_of wide_platform ([uid_t] ! i))
          = xs ! i mod 2 ^ (8 * size_of wide_platform ([uid_t] ! i))) \<longrightarrow> as = xs"
    by (elim exE conjE) (rule that, assumption, elim allE, assumption)
  from eq [of "[7]"] as show ?thesis by (simp add: in_range_def size_of_def signed_def wide_platform_def)
qed

theorem calls_fit_registers_witness: "registers arm 0 [Base C_pointer, Typedef ''size_t'', Base C_pointer] \<le> 6"
proof -
  have "(''sys_my_sort'', [Base C_pointer, Typedef ''size_t'', Base C_pointer]) \<in> set (declarations c)" for c
    using in_prototypes6 [of c] by (simp add: declarations_def)
  from bspec [OF conjunct1 [OF calls_fit_registers [OF arm_standard]] this] show ?thesis by (simp add: too_wide_def)
qed

theorem id_calls_by_number_witness:
  "svc_ids arm demo_ids 213 [2 ^ 32 + 4] (demo_task {} 3 4, Map.empty)
     = Some (with_task (setuid demo_ids 4 (demo_task {} 3 4)) Map.empty)"
proof -
  have arm: "long_bytes arm = 4" "typedefs arm ''uid_t'' = C_uint" "typedefs arm ''gid_t'' = C_uint"
    by (simp_all add: arm_def)
  have "id_of (2 ^ 32 + 4) = 4" by (simp add: id_of_def word_of_int_eq_iff take_bit_eq_mod)
  with id_calls_by_number [OF arm, of demo_ids "demo_task {} 3 4" Map.empty "2 ^ 32 + 4"] show ?thesis by simp
qed

end
