(* ===== verification/Dispatch.thy ===== *)
theory Dispatch
  imports Machine SyscallEntry
begin

text \<open>
  From the registers of a task to the state of the system: the number leads over the table to a
  function, the function that \<^verbatim>\<open>SYSCALL_DEFINEx\<close> defines casts the registers, and the call does to
  \<open>Machine\<close> what its theory says. This joins \<open>SyscallEntry\<close> and \<open>Machine\<close> for the calls of \<^verbatim>\<open>sys.c\<close> that
  change ids, groups, sessions, priorities and limits.

  What a pointer leads to in the memory of the caller is a parameter of each call, since other tasks can change it
  between two calls.
\<close>

record 'l user_memory =
  rlimit_at :: "addr \<Rightarrow> 'l rlimit uptr"
  rlimit64_at :: "addr \<Rightarrow> 64 word rlimit uptr"
  result_at :: "addr \<Rightarrow> unit uptr"

abbreviation pid_t :: ctype where "pid_t \<equiv> Typedef ''pid_t''"

definition call_entries :: "platform \<Rightarrow> 'l::len word user_memory \<Rightarrow> (string \<times> (int list \<Rightarrow> 'l word call)) list" where
  "call_entries p u = [
     (''sys_setpriority'', SyS p [Base C_int, Base C_int, Base C_int] (\<lambda>as. Nice (as ! 0) (as ! 1) (as ! 2))),
     (''sys_setregid'', SyS p [gid_t, gid_t] (\<lambda>as. Identity (Setregid (arg as 0) (arg as 1)))),
     (''sys_setgid'', SyS p [gid_t] (\<lambda>as. Identity (Setgid (arg as 0)))),
     (''sys_setreuid'', SyS p [uid_t, uid_t] (\<lambda>as. Identity (Setreuid (arg as 0) (arg as 1)))),
     (''sys_setuid'', SyS p [uid_t] (\<lambda>as. Identity (Setuid (arg as 0)))),
     (''sys_setresuid'', SyS p [uid_t, uid_t, uid_t] (\<lambda>as. Identity (Setresuid (arg as 0) (arg as 1) (arg as 2)))),
     (''sys_setresgid'', SyS p [gid_t, gid_t, gid_t] (\<lambda>as. Identity (Setresgid (arg as 0) (arg as 1) (arg as 2)))),
     (''sys_setfsuid'', SyS p [uid_t] (\<lambda>as. Identity (Setfsuid (arg as 0)))),
     (''sys_setfsgid'', SyS p [gid_t] (\<lambda>as. Identity (Setfsgid (arg as 0)))),
     (''sys_setpgid'', SyS p [pid_t, pid_t] (\<lambda>as. Group (as ! 0) (as ! 1))),
     (''sys_setsid'', SyS p [] (\<lambda>as. Session)),
     (''sys_getrlimit'', SyS p [Base C_uint, Base C_pointer]
        (\<lambda>as. Limits (Getrlimit (nat (as ! 0)) (result_at u (ptr as 1))))),
     (''sys_setrlimit'', SyS p [Base C_uint, Base C_pointer]
        (\<lambda>as. Limits (Setrlimit (nat (as ! 0)) (rlimit_at u (ptr as 1))))),
     (''sys_prlimit64'', SyS p [pid_t, Base C_uint, Base C_pointer, Base C_pointer]
        (\<lambda>as. Limits (Prlimit64 (as ! 0) (nat (as ! 1)) (rlimit64_at u (ptr as 2)) (result_at u (ptr as 3)))))]"

text \<open>What a task puts into its registers, and the memory it has then.\<close>

record 'l trap =
  task_no :: nat
  number :: nat
  regs :: "int list"
  memory :: "'l user_memory"

definition decode :: "platform \<Rightarrow> 'l::len word trap \<Rightarrow> (nat \<times> 'l word call) option" where
  "decode p t = do {
     f \<leftarrow> handler (number t);
     d \<leftarrow> map_of (call_entries p (memory t)) f;
     Some (task_no t, d (regs t))
   }"

text \<open>A run; \<open>None\<close> when a number leads to a call outside this model.\<close>

fun traps :: "platform \<Rightarrow> ('x, 'l::len word) system \<Rightarrow> 'l word trap list \<Rightarrow> ('x, 'l word) machine
    \<Rightarrow> ('x, 'l word) machine option" where
  "traps p k [] m = Some m"
| "traps p k (t # ts) m = do { (c, call) \<leftarrow> decode p t; traps p k ts (sys_call k c call m) }"

lemma traps_calls:
  "traps p k ts m = Some m' \<Longrightarrow> \<exists>calls. m' = sys_calls k calls m \<and> List.map fst calls = List.map task_no ts"
proof (induction ts arbitrary: m)
  case Nil
  then show ?case by (simp add: sys_calls_def)
next
  case (Cons t ts)
  then obtain call where d: "decode p t = Some (task_no t, call)"
    and rest: "traps p k ts (sys_call k (task_no t) call m) = Some m'"
    by (auto simp: Option.bind_eq_Some_conv decode_def)
  from Cons.IH [OF rest] obtain calls where "m' = sys_calls k calls (sys_call k (task_no t) call m)"
    "List.map fst calls = List.map task_no ts" by blast
  then show ?case by (intro exI [of _ "(task_no t, call) # calls"]) (simp add: sys_calls_def)
qed

lemma sys_calls_confined: "confined k U (credentials m q) \<Longrightarrow> confined k U (credentials (sys_calls k calls m) q)"
  by (induction calls arbitrary: m) (auto simp: sys_calls_def sys_call_confined)

text \<open>The numbers of these calls on ARM.\<close>

lemma call_entries_in_table:
  "list_all (\<lambda>e. e \<in> set syscall_table)
   [(57, Common, ''setpgid'', Some ''sys_setpgid'', None), (66, Common, ''setsid'', Some ''sys_setsid'', None),
    (75, Common, ''setrlimit'', Some ''sys_setrlimit'', None), (97, Common, ''setpriority'', Some ''sys_setpriority'', None)]"
  unfolding syscall_table_def table1_def list_all_Cons_iff list_all_Nil_iff simp_thms set_append
  by (intro conjI; rule UnI1, (rule list.set_intros)+)

lemma limit_entries_in_table:
  "(191, Common, ''ugetrlimit'', Some ''sys_getrlimit'', None) \<in> set syscall_table"
  "(369, Common, ''prlimit64'', Some ''sys_prlimit64'', None) \<in> set syscall_table"
  unfolding syscall_table_def table2_def table3_def set_append
  by (rule UnI2, rule UnI1, (rule list.set_intros)+) (rule UnI2, rule UnI2, (rule list.set_intros)+)

lemma decode_defined:
  assumes "number t \<in> {57, 66, 75, 97, 191, 203, 204, 208, 210, 213, 214, 215, 216, 369}"
  shows "decode p t \<noteq> None"
proof -
  obtain a name f old where e: "(number t, a, name, Some f, old) \<in> set syscall_table" "a \<noteq> Oabi"
    and f: "map_of (call_entries p (memory t)) f \<noteq> None"
    using assms id_entries_in_table call_entries_in_table limit_entries_in_table by (auto simp: list_all_Cons_iff call_entries_def)
  from f obtain d where "map_of (call_entries p (memory t)) f = Some d" by blast
  with handler_of [OF e] show ?thesis by (simp add: decode_def)
qed

lemma traps_defined: "\<forall>t \<in> set ts. decode p t \<noteq> None \<Longrightarrow> traps p k ts m \<noteq> None"
  by (induction ts arbitrary: m) auto

text \<open>C23: Users are isolated from each other, from the registers on. Any number of tasks enter the kernel in any order with any
  registers, for any of the fourteen calls that change ids, groups, sessions, priorities and limits (by their numbers on
  ARM); every such run has a result. If the tasks do not have CAP_SETUID, CAP_SYS_NICE and CAP_SYS_RESOURCE and their user ids lie in
  \<open>U\<close> to begin with, then their user ids stay in \<open>U\<close>, and a process keeps its nice values, its resource limits and its
  credentials when none of its threads is among the tasks, has its real or effective user id in \<open>U\<close>, or is inside a
  user namespace that a user of \<open>U\<close> owns. Capabilities in a namespace follow the documented rules, by which its owner
  has all of them (\<open>userns_rules\<close>).\<close>

theorem isolated_by_number:
  assumes "userns_rules k" "\<forall>t \<in> set ts. confined k U (credentials m (task_no t))"
    and "\<forall>t \<in> set ts. number t \<in> {57, 66, 75, 97, 191, 203, 204, 208, 210, 213, 214, 215, 216, 369}"
    and "\<forall>q. process_of m q = process_of m v \<longrightarrow> untouched_thread k (task_no ` set ts) U q (cred_of m q)"
  shows "\<exists>m'. traps p k ts m = Some m'
    \<and> niceness m' v = niceness m v \<and> rlims m' (process_of m v) = rlims m (process_of m v)
    \<and> credentials m' v = credentials m v \<and> (\<forall>t \<in> set ts. uids (credentials m' (task_no t)) \<subseteq> U)"
proof -
  have "\<forall>t \<in> set ts. decode p t \<noteq> None" using assms(3) decode_defined by blast
  then obtain m' where run: "traps p k ts m = Some m'" using traps_defined by blast
  obtain calls where m': "m' = sys_calls k calls m" and callers: "List.map fst calls = List.map task_no ts"
    using traps_calls [OF run] by blast
  from arg_cong [OF callers, of set] have cs: "fst ` set calls = task_no ` set ts" by simp
  have "\<forall>c \<in> fst ` set calls. confined k U (credentials m c)" using assms(2) unfolding cs by blast
  then have "\<forall>(c, call) \<in> set calls. confined k U (credentials m c)" by force
  from users_isolated [OF assms(1) this] assms(4)
  have "niceness m' v = niceness m v \<and> rlims m' (process_of m v) = rlims m (process_of m v)
    \<and> credentials m' v = credentials m v" unfolding m' cs by blast
  moreover have "\<forall>t \<in> set ts. uids (credentials m' (task_no t)) \<subseteq> U"
    using assms(2) sys_calls_confined [of k U m _ calls] unfolding m' confined_def by blast
  ultimately show ?thesis using run by blast
qed

section \<open>An example\<close>

definition no_memory :: "32 word user_memory" where
  "no_memory = \<lparr>rlimit_at = \<lambda>_. Bad, rlimit64_at = \<lambda>_. Good \<lparr>rlim_cur = 1, rlim_max = 1\<rparr>, result_at = \<lambda>_. Null\<rparr>"

definition demo_traps :: "32 word trap list" where
  "demo_traps = [\<lparr>task_no = 2, number = 213, regs = [0], memory = no_memory\<rparr>,
     \<lparr>task_no = 2, number = 97, regs = [0, 10, 15], memory = no_memory\<rparr>,
     \<lparr>task_no = 3, number = 369, regs = [10, 7, 5, 0], memory = no_memory\<rparr>]"

theorem isolated_by_number_witness:
  "\<exists>m'. traps arm demo_system demo_traps demo_machine = Some m' \<and> niceness m' 1 = 0
     \<and> rlims m' 1 = replicate 16 \<lparr>rlim_cur = 100, rlim_max = 500\<rparr> \<and> uids (credentials m' 2) \<subseteq> {1000}"
proof -
  have conf: "\<forall>t \<in> set demo_traps. confined demo_system {1000} (credentials demo_machine (task_no t))"
    by (simp add: demo_traps_def confined_def demo_system_def demo_machine_def powerless_def demo_lsm uids_def demo_task_def)
  have nums: "\<forall>t \<in> set demo_traps. number t \<in> {57, 66, 75, 97, 191, 203, 204, 208, 210, 213, 214, 215, 216, 369}"
    by (simp add: demo_traps_def)
  have victim: "\<forall>q. process_of demo_machine q = process_of demo_machine 1 \<longrightarrow>
      untouched_thread demo_system (task_no ` set demo_traps) {1000} q (cred_of demo_machine q)"
    by (simp add: untouched_thread_def lies_in_demo demo_ns)
      (simp add: process_of_def demo_machine_def job_state_def leader_of_def shell_task_def child_task_def
        demo_traps_def cred_of_def demo_task_def)
  obtain m' where m': "traps arm demo_system demo_traps demo_machine = Some m'" "niceness m' 1 = niceness demo_machine 1"
    "rlims m' (process_of demo_machine 1) = rlims demo_machine (process_of demo_machine 1)"
    "\<forall>t \<in> set demo_traps. uids (credentials m' (task_no t)) \<subseteq> {1000}"
    using isolated_by_number [OF demo_userns conf nums victim, of arm] by blast
  from m'(4) have "uids (credentials m' 2) \<subseteq> {1000}" by (simp add: demo_traps_def)
  with m'(1-3) show ?thesis
    by (simp add: demo_machine_def process_of_def job_state_def leader_of_def shell_task_def)
qed

end
