(* ===== verification/Decimal.thy ===== *)
theory Decimal
  imports Prelude
begin

text \<open>
  Decimal numerals: \<open>dec n\<close> is what \<^verbatim>\<open>%u\<close> prints, \<open>digits_value 0\<close> the number that the digits at
  the front of a string stand for; reading a printed number gives it back.
\<close>

definition digit_value :: "char \<Rightarrow> int" where
  "digit_value c = int (of_char c) - 48"

definition is_digit :: "char \<Rightarrow> bool" where
  "is_digit c \<longleftrightarrow> 0 \<le> digit_value c \<and> digit_value c < 10"

fun digits_value :: "int \<Rightarrow> string \<Rightarrow> int" where
  "digits_value v [] = v"
| "digits_value v (c # s) = (if is_digit c then digits_value (10 * v + digit_value c) s else v)"

fun dec :: "nat \<Rightarrow> string" where
  "dec n = (if n < 10 then [char_of (48 + n)] else dec (n div 10) @ [char_of (48 + n mod 10)])"

declare dec.simps [simp del]

lemma digit_char: "n < 10 \<Longrightarrow> digit_value (char_of (48 + n)) = int n \<and> is_digit (char_of (48 + n))"
  by (simp add: digit_value_def is_digit_def)

lemma dec_digits: "c \<in> set (dec n) \<Longrightarrow> is_digit c"
proof (induction n rule: dec.induct)
  case (1 n)
  from "1.prems" show ?case
    by (subst (asm) dec.simps) (auto split: if_splits dest: "1.IH" simp: digit_char)
qed

lemma dec_not_Nil: "dec n \<noteq> []"
  by (subst dec.simps) simp

lemma digits_value_append:
  "(\<And>c. c \<in> set s \<Longrightarrow> is_digit c) \<Longrightarrow> digits_value v (s @ t) = digits_value (digits_value v s) t"
  by (induction s arbitrary: v) auto

lemma digits_value_dec: "digits_value 0 (dec n @ t) = digits_value (int n) t"
proof (induction n arbitrary: t rule: dec.induct)
  case (1 n)
  show ?case
  proof (cases "n < 10")
    case True
    then show ?thesis by (subst dec.simps) (simp add: digit_char)
  next
    case False
    then have "digits_value 0 (dec n @ t) = digits_value (int (n div 10)) (char_of (48 + n mod 10) # t)"
      by (subst dec.simps) (simp add: "1.IH")
    also have "\<dots> = digits_value (int n) t"
    proof -
      have "10 * int (n div 10) + int (n mod 10) = int n"
        by (metis mult_div_mod_eq of_nat_add of_nat_mult of_nat_numeral)
      with digit_char [of "n mod 10"] show ?thesis by simp
    qed
    finally show ?thesis .
  qed
qed

end
