(* ===== verification/Uts.thy ===== *)
theory Uts
  imports Decimal
begin

text \<open>
  The names of the system: \<^verbatim>\<open>override_release\<close>, \<^verbatim>\<open>newuname\<close>, \<^verbatim>\<open>uname\<close>, \<^verbatim>\<open>olduname\<close>, \<^verbatim>\<open>sethostname\<close>,
  \<^verbatim>\<open>gethostname\<close> and \<^verbatim>\<open>setdomainname\<close> of \<^verbatim>\<open>HW2_APES/PROBLEM5/system_call/sys.c\<close>.

  A field of \<open>struct new_utsname\<close> is a string of 65 bytes. The user's memory is a parameter: how it is
  read and written, and which addresses \<open>access_ok\<close> lets pass; so are the release and the version of the
  kernel, the personality of the caller, the machine name for 32 bit callers and the capability
  check. The calls hold the lock of the names.
\<close>

section \<open>State\<close>

record utsname =
  sysname :: string
  nodename :: string
  release :: string
  version :: string
  machine :: string
  domainname :: string

datatype uts_proc = UTS_PROC_HOSTNAME | UTS_PROC_DOMAINNAME

record 'u uts =
  names :: utsname
  umem :: 'u
  notified :: "uts_proc list"

record 'u uts_api =
  copy_from_user :: "'u \<Rightarrow> addr \<Rightarrow> nat \<Rightarrow> string option"
  copy_to_user :: "'u \<Rightarrow> addr \<Rightarrow> string \<Rightarrow> 'u \<times> nat"
  access_ok :: "addr \<Rightarrow> nat \<Rightarrow> bool"
  admin :: bool
  uname26 :: bool
  linux32 :: bool
  compat_machine :: "string option"
  uts_release :: string
  version_code :: nat

abbreviation NUL :: char where
  "NUL \<equiv> CHR 0x00"

definition UTS_LEN :: nat where "UTS_LEN = 64"
definition OLD_UTS_LEN :: nat where "OLD_UTS_LEN = 8"

section \<open>The release for programs that know Linux 2.6 only\<close>

text \<open>The text behind the version: from the third dot or the first other character on.\<close>

fun skip_version :: "nat \<Rightarrow> string \<Rightarrow> string" where
  "skip_version ndots [] = []"
| "skip_version ndots (c # rest) =
    (let ndots' = (if c = CHR ''.'' then Suc ndots else ndots) in
     if c = CHR ''.'' \<and> 3 \<le> ndots' then c # rest
     else if \<not> is_digit c \<and> c \<noteq> CHR ''.'' then c # rest
     else skip_version ndots' rest)"

text \<open>\<open>scnprintf\<close> with a buffer of \<open>n\<close> bytes writes at most \<open>n - 1\<close> characters; the rest of the buffer
  is 0.\<close>

definition release26 :: "'u uts_api \<Rightarrow> string" where
  "release26 k = ''2.6.'' @ dec ((version_code k div 2 ^ 8) mod 2 ^ 8 + 60) @ skip_version 0 (uts_release k)"

definition override_release :: "'u uts_api \<Rightarrow> addr \<Rightarrow> nat \<Rightarrow> 'u \<Rightarrow> 'u \<times> nat" where
  "override_release k p len m =
    (if uname26 k then
       let copy = max 1 (min len 65);
           printed = take (copy - 1) (release26 k)
       in copy_to_user k m p (printed @ [NUL])
     else (m, 0))"

definition override_architecture :: "'u uts_api \<Rightarrow> addr \<Rightarrow> 'u \<Rightarrow> 'u \<times> nat" where
  "override_architecture k p m =
    (case compat_machine k of
       None \<Rightarrow> (m, 0)
     | Some mach \<Rightarrow> if linux32 k then copy_to_user k m p (mach @ [NUL]) else (m, 0))"

section \<open>The calls\<close>

text \<open>The end that the uname calls share; \<open>rel\<close>, \<open>len\<close> and \<open>mach\<close> are the fields of the structure.\<close>

definition overrides :: "'u uts_api \<Rightarrow> addr \<Rightarrow> nat \<Rightarrow> addr \<Rightarrow> 'u \<Rightarrow> int \<times> 'u" where
  "overrides k rel len mach m =
    (let (m, left) = override_release k rel len m in
     if left \<noteq> 0 then (- EFAULT, m)
     else let (m, left) = override_architecture k mach m in
     if left \<noteq> 0 then (- EFAULT, m) else (0, m))"

definition newuname :: "'u uts_api \<Rightarrow> addr \<Rightarrow> 'u uts \<Rightarrow> int \<times> 'u uts" where
  "newuname k name s =
    (let u = names s;
         (m, left) = copy_to_user k (umem s) name
           (sysname u @ nodename u @ release u @ version u @ machine u @ domainname u) in
     if left \<noteq> 0 then (- EFAULT, s\<lparr>umem := m\<rparr>)
     else let (r, m) = overrides k (name + 2 * 65) 65 (name + 4 * 65) m in (r, s\<lparr>umem := m\<rparr>))"

definition uname :: "'u uts_api \<Rightarrow> addr \<Rightarrow> 'u uts \<Rightarrow> int \<times> 'u uts" where
  "uname k name s =
    (if name = 0 then (- EFAULT, s)
     else
       let u = names s;
           (m, left) = copy_to_user k (umem s) name (sysname u @ nodename u @ release u @ version u @ machine u) in
       if left \<noteq> 0 then (- EFAULT, s\<lparr>umem := m\<rparr>)
       else let (r, m) = overrides k (name + 2 * 65) 65 (name + 4 * 65) m in (r, s\<lparr>umem := m\<rparr>))"

text \<open>\<open>olduname\<close> copies field by field and collects the errors.\<close>

fun put_fields :: "'u uts_api \<Rightarrow> addr \<Rightarrow> string list \<Rightarrow> 'u \<times> bool \<Rightarrow> 'u \<times> bool" where
  "put_fields k p [] (m, error) = (m, error)"
| "put_fields k p (f # fs) (m, error) =
    (let (m, left) = copy_to_user k m p (take OLD_UTS_LEN f);
         (m, left') = copy_to_user k m (p + OLD_UTS_LEN) [NUL]
     in put_fields k (p + OLD_UTS_LEN + 1) fs (m, error \<or> left \<noteq> 0 \<or> left' \<noteq> 0))"

definition olduname :: "'u uts_api \<Rightarrow> addr \<Rightarrow> 'u uts \<Rightarrow> int \<times> 'u uts" where
  "olduname k name s =
    (if name = 0 then (- EFAULT, s)
     else if \<not> access_ok k name (5 * (OLD_UTS_LEN + 1)) then (- EFAULT, s)
     else
       let u = names s;
           (m, error) = put_fields k name [sysname u, nodename u, release u, version u, machine u] (umem s, False) in
       if error then (- EFAULT, s\<lparr>umem := m\<rparr>)
       else let (m, left) = override_architecture k (name + 4 * (OLD_UTS_LEN + 1)) m in
       if left \<noteq> 0 then (- EFAULT, s\<lparr>umem := m\<rparr>)
       else let (m, left) = override_release k (name + 2 * (OLD_UTS_LEN + 1)) (OLD_UTS_LEN + 1) m in
       if left \<noteq> 0 then (- EFAULT, s\<lparr>umem := m\<rparr>) else (0, s\<lparr>umem := m\<rparr>))"

text \<open>The first \<open>len\<close> bytes of a field are the new name, the others 0.\<close>

definition new_name :: "string \<Rightarrow> string" where
  "new_name tmp = tmp @ replicate (UTS_LEN + 1 - length tmp) NUL"

definition sethostname :: "'u uts_api \<Rightarrow> addr \<Rightarrow> int \<Rightarrow> 'u uts \<Rightarrow> int \<times> 'u uts" where
  "sethostname k name len s =
    (if \<not> admin k then (- EPERM, s)
     else if len < 0 \<or> len > int UTS_LEN then (- EINVAL, s)
     else (case copy_from_user k (umem s) name (nat len) of
         None \<Rightarrow> (- EFAULT, s)
       | Some tmp \<Rightarrow> (0, s\<lparr>names := (names s)\<lparr>nodename := new_name tmp\<rparr>,
           notified := notified s @ [UTS_PROC_HOSTNAME]\<rparr>)))"

definition setdomainname :: "'u uts_api \<Rightarrow> addr \<Rightarrow> int \<Rightarrow> 'u uts \<Rightarrow> int \<times> 'u uts" where
  "setdomainname k name len s =
    (if \<not> admin k then (- EPERM, s)
     else if len < 0 \<or> len > int UTS_LEN then (- EINVAL, s)
     else (case copy_from_user k (umem s) name (nat len) of
         None \<Rightarrow> (- EFAULT, s)
       | Some tmp \<Rightarrow> (0, s\<lparr>names := (names s)\<lparr>domainname := new_name tmp\<rparr>,
           notified := notified s @ [UTS_PROC_DOMAINNAME]\<rparr>)))"

text \<open>\<open>strlen\<close> leaves the field when it holds no 0.\<close>

definition strlen :: "string \<Rightarrow> nat option" where
  "strlen f = (if NUL \<in> set f then Some (length (takeWhile (\<lambda>c. c \<noteq> NUL) f)) else None)"

definition gethostname :: "'u uts_api \<Rightarrow> addr \<Rightarrow> int \<Rightarrow> 'u uts \<Rightarrow> (int \<times> 'u uts) option" where
  "gethostname k name len s =
    (if len < 0 then Some (- EINVAL, s)
     else do {
       n \<leftarrow> strlen (nodename (names s));
       let i = (if 1 + int n > len then len else 1 + int n);
       let (m, left) = copy_to_user k (umem s) name (take (nat i) (nodename (names s)));
       Some (if left \<noteq> 0 then - EFAULT else 0, s\<lparr>umem := m\<rparr>)
     })"

section \<open>User memory\<close>

text \<open>What the calls rely on: a copy from the user has the length asked for, what was copied to the user
  completely can be read there, and other addresses keep their contents.\<close>

definition user_ok :: "'u uts_api \<Rightarrow> bool" where
  "user_ok k \<longleftrightarrow>
     (\<forall>m a n xs. copy_from_user k m a n = Some xs \<longrightarrow> length xs = n)
   \<and> (\<forall>m a xs m'. copy_to_user k m a xs = (m', 0) \<longrightarrow> copy_from_user k m' a (length xs) = Some xs)
   \<and> (\<forall>m a xs b n. b + n \<le> a \<or> a + length xs \<le> b \<longrightarrow>
        copy_from_user k (fst (copy_to_user k m a xs)) b n = copy_from_user k m b n)"

lemma user_okD:
  assumes "user_ok k"
  shows "copy_from_user k m a n = Some xs \<Longrightarrow> length xs = n"
    and "copy_to_user k m a xs = (m', 0) \<Longrightarrow> n = length xs \<Longrightarrow> copy_from_user k m' a n = Some xs"
    and "copy_to_user k m a xs = (m', l) \<Longrightarrow> b + n \<le> a \<or> a + length xs \<le> b \<Longrightarrow>
      copy_from_user k m' b n = copy_from_user k m b n"
  using assms unfolding user_ok_def by (blast, blast, metis fst_conv)

section \<open>The names stay terminated\<close>

definition field_ok :: "string \<Rightarrow> bool" where
  "field_ok f \<longleftrightarrow> length f = UTS_LEN + 1 \<and> NUL \<in> set f"

definition names_ok :: "utsname \<Rightarrow> bool" where
  "names_ok u \<longleftrightarrow> field_ok (sysname u) \<and> field_ok (nodename u) \<and> field_ok (release u) \<and> field_ok (version u)
     \<and> field_ok (machine u) \<and> field_ok (domainname u)"

lemma new_name_ok: "length tmp \<le> UTS_LEN \<Longrightarrow> field_ok (new_name tmp)"
  by (simp add: field_ok_def new_name_def)

lemma takeWhile_NUL: "NUL \<notin> set xs \<Longrightarrow> takeWhile (\<lambda>c. c \<noteq> NUL) (xs @ NUL # ys) = xs"
  by (subst takeWhile_append2) auto

lemma strlen_ok:
  assumes "field_ok f"
  obtains n where "strlen f = Some n" "n \<le> UTS_LEN"
proof -
  obtain xs ys where f: "f = xs @ NUL # ys" "NUL \<notin> set xs"
    using assms split_list_first [of NUL f] by (auto simp: field_ok_def)
  then have "strlen f = Some (length xs)" by (simp add: strlen_def takeWhile_NUL)
  moreover have "length xs \<le> UTS_LEN" using assms f(1) by (simp add: field_ok_def)
  ultimately show thesis using that by blast
qed

text \<open>Calls that change or read the names, in any order.\<close>

datatype uts_call = Sethostname addr int | Setdomainname addr int | Newuname addr | Uname addr | Olduname addr

primrec uts_step :: "'u uts_api \<Rightarrow> uts_call \<Rightarrow> 'u uts \<Rightarrow> 'u uts" where
  "uts_step k (Sethostname p n) s = snd (sethostname k p n s)"
| "uts_step k (Setdomainname p n) s = snd (setdomainname k p n s)"
| "uts_step k (Newuname p) s = snd (newuname k p s)"
| "uts_step k (Uname p) s = snd (uname k p s)"
| "uts_step k (Olduname p) s = snd (olduname k p s)"

lemma uname_names [simp]:
  "names (snd (newuname k p s)) = names s" "names (snd (uname k p s)) = names s" "names (snd (olduname k p s)) = names s"
  by (simp_all add: newuname_def uname_def olduname_def Let_def split: prod.split)

lemma names_ok_step:
  assumes "user_ok k" "names_ok (names s)"
  shows "names_ok (names (uts_step k call s))"
proof (cases call)
  case (Sethostname p n)
  have "length tmp \<le> UTS_LEN" if "copy_from_user k (umem s) p (nat n) = Some tmp" "\<not> n > int UTS_LEN" for tmp
    using user_okD(1) [OF assms(1) that(1)] that(2) by simp
  with Sethostname assms(2) show ?thesis
    by (auto simp: sethostname_def names_ok_def new_name_ok split: option.split)
next
  case (Setdomainname p n)
  have "length tmp \<le> UTS_LEN" if "copy_from_user k (umem s) p (nat n) = Some tmp" "\<not> n > int UTS_LEN" for tmp
    using user_okD(1) [OF assms(1) that(1)] that(2) by simp
  with Setdomainname assms(2) show ?thesis
    by (auto simp: setdomainname_def names_ok_def new_name_ok split: option.split)
qed (use assms(2) in simp_all)

interpretation names: call_invariant "uts_step k" "\<lambda>_. user_ok k" "\<lambda>s. names_ok (names s)" for k
  by unfold_locales (rule names_ok_step)

text \<open>Whatever calls set and read the names in whatever order, each name stays a field of 65 bytes with
  a terminating 0 in it, so \<open>gethostname\<close> never reads beyond its field.\<close>

lemma names_stay_terminated:
  assumes "user_ok k" "names_ok (names s)"
  shows "names_ok (names (fold (uts_step k) calls s)) \<and> (\<exists>r. gethostname k p len (fold (uts_step k) calls s) = Some r)"
proof -
  have ok: "names_ok (names (fold (uts_step k) calls s))"
    using assms by (intro names.run_keeps)
  then obtain n where "strlen (nodename (names (fold (uts_step k) calls s))) = Some n"
    using strlen_ok [of "nodename (names (fold (uts_step k) calls s))"] by (auto simp: names_ok_def)
  with ok show ?thesis by (simp add: gethostname_def Let_def split: prod.split)
qed

section \<open>The host name comes back\<close>

lemma new_name_eq:
  assumes "length tmp \<le> UTS_LEN"
  obtains m where "new_name tmp = (tmp @ [NUL]) @ replicate m NUL"
proof -
  obtain m where "UTS_LEN + 1 - length tmp = Suc m" using assms by (cases "UTS_LEN + 1 - length tmp") auto
  then have "new_name tmp = (tmp @ [NUL]) @ replicate m NUL" by (simp add: new_name_def)
  with that show thesis .
qed

lemma strlen_new_name:
  assumes "NUL \<notin> set tmp" "length tmp \<le> UTS_LEN"
  shows "strlen (new_name tmp) = Some (length tmp)"
proof (rule new_name_eq [OF assms(2)])
  fix m assume m: "new_name tmp = (tmp @ [NUL]) @ replicate m NUL"
  show ?thesis by (simp add: strlen_def m takeWhile_NUL assms(1))
qed

text \<open>C32: A name that \<open>sethostname\<close> has set, without a 0 in it, is what \<open>gethostname\<close> stores: with its
  terminator when the caller's buffer has room for that, and cut to the buffer otherwise.\<close>

theorem hostname_roundtrip:
  assumes "user_ok k" "sethostname k p len s = (0, s1)" "copy_from_user k (umem s) p (nat len) = Some tmp" "NUL \<notin> set tmp"
    and "gethostname k q n s1 = Some (0, s2)"
  shows "copy_from_user k (umem s2) q (min (nat n) (Suc (length tmp))) = Some (take (nat n) (tmp @ [NUL]))"
proof -
  have len: "length tmp = nat len" "length tmp \<le> UTS_LEN" and s1: "nodename (names s1) = new_name tmp" "umem s1 = umem s"
    using assms(2,3) user_okD(1) [OF assms(1,3)]
    by (auto simp: sethostname_def EPERM_def EINVAL_def split: if_splits)
  obtain m where m: "new_name tmp = (tmp @ [NUL]) @ replicate m NUL" using new_name_eq [OF len(2)] .
  define i where "i = (if 1 + int (length tmp) > n then n else 1 + int (length tmp))"
  have i: "nat i = min (nat n) (Suc (length tmp))" by (auto simp: i_def)
  have "\<not> n < 0" using assms(5) by (auto simp: gethostname_def EINVAL_def)
  then have copied: "copy_to_user k (umem s) q (take (nat i) (new_name tmp)) = (umem s2, 0)"
    using assms(5) strlen_new_name [OF assms(4) len(2)]
    by (auto simp: gethostname_def s1 i_def [symmetric] EFAULT_def split: prod.splits if_splits)
  have n: "min (nat n) (Suc (length tmp)) = length (take (nat i) (new_name tmp))" by (simp add: i m)
  have "take (nat i) (new_name tmp) = take (nat n) (tmp @ [NUL])"
    by (simp only: i m take_append) (simp add: min_def)
  with user_okD(2) [OF assms(1) copied n] show ?thesis by (simp only:)
qed

section \<open>The release that old programs see\<close>

lemma skip_digits: "(\<And>c. c \<in> set d \<Longrightarrow> is_digit c) \<Longrightarrow> skip_version n (d @ t) = skip_version n t"
proof (induction d)
  case (Cons c d)
  have "is_digit c" using Cons.prems [of c] by simp
  then have "c \<noteq> CHR ''.''" by (auto simp: is_digit_def digit_value_def)
  with \<open>is_digit c\<close> Cons show ?case by (simp add: Let_def)
qed simp

lemma skip_ext: "ext = [] \<or> \<not> is_digit (hd ext) \<Longrightarrow> skip_version 2 ext = ext"
  by (cases ext) (auto simp: Let_def)

lemma release26_eq:
  assumes "uts_release k = dec a @ ''.'' @ dec b @ ''.'' @ dec c @ ext" "ext = [] \<or> \<not> is_digit (hd ext)"
    and "version_code k = a * 2 ^ 16 + b * 2 ^ 8 + c" "b < 256" "c < 256"
  shows "release26 k = ''2.6.'' @ dec (60 + b) @ ext"
proof -
  have "version_code k div 2 ^ 8 = a * 2 ^ 8 + b" using assms(3,5) by simp
  then have v: "version_code k div 2 ^ 8 mod 2 ^ 8 + 60 = 60 + b" using assms(4) by simp
  have "skip_version 0 (uts_release k) = skip_version 2 ext"
    by (simp add: assms(1) skip_digits dec_digits Let_def numeral_2_eq_2)
  then show ?thesis using skip_ext [OF assms(2)] v by (simp add: release26_def add.commute)
qed

text \<open>For a program with the personality flag UNAME26, a kernel of version a.b.c with any suffix
  reports 2.6.(60+b) with the same suffix, cut to the field and terminated.\<close>

lemma uname26_release:
  assumes "user_ok k" "uname26 k" "newuname k p s = (0, s')"
    and "uts_release k = dec a @ ''.'' @ dec b @ ''.'' @ dec c @ ext" "ext = [] \<or> \<not> is_digit (hd ext)"
    and "version_code k = a * 2 ^ 16 + b * 2 ^ 8 + c" "b < 256" "c < 256" "r = take 64 (''2.6.'' @ dec (60 + b) @ ext)"
  shows "copy_from_user k (umem s') (p + 130) (length r + 1) = Some (r @ [NUL])"
proof -
  have rel: "override_release k q 65 m = copy_to_user k m q (r @ [NUL])" for q m
    using assms(2) by (simp add: override_release_def release26_eq [OF assms(4-8)] assms(9))
  have r: "length r \<le> 64" by (simp add: assms(9))
  obtain m where ov: "overrides k (p + 130) 65 (p + 260) m = (0, umem s')"
    using assms(3) by (auto simp: newuname_def Let_def EFAULT_def split: prod.splits if_splits)
  then obtain m1 where m1: "copy_to_user k m (p + 130) (r @ [NUL]) = (m1, 0)"
    and m2: "override_architecture k (p + 260) m1 = (umem s', 0)"
    by (auto simp: overrides_def rel EFAULT_def split: prod.splits if_splits)
  have "copy_from_user k (umem s') (p + 130) (length r + 1) = copy_from_user k m1 (p + 130) (length r + 1)"
    using m2 r user_okD(3) [OF assms(1), of m1 "p + 260" _ "umem s'" 0 "p + 130" "length r + 1"]
    by (auto simp: override_architecture_def split: option.splits if_splits)
  also have "\<dots> = Some (r @ [NUL])" by (rule user_okD(2) [OF assms(1) m1]) simp
  finally show ?thesis .
qed

section \<open>An example\<close>

lemma returns_zero: "fst r = 0 \<Longrightarrow> r = (0, snd r)"
  by (cases r) simp

lemma newuname_succeeds:
  assumes "\<And>m a xs. snd (copy_to_user k m a xs) = 0"
  shows "fst (newuname k p s) = 0"
proof -
  have "\<exists>m'. override_release k a n m = (m', 0)" "\<exists>m'. override_architecture k a m = (m', 0)"
    "\<exists>m'. copy_to_user k m a xs = (m', 0)" for a n m xs
    using assms by (auto simp: override_release_def override_architecture_def prod_eq_iff split: option.split)
  note z = this
  have "fst (overrides k a n b m) = 0" for a n b m
  proof -
    obtain m1 where "override_release k a n m = (m1, 0)" using z(1) by blast
    moreover obtain m2 where "override_architecture k b m1 = (m2, 0)" using z(2) by blast
    ultimately show ?thesis by (simp add: overrides_def)
  qed
  then show ?thesis
    using z(3) [of "umem s" p "sysname (names s) @ nodename (names s) @ release (names s) @ version (names s)
      @ machine (names s) @ domainname (names s)"]
    by (auto simp: newuname_def Let_def split_beta)
qed

text \<open>A memory in which every address can be accessed.\<close>

definition all_memory :: "bool \<Rightarrow> (addr \<Rightarrow> char) uts_api" where
  "all_memory old = \<lparr>copy_from_user = (\<lambda>m a n. Some (map m [a..<a + n])),
     copy_to_user = (\<lambda>m a xs. (\<lambda>i. if a \<le> i \<and> i < a + length xs then xs ! (i - a) else m i, 0)),
     access_ok = (\<lambda>_ _. True), admin = True, uname26 = old, linux32 = False, compat_machine = None,
     uts_release = ''4.14.79-ti'', version_code = 4 * 2 ^ 16 + 14 * 2 ^ 8 + 79\<rparr>"

definition uts_example :: "(addr \<Rightarrow> char) uts" where
  "uts_example = \<lparr>names = \<lparr>sysname = new_name ''Linux'', nodename = new_name ''bbg'', release = new_name ''4.14.79-ti'',
     version = new_name ''1'', machine = new_name ''armv7l'', domainname = new_name ''none''\<rparr>,
     umem = (\<lambda>_. CHR ''x''), notified = []\<rparr>"

lemma all_memory_ok: "user_ok (all_memory old)"
proof -
  have "map (\<lambda>i. if a \<le> i \<and> i < a + length xs then xs ! (i - a) else m i) [a..<a + length xs] = xs"
    for a xs and m :: "addr \<Rightarrow> char" by (rule nth_equalityI) simp_all
  then show ?thesis by (auto simp: user_ok_def all_memory_def)
qed

lemma uts_example_ok: "names_ok (names uts_example)"
  by (simp add: names_ok_def uts_example_def new_name_ok UTS_LEN_def)

theorem hostname_roundtrip_witness:
  "copy_from_user (all_memory False)
     (umem (snd (the (gethostname (all_memory False) 500 10 (snd (sethostname (all_memory False) 0 3 uts_example))))))
     500 4 = Some (''xxx'' @ [NUL])"
proof -
  let ?k = "all_memory False" and ?s1 = "snd (sethostname (all_memory False) 0 3 uts_example)"
  have s1: "sethostname ?k 0 3 uts_example = (0, ?s1)"
    by (simp add: sethostname_def all_memory_def UTS_LEN_def)
  have tmp: "copy_from_user ?k (umem uts_example) 0 (nat 3) = Some ''xxx''"
    by (simp add: all_memory_def uts_example_def upt_rec)
  have "nodename (names ?s1) = new_name ''xxx''"
    using tmp by (simp add: sethostname_def UTS_LEN_def all_memory_def)
  then obtain s2 where s2: "gethostname ?k 500 10 ?s1 = Some (0, s2)"
    using strlen_new_name [of "''xxx''"] by (simp add: gethostname_def all_memory_def UTS_LEN_def)
  have four: "min (nat 10) (Suc (length ''xxx'')) = 4" and no: "NUL \<notin> set ''xxx''" by simp_all
  show ?thesis
    using hostname_roundtrip [OF all_memory_ok s1 tmp no s2, unfolded four] by (simp add: s2)
qed

end
