(* ===== verification/UtsLock.thy ===== *)
theory UtsLock
  imports Uts
begin

text \<open>
  The calls of theory \<^verbatim>\<open>Uts\<close> while they overlap. Any number of tasks are inside \<^verbatim>\<open>newuname\<close>, \<^verbatim>\<open>uname\<close>,
  \<^verbatim>\<open>olduname\<close>, \<^verbatim>\<open>gethostname\<close>, \<^verbatim>\<open>sethostname\<close> and \<^verbatim>\<open>setdomainname\<close> at once; a step moves one of them on: it
  takes or gives back the semaphore \<^verbatim>\<open>uts_sem\<close>, or reads or writes one byte of the structure, which all
  share as one array of 390 bytes.

  The semaphore is the kernel's: \<^verbatim>\<open>down_read\<close> waits while there is a writer, \<^verbatim>\<open>down_write\<close> also while there are
  readers. What the calls do before they take it and after they have given it back (checks, the release for old
  programs) touches nothing that is shared, and is in theory \<^verbatim>\<open>Uts\<close>.
\<close>

section \<open>State\<close>

text \<open>The text that a setting call copies from the user under the lock; \<open>None\<close>: this copy fails.\<close>

datatype uts_op = Set_host "string option" | Set_domain "string option"
  | New_uname | Std_uname | Old_uname | Get_host nat

datatype uts_pc = Idle | Asked uts_op | Writing uts_op nat | Measuring uts_op nat
  | Reading uts_op "nat list" string | Failing uts_op "nat list" | Leaving uts_op "string option"

record uts_system =
  bytes :: string
  writer :: "nat option"
  readers :: "nat set"
  place :: "nat \<Rightarrow> uts_pc"
  history :: "(uts_op \<times> string option) list"

text \<open>\<open>history\<close>: the calls in the order in which they give the semaphore back, with what they have copied to the
  user (\<open>None\<close> for those that set a name or whose copy failed).\<close>

primrec is_write :: "uts_op \<Rightarrow> bool" where
  "is_write (Set_host tmp) = True" | "is_write (Set_domain tmp) = True" | "is_write New_uname = False"
| "is_write Std_uname = False" | "is_write Old_uname = False" | "is_write (Get_host n) = False"

text \<open>The field that a call sets, and what it sets it to.\<close>

primrec field :: "uts_op \<Rightarrow> nat" where
  "field (Set_host tmp) = 65" | "field (Set_domain tmp) = 325" | "field New_uname = 0"
| "field Std_uname = 0" | "field Old_uname = 0" | "field (Get_host n) = 65"

primrec new_text :: "uts_op \<Rightarrow> string option" where
  "new_text (Set_host tmp) = map_option new_name tmp" | "new_text (Set_domain tmp) = map_option new_name tmp"
| "new_text New_uname = None" | "new_text Std_uname = None" | "new_text Old_uname = None" | "new_text (Get_host n) = None"

text \<open>The bytes that a call copies to the user.\<close>

primrec wanted :: "uts_op \<Rightarrow> nat list" where
  "wanted New_uname = [0..<390]" | "wanted Std_uname = [0..<325]"
| "wanted Old_uname = concat (map (\<lambda>f. [f * 65..<f * 65 + OLD_UTS_LEN]) [0..<5])"
| "wanted (Get_host n) = []" | "wanted (Set_host tmp) = []" | "wanted (Set_domain tmp) = []"

section \<open>Steps\<close>

definition goes :: "nat \<Rightarrow> uts_pc \<Rightarrow> uts_system \<Rightarrow> uts_system" where
  "goes t p s = s\<lparr>place := (place s)(t := p)\<rparr>"

definition down_write :: "nat \<Rightarrow> uts_system \<Rightarrow> uts_system option" where
  "down_write t s = (if writer s = None \<and> readers s = {} then Some (s\<lparr>writer := Some t\<rparr>) else None)"

definition up_write :: "uts_system \<Rightarrow> uts_system" where
  "up_write s = s\<lparr>writer := None\<rparr>"

definition down_read :: "nat \<Rightarrow> uts_system \<Rightarrow> uts_system option" where
  "down_read t s = (if writer s = None then Some (s\<lparr>readers := insert t (readers s)\<rparr>) else None)"

definition up_read :: "nat \<Rightarrow> uts_system \<Rightarrow> uts_system" where
  "up_read t s = s\<lparr>readers := readers s - {t}\<rparr>"

text \<open>The first step under the lock.\<close>

definition entered :: "uts_op \<Rightarrow> uts_pc" where
  "entered op = (case op of
     Get_host n \<Rightarrow> Measuring op 0
   | _ \<Rightarrow> if is_write op then (if new_text op = None then Leaving op None else Writing op 0)
          else Reading op (wanted op) [])"

text \<open>A step of task \<open>t\<close>; \<open>None\<close>: it waits, or reads or writes beyond the structure.\<close>

primrec move_at :: "nat \<Rightarrow> uts_pc \<Rightarrow> uts_system \<Rightarrow> uts_system option" where
  "move_at t Idle s = None"
| "move_at t (Asked op) s = do {
     s \<leftarrow> (if is_write op then down_write t s else down_read t s);
     Some (goes t (entered op) s)
   }"
| "move_at t (Writing op i) s = do {
     w \<leftarrow> new_text op;
     if i < length w then
       if field op + i < length (bytes s)
       then Some (goes t (Writing op (i + 1)) (s\<lparr>bytes := (bytes s)[field op + i := w ! i]\<rparr>))
       else None
     else Some (goes t (Leaving op None) s)
   }"
| "move_at t (Measuring op i) s = do {
     c \<leftarrow> nth_opt (bytes s) (65 + i);
     Some (goes t (if c = NUL then Reading op (case op of Get_host n \<Rightarrow> [65..<65 + min (1 + i) n] | _ \<Rightarrow> []) []
                   else Measuring op (i + 1)) s)
   }"
| "move_at t (Reading op ps got) s = (case ps of
     [] \<Rightarrow> Some (goes t (Leaving op (Some got)) s)
   | p # ps \<Rightarrow> do { c \<leftarrow> nth_opt (bytes s) p; Some (goes t (Reading op ps (got @ [c])) s) })"
| "move_at t (Failing op ps) s = (case ps of
     [] \<Rightarrow> Some (goes t (Leaving op None) s)
   | p # ps \<Rightarrow> do { c \<leftarrow> nth_opt (bytes s) p; Some (goes t (Failing op ps) s) })"
| "move_at t (Leaving op r) s = Some (goes t Idle
     ((if is_write op then up_write s else up_read t s)\<lparr>history := history s @ [(op, r)]\<rparr>))"

text \<open>What is left to read after a fault. Most calls stop; \<^verbatim>\<open>olduname\<close> only collects its errors and goes on with the rest
  of its five fields: a fault in the middle of a field ends this one, a fault between two fields is one of the terminator that
  the call stores itself, or, once it is failing, one of the first byte of the next field.\<close>

definition rest_of_field :: "nat list \<Rightarrow> nat list" where
  "rest_of_field ps = drop (length ps mod OLD_UTS_LEN) ps"

definition next_field :: "nat list \<Rightarrow> nat list" where
  "next_field ps = (if length ps mod OLD_UTS_LEN = 0 then drop OLD_UTS_LEN ps else rest_of_field ps)"

text \<open>A task makes a call (the length of a new name has been checked), moves on, or a byte cannot be copied to its
  memory.\<close>

datatype uts_event = Enter nat uts_op | Move nat | Fault nat

definition op_ok :: "uts_op \<Rightarrow> bool" where
  "op_ok op \<longleftrightarrow> (case op of Set_host (Some tmp) \<Rightarrow> length tmp \<le> UTS_LEN | Set_domain (Some tmp) \<Rightarrow> length tmp \<le> UTS_LEN
     | _ \<Rightarrow> True)"

primrec uts_act :: "uts_event \<Rightarrow> uts_system \<Rightarrow> uts_system option" where
  "uts_act (Enter t op) s = (if place s t = Idle \<and> op_ok op then Some (goes t (Asked op) s) else None)"
| "uts_act (Move t) s = move_at t (place s t) s"
| "uts_act (Fault t) s = (case place s t of
     Reading op ps got \<Rightarrow> Some (goes t (if op = Old_uname then Failing op (rest_of_field ps) else Leaving op None) s)
   | Failing op ps \<Rightarrow> Some (goes t (Failing op (next_field ps)) s)
   | _ \<Rightarrow> None)"

section \<open>The calls one after the other\<close>

definition flat :: "utsname \<Rightarrow> string" where
  "flat u = sysname u @ nodename u @ release u @ version u @ machine u @ domainname u"

definition uts_init :: "utsname \<Rightarrow> uts_system" where
  "uts_init u = \<lparr>bytes = flat u, writer = None, readers = {}, place = (\<lambda>_. Idle), history = []\<rparr>"

primrec sets :: "uts_op \<Rightarrow> utsname \<Rightarrow> utsname" where
  "sets (Set_host tmp) u = (case tmp of None \<Rightarrow> u | Some tmp \<Rightarrow> u\<lparr>nodename := new_name tmp\<rparr>)"
| "sets (Set_domain tmp) u = (case tmp of None \<Rightarrow> u | Some tmp \<Rightarrow> u\<lparr>domainname := new_name tmp\<rparr>)"
| "sets New_uname u = u" | "sets Std_uname u = u" | "sets Old_uname u = u" | "sets (Get_host n) u = u"

text \<open>What a call copies to the user when nothing happens in between.\<close>

primrec answer :: "uts_op \<Rightarrow> utsname \<Rightarrow> string" where
  "answer New_uname u = flat u"
| "answer Std_uname u = sysname u @ nodename u @ release u @ version u @ machine u"
| "answer Old_uname u = concat (map (take OLD_UTS_LEN) [sysname u, nodename u, release u, version u, machine u])"
| "answer (Get_host n) u = take (min (1 + length (takeWhile (\<lambda>c. c \<noteq> NUL) (nodename u))) n) (nodename u)"
| "answer (Set_host tmp) u = []" | "answer (Set_domain tmp) u = []"

text \<open>A history is right when every call in it has copied what it copies when the calls run one after the other.\<close>

fun replay :: "(uts_op \<times> string option) list \<Rightarrow> utsname \<Rightarrow> utsname option" where
  "replay [] u = Some u"
| "replay ((op, r) # h) u = (if r = None \<or> r = Some (answer op u) then replay h (sets op u) else None)"

lemma replay_append: "replay (h @ h') u = replay h u \<bind> replay h'"
  by (induction h u rule: replay.induct) auto

section \<open>Bytes of the structure\<close>

lemma names_len: "names_ok u \<Longrightarrow> length (sysname u) = 65 \<and> length (nodename u) = 65 \<and> length (release u) = 65
    \<and> length (version u) = 65 \<and> length (machine u) = 65 \<and> length (domainname u) = 65"
  by (simp add: names_ok_def field_ok_def UTS_LEN_def)

lemma flat_len: "names_ok u \<Longrightarrow> length (flat u) = 390"
  using names_len [of u] by (simp add: flat_def)

lemma names_ok_sets: "names_ok u \<Longrightarrow> op_ok op \<Longrightarrow> names_ok (sets op u)"
  by (cases op) (auto simp: names_ok_def op_ok_def new_name_ok split: option.splits)

text \<open>A text put over a part of another one, the way a loop over its bytes does it.\<close>

definition put :: "nat \<Rightarrow> string \<Rightarrow> string \<Rightarrow> string" where
  "put f w b = take f b @ w @ drop (f + length w) b"

lemma put_Nil [simp]: "put f [] b = b"
  by (simp add: put_def)

lemma put_next:
  assumes "i < length w" "f + length w \<le> length b"
  shows "(put f (take i w) b)[f + i := w ! i] = put f (take (Suc i) w) b"
proof -
  have "drop (f + i) b = b ! (f + i) # drop (Suc (f + i)) b" using assms by (simp add: Cons_nth_drop_Suc)
  then show ?thesis using assms by (simp add: put_def list_update_append take_Suc_conv_app_nth)
qed

lemma put_len: "f + length w \<le> length b \<Longrightarrow> length (put f w b) = length b"
  by (simp add: put_def)

lemma new_text_put:
  assumes "names_ok u" "op_ok op" "new_text op = Some w"
  shows "length w = 65" "field op + length w \<le> length (flat u)" "put (field op) w (flat u) = flat (sets op u)" "is_write op"
proof -
  have l: "length (new_name tmp) = 65" if "length tmp \<le> UTS_LEN" for tmp
    using new_name_ok [OF that] by (simp add: field_ok_def UTS_LEN_def)
  show len: "length w = 65" using assms(2,3) by (cases op) (auto simp: op_ok_def l split: option.splits)
  show "is_write op" using assms(3) by (cases op) auto
  show "field op + length w \<le> length (flat u)" using assms(1,3) by (cases op) (auto simp: flat_len len)
  show "put (field op) w (flat u) = flat (sets op u)"
    using assms(3) len names_len [OF assms(1)] by (cases op) (auto simp: put_def flat_def)
qed

lemma map_nth_upt: "a + n \<le> length xs \<Longrightarrow> map ((!) xs) [a..<a + n] = take n (drop a xs)"
  by (rule nth_equalityI) simp_all

lemma wanted_answer:
  assumes "names_ok u" "\<not> is_write op" "\<forall>n. op \<noteq> Get_host n"
  shows "map ((!) (flat u)) (wanted op) = answer op u \<and> (\<forall>p \<in> set (wanted op). p < 390)"
proof (cases op)
  case New_uname
  have "map ((!) (flat u)) [0..<390] = flat u" using map_nth_upt [of 0 390 "flat u"] flat_len [OF assms(1)] by simp
  with New_uname show ?thesis by simp
next
  case Std_uname
  have "map ((!) (flat u)) [0..<325] = take 325 (flat u)" using map_nth_upt [of 0 325 "flat u"] flat_len [OF assms(1)] by simp
  with Std_uname show ?thesis using names_len [OF assms(1)] by (simp add: flat_def)
next
  case Old_uname
  have eight: "OLD_UTS_LEN \<le> 65" by (simp add: OLD_UTS_LEN_def)
  have part: "map ((!) (flat u)) [a..<a + OLD_UTS_LEN] = take OLD_UTS_LEN (drop a (flat u))" if "a \<le> 260" for a
    using map_nth_upt [of a OLD_UTS_LEN "flat u"] flat_len [OF assms(1)] eight that by simp
  have five: "[0..<5] = [0, 1, 2, 3, 4 :: nat]" by (simp add: upt_rec)
  show ?thesis unfolding Old_uname
    using part [of 0] part [of 65] part [of 130] part [of 195] part [of 260] names_len [OF assms(1)] eight
    by (auto simp: five flat_def)
qed (use assms in auto)

text \<open>The length of the host name, up to its terminator.\<close>

definition host_len :: "utsname \<Rightarrow> nat" where
  "host_len u = length (takeWhile (\<lambda>c. c \<noteq> NUL) (nodename u))"

lemma flat_host: "names_ok u \<Longrightarrow> i < 65 \<Longrightarrow> flat u ! (65 + i) = nodename u ! i"
  using names_len [of u] by (simp add: flat_def nth_append)

lemma host_len_less: "names_ok u \<Longrightarrow> host_len u < 65"
  by (rule strlen_ok [of "nodename u"]) (auto simp: names_ok_def strlen_def host_len_def UTS_LEN_def split: if_splits)

lemma host_byte:
  assumes "names_ok u" "i \<le> host_len u"
  shows "flat u ! (65 + i) = NUL \<longleftrightarrow> i = host_len u"
proof -
  have f: "flat u ! (65 + i) = nodename u ! i" using assms host_len_less [OF assms(1)] by (intro flat_host) auto
  show ?thesis
  proof (cases "i = host_len u")
    case True
    then show ?thesis using f nth_length_takeWhile [of "\<lambda>c. c \<noteq> NUL" "nodename u"] host_len_less [OF assms(1)] names_len [OF assms(1)]
      by (simp add: host_len_def)
  next
    case False
    then have i: "i < host_len u" using assms(2) by simp
    then have "nodename u ! i = takeWhile (\<lambda>c. c \<noteq> NUL) (nodename u) ! i" by (simp add: host_len_def takeWhile_nth)
    also have "\<dots> \<noteq> NUL" using i set_takeWhileD [OF nth_mem [of i "takeWhile (\<lambda>c. c \<noteq> NUL) (nodename u)"]]
      by (simp add: host_len_def)
    finally show ?thesis using f False by simp
  qed
qed

lemma host_answer:
  assumes "names_ok u"
  shows "map ((!) (flat u)) [65..<65 + min (1 + host_len u) n] = answer (Get_host n) u"
proof -
  let ?m = "min (1 + host_len u) n"
  have m: "?m \<le> 65" using host_len_less [OF assms] by simp
  then have "map ((!) (flat u)) [65..<65 + ?m] = take ?m (drop 65 (flat u))"
    using flat_len [OF assms] by (intro map_nth_upt) simp
  also have "\<dots> = take ?m (nodename u)" using names_len [OF assms] m by (simp add: flat_def)
  finally show ?thesis by (simp add: host_len_def)
qed

section \<open>What holds while the calls overlap\<close>

text \<open>What holds of task \<open>t\<close>, when \<open>u\<close> are the names that the finished calls have left.\<close>

primrec pc_ok :: "utsname \<Rightarrow> uts_system \<Rightarrow> nat \<Rightarrow> uts_pc \<Rightarrow> bool" where
  "pc_ok u s t Idle \<longleftrightarrow> writer s \<noteq> Some t \<and> t \<notin> readers s"
| "pc_ok u s t (Asked op) \<longleftrightarrow> writer s \<noteq> Some t \<and> t \<notin> readers s \<and> op_ok op"
| "pc_ok u s t (Writing op i) \<longleftrightarrow> writer s = Some t \<and> op_ok op
     \<and> (\<exists>w. new_text op = Some w \<and> i \<le> length w \<and> bytes s = put (field op) (take i w) (flat u))"
| "pc_ok u s t (Measuring op i) \<longleftrightarrow> t \<in> readers s \<and> (\<exists>n. op = Get_host n) \<and> i \<le> host_len u"
| "pc_ok u s t (Reading op ps got) \<longleftrightarrow> t \<in> readers s \<and> \<not> is_write op \<and> (\<forall>p \<in> set ps. p < 390)
     \<and> got @ map ((!) (flat u)) ps = answer op u"
| "pc_ok u s t (Failing op ps) \<longleftrightarrow> t \<in> readers s \<and> \<not> is_write op \<and> (\<forall>p \<in> set ps. p < 390)"
| "pc_ok u s t (Leaving op r) \<longleftrightarrow> (if is_write op then writer s = Some t \<and> op_ok op \<and> r = None \<and> bytes s = flat (sets op u)
     else t \<in> readers s \<and> (r = None \<or> r = Some (answer op u)))"

definition sys_ok :: "utsname \<Rightarrow> uts_system \<Rightarrow> utsname \<Rightarrow> bool" where
  "sys_ok u0 s u \<longleftrightarrow> replay (history s) u0 = Some u \<and> names_ok u \<and> (\<forall>t. pc_ok u s t (place s t))
     \<and> (writer s = None \<longrightarrow> bytes s = flat u) \<and> (writer s \<noteq> None \<longrightarrow> readers s = {})"

lemma goes_simps [simp]:
  "bytes (goes t p s) = bytes s" "writer (goes t p s) = writer s" "readers (goes t p s) = readers s"
  "place (goes t p s) = (place s)(t := p)" "history (goes t p s) = history s"
  by (simp_all add: goes_def)

lemma pc_ok_goes [simp]: "pc_ok u (goes t p s) = pc_ok u s"
proof (intro ext)
  show "pc_ok u (goes t p s) t' q = pc_ok u s t' q" for t' q by (cases q) simp_all
qed

text \<open>A step of another task that reads changes nothing for \<open>t\<close>; when another one writes, \<open>t\<close> is outside.\<close>

lemma pc_ok_reads:
  assumes "pc_ok u s t p" "bytes s' = bytes s" "writer s' = writer s" "t \<in> readers s' \<longleftrightarrow> t \<in> readers s"
  shows "pc_ok u s' t p"
  using assms by (cases p) auto

lemma pc_ok_writes:
  assumes "pc_ok u s t p" "writer s \<noteq> Some t" "readers s = {}" "writer s' \<noteq> Some t" "readers s' = {}"
  shows "pc_ok u' s' t p"
  using assms by (cases p) (auto split: if_splits)

lemma sys_ok_same:
  assumes "sys_ok u0 s u" "pc_ok u s' t p" "bytes s' = bytes s" "writer s' = writer s" "history s' = history s"
    "place s' = (place s)(t := p)" "\<forall>t'. t' \<noteq> t \<longrightarrow> (t' \<in> readers s' \<longleftrightarrow> t' \<in> readers s)"
    "writer s \<noteq> None \<longrightarrow> readers s' = {}"
  shows "sys_ok u0 s' u"
proof -
  have "pc_ok u s' t' (place s' t')" for t'
    using assms pc_ok_reads [of u s t' "place s t'" s'] by (cases "t' = t") (auto simp: sys_ok_def)
  then show ?thesis using assms by (simp add: sys_ok_def)
qed

lemma sys_ok_write:
  assumes "sys_ok u0 s u" "writer s = None \<or> writer s = Some t" "readers s = {}" "pc_ok u' s' t p"
    "writer s' = None \<or> writer s' = Some t" "readers s' = {}" "place s' = (place s)(t := p)"
    "replay (history s') u0 = Some u'" "names_ok u'" "writer s' = None \<longrightarrow> bytes s' = flat u'"
  shows "sys_ok u0 s' u'"
proof -
  have "pc_ok u' s' t' (place s' t')" for t'
    using assms pc_ok_writes [of u s t' "place s t'" s' u'] by (cases "t' = t") (auto simp: sys_ok_def)
  then show ?thesis using assms by (simp add: sys_ok_def)
qed

text \<open>The steps.\<close>

lemma entered_write_ok:
  assumes "is_write op" "op_ok op" "writer s = Some t" "bytes s = flat u"
  shows "pc_ok u s t (entered op)"
  using assms by (cases op) (auto simp: entered_def split: option.split)

lemma entered_read_ok:
  assumes "\<not> is_write op" "names_ok u" "t \<in> readers s"
  shows "pc_ok u s t (entered op)"
proof (cases "\<exists>n. op = Get_host n")
  case True
  then show ?thesis using assms(3) by (auto simp: entered_def)
next
  case False
  then have "entered op = Reading op (wanted op) []" using assms(1) by (cases op) (auto simp: entered_def)
  with False show ?thesis using assms wanted_answer [OF assms(2,1)] by simp
qed

lemma ask_ok:
  assumes "sys_ok u0 s u" "place s t = Asked op" "move_at t (Asked op) s = Some s'"
  shows "sys_ok u0 s' u"
proof (cases "is_write op")
  case True
  have q: "op_ok op" using assms(1,2) by (auto simp: sys_ok_def dest: spec [of _ t])
  have free: "writer s = None" "readers s = {}" and s': "s' = goes t (entered op) (s\<lparr>writer := Some t\<rparr>)"
    using assms(3) True by (auto simp: down_write_def split: if_splits)
  have "pc_ok u (s\<lparr>writer := Some t\<rparr>) t (entered op)"
    using entered_write_ok [OF True q] assms(1) free by (simp add: sys_ok_def)
  with free assms(1) show ?thesis
    by (intro sys_ok_write [OF assms(1), of t u s' "entered op"]) (simp_all add: s' sys_ok_def)
next
  case False
  have free: "writer s = None" and s': "s' = goes t (entered op) (s\<lparr>readers := insert t (readers s)\<rparr>)"
    using assms(3) False by (auto simp: down_read_def split: if_splits)
  have "pc_ok u (s\<lparr>readers := insert t (readers s)\<rparr>) t (entered op)"
    using entered_read_ok [OF False] assms(1) by (simp add: sys_ok_def)
  with free show ?thesis by (intro sys_ok_same [OF assms(1), of s' t "entered op"]) (simp_all add: s')
qed

lemma here: "sys_ok u0 s u \<Longrightarrow> place s t = p \<Longrightarrow> pc_ok u s t p"
  by (auto simp: sys_ok_def)

lemma write_ok:
  assumes "sys_ok u0 s u" "place s t = Writing op i" "move_at t (Writing op i) s = Some s'"
  shows "sys_ok u0 s' u"
proof -
  obtain w where w: "writer s = Some t" "op_ok op" "new_text op = Some w" "i \<le> length w"
    "bytes s = put (field op) (take i w) (flat u)"
    using here [OF assms(1,2)] by auto
  have n: "names_ok u" "readers s = {}" "replay (history s) u0 = Some u" using assms(1) w(1) by (simp_all add: sys_ok_def)
  note new = new_text_put [OF n(1) w(2,3)]
  show ?thesis
  proof (cases "i < length w")
    case True
    then have s': "s' = goes t (Writing op (i + 1)) (s\<lparr>bytes := (bytes s)[field op + i := w ! i]\<rparr>)"
      using assms(3) w(3) by (auto split: if_splits)
    have "(bytes s)[field op + i := w ! i] = put (field op) (take (Suc i) w) (flat u)"
      unfolding w(5) using put_next [OF True new(2)] .
    with True w n show ?thesis
      by (intro sys_ok_write [OF assms(1), of t u s' "Writing op (i + 1)"]) (simp_all add: s')
  next
    case False
    then have s': "s' = goes t (Leaving op None) s" using assms(3) w(3) by simp
    have "bytes s = flat (sets op u)" using False w(4,5) new(3) by simp
    with new(4) w n show ?thesis
      by (intro sys_ok_write [OF assms(1), of t u s' "Leaving op None"]) (simp_all add: s')
  qed
qed

text \<open>A reader finds the names as the finished calls have left them.\<close>

lemma reader_sees:
  assumes "sys_ok u0 s u" "t \<in> readers s"
  shows "bytes s = flat u" "names_ok u" "writer s = None"
  using assms by (auto simp: sys_ok_def)

lemma measure_ok:
  assumes "sys_ok u0 s u" "place s t = Measuring op i" "move_at t (Measuring op i) s = Some s'"
  shows "sys_ok u0 s' u"
proof -
  obtain n where t: "t \<in> readers s" and op: "op = Get_host n" and i: "i \<le> host_len u" using here [OF assms(1,2)] by auto
  note r = reader_sees [OF assms(1) t]
  have "65 + i < length (bytes s)" using i host_len_less [OF r(2)] flat_len [OF r(2)] r(1) by simp
  then obtain p where s': "s' = goes t p s" and
    p: "p = (if i = host_len u then Reading op [65..<65 + min (1 + i) n] [] else Measuring op (i + 1))"
    using assms(3) host_byte [OF r(2) i] r(1) by (auto simp: op)
  have "\<forall>q \<in> set [65..<65 + min (1 + i) n]. q < 390" using i host_len_less [OF r(2)] by auto
  then have "pc_ok u s t p" using t i op p host_answer [OF r(2), of n] by auto
  then show ?thesis using r(3) by (intro sys_ok_same [OF assms(1), of s' t p]) (simp_all add: s')
qed

lemma read_ok:
  assumes "sys_ok u0 s u" "place s t = Reading op ps got" "move_at t (Reading op ps got) s = Some s'"
  shows "sys_ok u0 s' u"
proof -
  have h: "t \<in> readers s" "\<not> is_write op" "\<forall>p \<in> set ps. p < 390" "got @ map ((!) (flat u)) ps = answer op u"
    using here [OF assms(1,2)] by auto
  note r = reader_sees [OF assms(1) h(1)]
  obtain q where "s' = goes t q s" "pc_ok u s t q"
    using assms(3) h r(1) flat_len [OF r(2)] by (cases ps) auto
  then show ?thesis using r(3) by (intro sys_ok_same [OF assms(1), of s' t q]) simp_all
qed

lemma fail_ok:
  assumes "sys_ok u0 s u" "place s t = Failing op ps" "move_at t (Failing op ps) s = Some s'"
  shows "sys_ok u0 s' u"
proof -
  have h: "t \<in> readers s" "\<not> is_write op" "\<forall>p \<in> set ps. p < 390" using here [OF assms(1,2)] by auto
  note r = reader_sees [OF assms(1) h(1)]
  obtain q where "s' = goes t q s" "pc_ok u s t q"
    using assms(3) h r(1) flat_len [OF r(2)] by (cases ps) auto
  then show ?thesis using r(3) by (intro sys_ok_same [OF assms(1), of s' t q]) simp_all
qed

lemma leave_ok:
  assumes "sys_ok u0 s u" "place s t = Leaving op r" "move_at t (Leaving op r) s = Some s'"
  shows "sys_ok u0 s' (sets op u)"
proof (cases "is_write op")
  case True
  have h: "writer s = Some t" "op_ok op" "r = None" "bytes s = flat (sets op u)" using here [OF assms(1,2)] True by auto
  have s': "s' = goes t Idle ((up_write s)\<lparr>history := history s @ [(op, r)]\<rparr>)" using assms(3) True by simp
  have "names_ok (sets op u)" "replay (history s @ [(op, r)]) u0 = Some (sets op u)" "readers s = {}"
    using assms(1) h names_ok_sets [of u op] by (auto simp: sys_ok_def replay_append)
  with h show ?thesis
    by (intro sys_ok_write [OF assms(1), of t "sets op u" s' Idle]) (simp_all add: s' up_write_def)
next
  case False
  have h: "t \<in> readers s" "r = None \<or> r = Some (answer op u)" using here [OF assms(1,2)] False by auto
  note r = reader_sees [OF assms(1) h(1)]
  have s': "s' = goes t Idle ((up_read t s)\<lparr>history := history s @ [(op, r)]\<rparr>)" using assms(3) False by simp
  have same: "sets op u = u" using False by (cases op) auto
  have "replay (history s @ [(op, r)]) u0 = Some u" using assms(1) h(2) same by (auto simp: sys_ok_def replay_append)
  moreover have "sys_ok u0 (goes t Idle (up_read t s)) u"
    using r(3) by (intro sys_ok_same [OF assms(1), of _ t Idle]) (simp_all add: up_read_def)
  then have "(\<forall>t'. pc_ok u s' t' (place s' t')) \<and> names_ok u \<and> (writer s' = None \<longrightarrow> bytes s' = flat u)
      \<and> (writer s' \<noteq> None \<longrightarrow> readers s' = {})"
    using pc_ok_reads [of u "goes t Idle (up_read t s)" _ _ s'] by (auto simp: sys_ok_def s')
  ultimately show ?thesis by (simp add: sys_ok_def same s')
qed

lemma move_ok:
  assumes "sys_ok u0 s u" "move_at t (place s t) s = Some s'"
  shows "\<exists>u'. sys_ok u0 s' u'"
proof (cases "place s t")
  case Idle
  with assms(2) show ?thesis by simp
next
  case (Leaving op r)
  from leave_ok [OF assms(1) this assms(2) [unfolded this]] show ?thesis by blast
qed (use assms(2) in \<open>metis ask_ok [OF assms(1)] write_ok [OF assms(1)] measure_ok [OF assms(1)] read_ok [OF assms(1)] fail_ok [OF assms(1)]\<close>)+

lemma act_ok:
  assumes "\<exists>u. sys_ok u0 s u" "uts_act a s = Some s'"
  shows "\<exists>u. sys_ok u0 s' u"
proof -
  obtain u where u: "sys_ok u0 s u" using assms(1) by blast
  show ?thesis
  proof (cases a)
    case (Enter t op)
    then have s': "place s t = Idle" "op_ok op" "s' = goes t (Asked op) s" using assms(2) by (auto split: if_splits)
    have "pc_ok u s t (Asked op)" using here [OF u s'(1)] s'(2) by simp
    then have "sys_ok u0 s' u"
      using u by (intro sys_ok_same [OF u, of s' t "Asked op"]) (simp_all add: s' sys_ok_def)
    then show ?thesis by blast
  next
    case (Move t)
    then show ?thesis using assms(2) move_ok [OF u] by simp
  next
    case (Fault t)
    obtain p where s': "s' = goes t p s" and p: "pc_ok u s t p" and t: "t \<in> readers s"
    proof (cases "place s t")
      case (Reading op ps got)
      with here [OF u this] assms(2) Fault show thesis
        by (intro that [of "if op = Old_uname then Failing op (rest_of_field ps) else Leaving op None"])
          (auto simp: rest_of_field_def dest: in_set_dropD)
    next
      case (Failing op ps)
      with here [OF u this] assms(2) Fault show thesis
        by (intro that [of "Failing op (next_field ps)"])
          (auto simp: next_field_def rest_of_field_def dest: in_set_dropD)
    qed (use assms(2) Fault in simp_all)
    have "sys_ok u0 s' u"
      using reader_sees(3) [OF u t] p by (intro sys_ok_same [OF u, of s' t p]) (simp_all add: s')
    then show ?thesis by blast
  qed
qed

lemma init_ok: "names_ok u0 \<Longrightarrow> sys_ok u0 (uts_init u0) u0"
  by (simp add: sys_ok_def uts_init_def)

lemma run_ok: "names_ok u0 \<Longrightarrow> run uts_act as (uts_init u0) = Some s \<Longrightarrow> \<exists>u. sys_ok u0 s u"
  by (rule run_invariant [of "\<lambda>s. \<exists>u. sys_ok u0 s u" uts_act, OF act_ok]) (auto intro: init_ok)

section \<open>Properties\<close>

text \<open>C19: the system names are never seen half written. Any number of tasks set and read the host and the domain
  name at once, byte by byte and interleaved in any way, with copies from and to the user that may fail. Still every
  call has copied to its user exactly what it copies when the calls run one after the other in the order in which
  they gave the semaphore back, and while nobody writes the structure holds what these calls leave, every name
  terminated.\<close>

theorem uts_calls_atomic:
  assumes "names_ok u0" "run uts_act as (uts_init u0) = Some s"
  shows "\<exists>u. replay (history s) u0 = Some u \<and> names_ok u \<and> (writer s = None \<longrightarrow> bytes s = flat u)"
  using run_ok [OF assms] by (auto simp: sys_ok_def)

text \<open>A reader keeps a writer waiting, which then sets the name.\<close>

definition demo_events :: "uts_event list" where
  "demo_events = [Enter 1 (Get_host 9), Move 1, Move 1, Enter 2 (Set_host (Some ''am335'')), Move 1, Move 1, Move 1, Move 1, Move 1,
     Move 1, Move 1, Move 1, Move 1, Move 2, Move 2, Move 2]"

theorem uts_calls_atomic_witness:
  "\<exists>s u. run uts_act demo_events (uts_init (names uts_example)) = Some s
     \<and> history s = [(Get_host 9, Some (''bbg'' @ [NUL]))] \<and> writer s = Some 2 \<and> replay (history s) (names uts_example) = Some u"
proof -
  let ?r = "run uts_act demo_events (uts_init (names uts_example))"
  have "map_option (\<lambda>s. (history s, writer s)) ?r = Some ([(Get_host 9, Some (''bbg'' @ [NUL]))], Some 2)" by code_simp
  then obtain s where s: "?r = Some s" "history s = [(Get_host 9, Some (''bbg'' @ [NUL]))]" "writer s = Some 2"
    by (cases ?r) auto
  from uts_calls_atomic [OF uts_example_ok s(1)] s show ?thesis by blast
qed

text \<open>The semaphore never blocks for good: as long as a task is inside a call, some task can move.\<close>

lemma uts_never_stuck:
  assumes "names_ok u0" "run uts_act as (uts_init u0) = Some s" "place s t \<noteq> Idle"
  shows "\<exists>t'. uts_act (Move t') s \<noteq> None"
proof -
  obtain u where u: "sys_ok u0 s u" using run_ok [OF assms(1,2)] by blast
  have n: "names_ok u" using u by (simp add: sys_ok_def)
  have inside: "move_at t' (place s t') s \<noteq> None" if "place s t' \<noteq> Idle" "\<forall>op. place s t' \<noteq> Asked op" for t'
  proof (cases "place s t'")
    case (Writing op i)
    obtain w where w: "op_ok op" "new_text op = Some w" "i \<le> length w" "bytes s = put (field op) (take i w) (flat u)"
      using here [OF u Writing] by auto
    have "length (bytes s) = length (flat u)" using w new_text_put(2) [OF n w(1,2)] by (simp add: put_len)
    then show ?thesis using Writing w(2) new_text_put(2) [OF n w(1,2)] by simp
  next
    case (Measuring op i)
    have h: "t' \<in> readers s" "i \<le> host_len u" using here [OF u Measuring] by auto
    then have "65 + i < length (bytes s)"
      using reader_sees [OF u h(1)] host_len_less [OF n] flat_len [OF n] by simp
    then show ?thesis using Measuring by simp
  next
    case (Reading op ps got)
    have h: "t' \<in> readers s" "\<forall>p \<in> set ps. p < 390" using here [OF u Reading] by auto
    then show ?thesis using Reading reader_sees [OF u h(1)] flat_len [OF n] by (cases ps) simp_all
  next
    case (Failing op ps)
    have h: "t' \<in> readers s" "\<forall>p \<in> set ps. p < 390" using here [OF u Failing] by auto
    then show ?thesis using Failing reader_sees [OF u h(1)] flat_len [OF n] by (cases ps) simp_all
  qed (use that in simp_all)
  show ?thesis
  proof (cases "\<exists>t'. place s t' \<noteq> Idle \<and> (\<forall>op. place s t' \<noteq> Asked op)")
    case True
    then obtain t' where "move_at t' (place s t') s \<noteq> None" using inside by blast
    then show ?thesis by (intro exI [of _ t']) simp
  next
    case False
    have "writer s \<noteq> Some t' \<and> t' \<notin> readers s" for t'
    proof -
      have "place s t' = Idle \<or> (\<exists>op. place s t' = Asked op)" using False by blast
      then show ?thesis using here [OF u refl, of t'] by auto
    qed
    then have "writer s = None" "readers s = {}" by (cases "writer s", auto)
    moreover obtain op where "place s t = Asked op" using False assms(3) by blast
    ultimately have "uts_act (Move t) s \<noteq> None" by (simp add: down_write_def down_read_def)
    then show ?thesis by blast
  qed
qed

section \<open>The calls of theory \<^verbatim>\<open>Uts\<close>\<close>

text \<open>What \<open>sets\<close> and \<open>answer\<close> say is what the calls do to the names, and what they copy.\<close>

lemma sethostname_sets:
  "names (snd (sethostname k p len s)) =
     (if admin k \<and> 0 \<le> len \<and> len \<le> int UTS_LEN then sets (Set_host (copy_from_user k (umem s) p (nat len))) (names s)
      else names s)"
  by (auto simp: sethostname_def split: option.split)

lemma setdomainname_sets:
  "names (snd (setdomainname k p len s)) =
     (if admin k \<and> 0 \<le> len \<and> len \<le> int UTS_LEN then sets (Set_domain (copy_from_user k (umem s) p (nat len))) (names s)
      else names s)"
  by (auto simp: setdomainname_def split: option.split)

lemma newuname_answer:
  "newuname k p s = (let (m, left) = copy_to_user k (umem s) p (answer New_uname (names s)) in
     if left \<noteq> 0 then (- EFAULT, s\<lparr>umem := m\<rparr>)
     else let (r, m) = overrides k (p + 2 * 65) 65 (p + 4 * 65) m in (r, s\<lparr>umem := m\<rparr>))"
  by (simp add: newuname_def flat_def Let_def)

lemma gethostname_answer:
  assumes "field_ok (nodename (names s))" "0 \<le> len"
  shows "gethostname k p len s = Some (let (m, left) = copy_to_user k (umem s) p (answer (Get_host (nat len)) (names s)) in
     (if left \<noteq> 0 then - EFAULT else 0, s\<lparr>umem := m\<rparr>))"
proof -
  let ?n = "length (takeWhile (\<lambda>c. c \<noteq> NUL) (nodename (names s)))"
  have "strlen (nodename (names s)) = Some ?n" using assms(1) by (simp add: strlen_def field_ok_def)
  moreover have "nat (if 1 + int ?n > len then len else 1 + int ?n) = min (1 + ?n) (nat len)" using assms(2) by auto
  ultimately show ?thesis using assms(2) by (simp add: gethostname_def Let_def split_beta)
qed

end
