(* ===== verification/MmMap.thy ===== *)
theory MmMap
  imports Prelude
begin

text \<open>
  The memory layout of a process as \<^verbatim>\<open>prctl(PR_SET_MM, ...)\<close> changes it: \<^verbatim>\<open>prctl_set_mm_exe_file\<close>,
  \<^verbatim>\<open>validate_prctl_map\<close>, \<^verbatim>\<open>prctl_set_mm_map\<close>, \<^verbatim>\<open>prctl_set_auxv\<close> and \<^verbatim>\<open>prctl_set_mm\<close> of
  \<^verbatim>\<open>HW2_APES/PROBLEM5/system_call/sys.c\<close>.

  An \<^verbatim>\<open>unsigned long\<close> is an \<open>'l word\<close>; the structure that the user passes has 64 bit addresses whatever
  the width, and a cast between the two cuts or extends. The eleven addresses are the record \<open>layout\<close>, used
  at both widths. The auxiliary vector is kept as its bytes. Files are numbers; the file table, what
  the file system knows of a file, the mappings, the capability checks, the bounds of the address
  space and \<open>check_data_rlimit\<close> are parameters. The locks are left out.
\<close>

section \<open>State\<close>

record 'w layout =
  start_code :: 'w
  end_code :: 'w
  start_data :: 'w
  end_data :: 'w
  start_brk :: 'w
  brk :: 'w
  start_stack :: 'w
  arg_start :: 'w
  arg_end :: 'w
  env_start :: 'w
  env_end :: 'w

record 'l prctl_mm_map =
  addresses :: "64 word layout"
  auxv :: 'l
  auxv_size :: "32 word"
  exe_fd :: "32 word"

record 'l mm =
  mm_layout :: "'l layout"
  saved_auxv :: "byte list"
  exe_file :: "nat option"
  map_size_at :: "'l \<Rightarrow> 32 word option"

record 'l mm_api =
  fdget :: "32 word \<Rightarrow> nat option"
  regular :: "nat \<Rightarrow> bool"
  path_noexec :: "nat \<Rightarrow> bool"
  may_exec :: "nat \<Rightarrow> int"
  path :: "nat \<Rightarrow> nat"
  mapped_paths :: "nat list"
  in_vma :: "'l \<Rightarrow> bool"
  task_size :: 'l
  mmap_min_addr :: 'l
  data_rlimit :: "'l \<Rightarrow> 'l \<Rightarrow> 'l \<Rightarrow> 'l \<Rightarrow> int"
  sys_admin :: bool
  sys_resource :: bool
  checkpoint_restore :: bool
  map_bytes :: nat
  auxv_bytes :: nat
  read_map :: "'l \<Rightarrow> 'l prctl_mm_map option"
  read_bytes :: "'l \<Rightarrow> nat \<Rightarrow> byte list option"

definition EBADF :: int where "EBADF = 9"
definition EBUSY :: int where "EBUSY = 16"

lemmas mm_errno = errno_defs EBADF_def EBUSY_def

definition PR_SET_MM_START_CODE :: int where "PR_SET_MM_START_CODE = 1"
definition PR_SET_MM_END_CODE :: int where "PR_SET_MM_END_CODE = 2"
definition PR_SET_MM_START_DATA :: int where "PR_SET_MM_START_DATA = 3"
definition PR_SET_MM_END_DATA :: int where "PR_SET_MM_END_DATA = 4"
definition PR_SET_MM_START_STACK :: int where "PR_SET_MM_START_STACK = 5"
definition PR_SET_MM_START_BRK :: int where "PR_SET_MM_START_BRK = 6"
definition PR_SET_MM_BRK :: int where "PR_SET_MM_BRK = 7"
definition PR_SET_MM_ARG_START :: int where "PR_SET_MM_ARG_START = 8"
definition PR_SET_MM_ARG_END :: int where "PR_SET_MM_ARG_END = 9"
definition PR_SET_MM_ENV_START :: int where "PR_SET_MM_ENV_START = 10"
definition PR_SET_MM_ENV_END :: int where "PR_SET_MM_ENV_END = 11"
definition PR_SET_MM_AUXV :: int where "PR_SET_MM_AUXV = 12"
definition PR_SET_MM_EXE_FILE :: int where "PR_SET_MM_EXE_FILE = 13"
definition PR_SET_MM_MAP :: int where "PR_SET_MM_MAP = 14"
definition PR_SET_MM_MAP_SIZE :: int where "PR_SET_MM_MAP_SIZE = 15"

lemmas mm_opts = PR_SET_MM_START_CODE_def PR_SET_MM_END_CODE_def PR_SET_MM_START_DATA_def PR_SET_MM_END_DATA_def
  PR_SET_MM_START_STACK_def PR_SET_MM_START_BRK_def PR_SET_MM_BRK_def PR_SET_MM_ARG_START_def PR_SET_MM_ARG_END_def
  PR_SET_MM_ENV_START_def PR_SET_MM_ENV_END_def PR_SET_MM_AUXV_def PR_SET_MM_EXE_FILE_def PR_SET_MM_MAP_def
  PR_SET_MM_MAP_SIZE_def

section \<open>The operations\<close>

definition prctl_set_mm_exe_file :: "'l mm_api \<Rightarrow> 32 word \<Rightarrow> 'l mm \<Rightarrow> int \<times> 'l mm" where
  "prctl_set_mm_exe_file k fd mm =
    (case fdget k fd of
       None \<Rightarrow> (- EBADF, mm)
     | Some f \<Rightarrow>
         if \<not> regular k f \<or> path_noexec k f then (- EACCES, mm)
         else if may_exec k f \<noteq> 0 then (may_exec k f, mm)
         else if (case exe_file mm of None \<Rightarrow> False | Some old \<Rightarrow> path k old \<in> set (mapped_paths k)) then (- EBUSY, mm)
         else (0, mm\<lparr>exe_file := Some f\<rparr>))"

text \<open>The fields in the order of the table of offsets, and the same fields at another width.\<close>

definition fields :: "'w layout \<Rightarrow> 'w list" where
  "fields a = [start_code a, end_code a, start_data a, end_data a, start_brk a, brk a, start_stack a,
     arg_start a, arg_end a, env_start a, env_end a]"

definition cast_layout :: "'a::len word layout \<Rightarrow> 'b::len word layout" where
  "cast_layout a = \<lparr>start_code = ucast (start_code a), end_code = ucast (end_code a), start_data = ucast (start_data a),
     end_data = ucast (end_data a), start_brk = ucast (start_brk a), brk = ucast (brk a), start_stack = ucast (start_stack a),
     arg_start = ucast (arg_start a), arg_end = ucast (arg_end a), env_start = ucast (env_start a), env_end = ucast (env_end a)\<rparr>"

definition pairs_ordered :: "'l::len word layout \<Rightarrow> bool" where
  "pairs_ordered a \<longleftrightarrow> start_code a < end_code a \<and> start_data a < end_data a \<and> start_brk a \<le> brk a
     \<and> arg_start a \<le> arg_end a \<and> env_start a \<le> env_end a"

definition validate_prctl_map :: "'l::len word mm_api \<Rightarrow> 'l word prctl_mm_map \<Rightarrow> int" where
  "validate_prctl_map k m =
    (let a = addresses m; c = cast_layout a :: 'l word layout in
     if \<exists>val \<in> set (fields a). ucast val \<ge> task_size k \<or> ucast val < mmap_min_addr k then - EINVAL
     else if \<not> pairs_ordered c then - EINVAL
     else if start_brk a \<le> end_data a \<or> brk a \<le> end_data a then - EINVAL
     else if data_rlimit k (brk c) (start_brk c) (end_data c) (start_data c) \<noteq> 0 then - EINVAL
     else if auxv_size m \<noteq> 0 \<and> (auxv m = 0 \<or> unat (auxv_size m) > auxv_bytes k) then - EINVAL
     else if exe_fd m \<noteq> - 1 \<and> \<not> sys_admin k then - EINVAL
     else 0)"

text \<open>The last two words of a vector made 0.\<close>

definition word_bytes :: "'l::len word itself \<Rightarrow> nat" where
  "word_bytes (_ :: 'l word itself) = LENGTH('l) div 8"

definition end_auxv :: "nat \<Rightarrow> byte list \<Rightarrow> byte list" where
  "end_auxv w xs = take (length xs - 2 * w) xs @ replicate (2 * w) 0"

definition prctl_set_mm_map :: "'l::len word mm_api \<Rightarrow> int \<Rightarrow> 'l word \<Rightarrow> 'l word \<Rightarrow> 'l word mm \<Rightarrow> int \<times> 'l word mm" where
  "prctl_set_mm_map k opt addr data_size mm =
    (if opt = PR_SET_MM_MAP_SIZE then
       (if map_size_at mm addr = None then (- EFAULT, mm)
        else (0, mm\<lparr>map_size_at := (map_size_at mm)(addr \<mapsto> of_nat (map_bytes k))\<rparr>))
     else if unat data_size \<noteq> map_bytes k then (- EINVAL, mm)
     else (case read_map k addr of
         None \<Rightarrow> (- EFAULT, mm)
       | Some m \<Rightarrow>
           let error = validate_prctl_map k m in
           if error \<noteq> 0 then (error, mm)
           else
             let user_auxv = (if auxv_size m \<noteq> 0
               then map_option (\<lambda>xs. end_auxv (word_bytes TYPE('l word)) (xs @ replicate (auxv_bytes k - length xs) 0))
                 (read_bytes k (auxv m) (unat (auxv_size m)))
               else Some (saved_auxv mm))
             in (case user_auxv of
                 None \<Rightarrow> (- EFAULT, mm)
               | Some xs \<Rightarrow>
                   let (error, mm) = (if exe_fd m \<noteq> - 1 then prctl_set_mm_exe_file k (exe_fd m) mm else (0, mm)) in
                   if error \<noteq> 0 then (error, mm)
                   else (0, mm\<lparr>mm_layout := cast_layout (addresses m), saved_auxv := xs\<rparr>))))"

text \<open>\<open>user_auxv\<close> is not initialised beyond what is read, but only as many bytes are stored.\<close>

definition prctl_set_auxv :: "'l::len word mm_api \<Rightarrow> 'l word \<Rightarrow> 'l word \<Rightarrow> 'l word mm \<Rightarrow> int \<times> 'l word mm" where
  "prctl_set_auxv k addr len mm =
    (if unat len > auxv_bytes k then (- EINVAL, mm)
     else (case read_bytes k addr (unat len) of
         None \<Rightarrow> (- EFAULT, mm)
       | Some xs \<Rightarrow>
           let kept = auxv_bytes k - 2 * word_bytes TYPE('l word);
               user_auxv = take kept xs @ replicate (length xs - kept) 0
           in (0, mm\<lparr>saved_auxv := user_auxv @ drop (unat len) (saved_auxv mm)\<rparr>)))"

definition set_address :: "int \<Rightarrow> 'w \<Rightarrow> 'w layout \<Rightarrow> 'w layout option" where
  "set_address opt addr a =
    (if opt = PR_SET_MM_START_CODE then Some (a\<lparr>start_code := addr\<rparr>)
     else if opt = PR_SET_MM_END_CODE then Some (a\<lparr>end_code := addr\<rparr>)
     else if opt = PR_SET_MM_START_DATA then Some (a\<lparr>start_data := addr\<rparr>)
     else if opt = PR_SET_MM_END_DATA then Some (a\<lparr>end_data := addr\<rparr>)
     else if opt = PR_SET_MM_START_STACK then Some (a\<lparr>start_stack := addr\<rparr>)
     else if opt = PR_SET_MM_START_BRK then Some (a\<lparr>start_brk := addr\<rparr>)
     else if opt = PR_SET_MM_BRK then Some (a\<lparr>brk := addr\<rparr>)
     else if opt = PR_SET_MM_ARG_START then Some (a\<lparr>arg_start := addr\<rparr>)
     else if opt = PR_SET_MM_ARG_END then Some (a\<lparr>arg_end := addr\<rparr>)
     else if opt = PR_SET_MM_ENV_START then Some (a\<lparr>env_start := addr\<rparr>)
     else if opt = PR_SET_MM_ENV_END then Some (a\<lparr>env_end := addr\<rparr>)
     else None)"

definition needs_vma :: "int \<Rightarrow> bool" where
  "needs_vma opt \<longleftrightarrow> opt \<in> {PR_SET_MM_START_STACK, PR_SET_MM_ARG_START, PR_SET_MM_ARG_END, PR_SET_MM_ENV_START, PR_SET_MM_ENV_END}"

definition prctl_set_mm ::
    "'l::len word mm_api \<Rightarrow> int \<Rightarrow> 'l word \<Rightarrow> 'l word \<Rightarrow> 'l word \<Rightarrow> 'l word mm \<Rightarrow> int \<times> 'l word mm" where
  "prctl_set_mm k opt addr arg4 arg5 mm =
    (if arg5 \<noteq> 0 \<or> (arg4 \<noteq> 0 \<and> opt \<noteq> PR_SET_MM_AUXV \<and> opt \<noteq> PR_SET_MM_MAP \<and> opt \<noteq> PR_SET_MM_MAP_SIZE)
       then (- EINVAL, mm)
     else if checkpoint_restore k \<and> (opt = PR_SET_MM_MAP \<or> opt = PR_SET_MM_MAP_SIZE)
       then prctl_set_mm_map k opt addr arg4 mm
     else if \<not> sys_resource k then (- EPERM, mm)
     else if opt = PR_SET_MM_EXE_FILE then prctl_set_mm_exe_file k (ucast addr) mm
     else if opt = PR_SET_MM_AUXV then prctl_set_auxv k addr arg4 mm
     else if addr \<ge> task_size k \<or> addr < mmap_min_addr k then (- EINVAL, mm)
     else (case set_address opt (ucast addr) (cast_layout (mm_layout mm)) of
         None \<Rightarrow> (- EINVAL, mm)
       | Some a \<Rightarrow>
           let error = validate_prctl_map k \<lparr>addresses = a, auxv = 0, auxv_size = 0, exe_fd = - 1\<rparr> in
           if error \<noteq> 0 then (error, mm)
           else if needs_vma opt \<and> \<not> in_vma k addr then (- EFAULT, mm)
           else (0, mm\<lparr>mm_layout := cast_layout a\<rparr>)))"

section \<open>What a call can change\<close>

lemma exe_file_result:
  obtains (fails) "snd (prctl_set_mm_exe_file k fd mm) = mm" "fst (prctl_set_mm_exe_file k fd mm) \<noteq> 0"
  | (sets) f where "prctl_set_mm_exe_file k fd mm = (0, mm\<lparr>exe_file := Some f\<rparr>)" "fdget k fd = Some f"
      "regular k f" "\<not> path_noexec k f" "may_exec k f = 0"
      "\<forall>old. exe_file mm = Some old \<longrightarrow> path k old \<notin> set (mapped_paths k)"
proof (cases "fdget k fd")
  case None
  then show thesis using fails by (simp add: prctl_set_mm_exe_file_def EBADF_def)
next
  case (Some f)
  show thesis
  proof (cases "regular k f \<and> \<not> path_noexec k f \<and> may_exec k f = 0
      \<and> (\<forall>old. exe_file mm = Some old \<longrightarrow> path k old \<notin> set (mapped_paths k))")
    case True
    then have "prctl_set_mm_exe_file k fd mm = (0, mm\<lparr>exe_file := Some f\<rparr>)"
      by (simp add: prctl_set_mm_exe_file_def Some split: option.split)
    with True Some sets show thesis by blast
  next
    case False
    then have "snd (prctl_set_mm_exe_file k fd mm) = mm \<and> fst (prctl_set_mm_exe_file k fd mm) \<noteq> 0"
      by (auto simp: prctl_set_mm_exe_file_def Some EACCES_def EBUSY_def)
    with fails show thesis by blast
  qed
qed

text \<open>A call that returns an error changes nothing; a successful one does one of four things.\<close>

lemma set_mm_map_result:
  fixes k :: "'l::len word mm_api"
  obtains (fails) "snd (prctl_set_mm_map k opt addr n mm) = mm" "fst (prctl_set_mm_map k opt addr n mm) \<noteq> 0"
  | (size) v where "prctl_set_mm_map k opt addr n mm = (0, mm\<lparr>map_size_at := v\<rparr>)"
  | (layout) m mm' xs where "validate_prctl_map k m = 0"
      "mm' = mm \<and> exe_fd m = - 1 \<or> exe_fd m \<noteq> - 1 \<and> prctl_set_mm_exe_file k (exe_fd m) mm = (0, mm')"
      "xs = saved_auxv mm \<or> (\<exists>ys. read_bytes k (auxv m) (unat (auxv_size m)) = Some ys
         \<and> xs = end_auxv (word_bytes TYPE('l word)) (ys @ replicate (auxv_bytes k - length ys) 0))"
      "prctl_set_mm_map k opt addr n mm = (0, mm'\<lparr>mm_layout := cast_layout (addresses m), saved_auxv := xs\<rparr>)"
proof (cases "opt = PR_SET_MM_MAP_SIZE \<or> unat n \<noteq> map_bytes k \<or> read_map k addr = None")
  case True
  then have "snd (prctl_set_mm_map k opt addr n mm) = mm \<and> fst (prctl_set_mm_map k opt addr n mm) \<noteq> 0
      \<or> prctl_set_mm_map k opt addr n mm = (0, mm\<lparr>map_size_at := (map_size_at mm)(addr \<mapsto> of_nat (map_bytes k))\<rparr>)"
    by (cases "opt = PR_SET_MM_MAP_SIZE") (auto simp: prctl_set_mm_map_def mm_errno)
  then show thesis using fails size by blast
next
  case False
  then obtain m where m: "read_map k addr = Some m" "opt \<noteq> PR_SET_MM_MAP_SIZE" "unat n = map_bytes k" by blast
  define ua where "ua = (if auxv_size m \<noteq> 0
     then map_option (\<lambda>xs. end_auxv (word_bytes TYPE('l word)) (xs @ replicate (auxv_bytes k - length xs) 0))
       (read_bytes k (auxv m) (unat (auxv_size m)))
     else Some (saved_auxv mm))"
  define ex where "ex = (if exe_fd m \<noteq> - 1 then prctl_set_mm_exe_file k (exe_fd m) mm else (0, mm))"
  have eq: "prctl_set_mm_map k opt addr n mm =
     (if validate_prctl_map k m \<noteq> 0 then (validate_prctl_map k m, mm)
      else (case ua of None \<Rightarrow> (- EFAULT, mm)
        | Some xs \<Rightarrow> (case ex of (error, mm) \<Rightarrow> if error \<noteq> 0 then (error, mm)
             else (0, mm\<lparr>mm_layout := cast_layout (addresses m), saved_auxv := xs\<rparr>))))"
    unfolding prctl_set_mm_map_def ua_def ex_def by (simp only: m simp_thms if_False option.case Let_def)
  show thesis
  proof (cases "validate_prctl_map k m \<noteq> 0 \<or> ua = None")
    case True
    then show thesis using fails by (auto simp: eq EFAULT_def)
  next
    case False
    then obtain xs where xs: "validate_prctl_map k m = 0" "ua = Some xs" by blast
    show thesis
    proof (cases "fst ex = 0")
      case True
      then obtain mm' where mm': "ex = (0, mm')" by (cases ex) simp
      have "mm' = mm \<and> exe_fd m = - 1 \<or> exe_fd m \<noteq> - 1 \<and> prctl_set_mm_exe_file k (exe_fd m) mm = (0, mm')"
        using mm' by (auto simp: ex_def split: if_splits)
      moreover have "xs = saved_auxv mm \<or> (\<exists>ys. read_bytes k (auxv m) (unat (auxv_size m)) = Some ys
         \<and> xs = end_auxv (word_bytes TYPE('l word)) (ys @ replicate (auxv_bytes k - length ys) 0))"
        using xs(2) by (auto simp: ua_def split: if_splits)
      ultimately show thesis using layout xs mm' by (simp add: eq)
    next
      case bad: False
      then have "exe_fd m \<noteq> - 1" by (auto simp: ex_def split: if_splits)
      then have "ex = prctl_set_mm_exe_file k (exe_fd m) mm" by (simp add: ex_def)
      then have "snd ex = mm" using bad by (cases rule: exe_file_result [of k "exe_fd m" mm]) auto
      then show thesis using fails xs bad by (simp add: eq split_beta)
    qed
  qed
qed

lemma set_mm_result:
  fixes k :: "'l::len word mm_api"
  obtains (fails) "snd (prctl_set_mm k opt addr arg4 arg5 mm) = mm" "fst (prctl_set_mm k opt addr arg4 arg5 mm) \<noteq> 0"
  | (map) "prctl_set_mm k opt addr arg4 arg5 mm = prctl_set_mm_map k opt addr arg4 mm"
  | (exe) "sys_resource k" "prctl_set_mm k opt addr arg4 arg5 mm = prctl_set_mm_exe_file k (ucast addr) mm"
  | (auxv) "sys_resource k" "prctl_set_mm k opt addr arg4 arg5 mm = prctl_set_auxv k addr arg4 mm"
  | (address) a where "sys_resource k" "set_address opt (ucast addr) (cast_layout (mm_layout mm)) = Some a"
      "validate_prctl_map k \<lparr>addresses = a, auxv = 0, auxv_size = 0, exe_fd = - 1\<rparr> = 0"
      "prctl_set_mm k opt addr arg4 arg5 mm = (0, mm\<lparr>mm_layout := cast_layout a\<rparr>)"
proof (cases "arg5 \<noteq> 0 \<or> (arg4 \<noteq> 0 \<and> opt \<noteq> PR_SET_MM_AUXV \<and> opt \<noteq> PR_SET_MM_MAP \<and> opt \<noteq> PR_SET_MM_MAP_SIZE)")
  case True
  then show thesis using fails by (simp add: prctl_set_mm_def EINVAL_def)
next
  case a: False
  show thesis
  proof (cases "checkpoint_restore k \<and> (opt = PR_SET_MM_MAP \<or> opt = PR_SET_MM_MAP_SIZE)")
    case True
    with a have "prctl_set_mm k opt addr arg4 arg5 mm = prctl_set_mm_map k opt addr arg4 mm"
      unfolding prctl_set_mm_def if_not_P [OF a] if_P [OF True] by simp
    then show thesis by (rule map)
  next
    case b: False
    define r where "r = (if addr \<ge> task_size k \<or> addr < mmap_min_addr k then (- EINVAL, mm)
     else (case set_address opt (ucast addr) (cast_layout (mm_layout mm)) of
         None \<Rightarrow> (- EINVAL, mm)
       | Some a \<Rightarrow>
           let error = validate_prctl_map k \<lparr>addresses = a, auxv = 0, auxv_size = 0, exe_fd = - 1\<rparr> in
           if error \<noteq> 0 then (error, mm)
           else if needs_vma opt \<and> \<not> in_vma k addr then (- EFAULT, mm)
           else (0, mm\<lparr>mm_layout := cast_layout a\<rparr>)))"
    have eq: "prctl_set_mm k opt addr arg4 arg5 mm =
       (if \<not> sys_resource k then (- EPERM, mm)
        else if opt = PR_SET_MM_EXE_FILE then prctl_set_mm_exe_file k (ucast addr) mm
        else if opt = PR_SET_MM_AUXV then prctl_set_auxv k addr arg4 mm else r)"
      unfolding prctl_set_mm_def if_not_P [OF a] if_not_P [OF b] r_def ..
    have "snd r = mm \<and> fst r \<noteq> 0 \<or> (\<exists>a. set_address opt (ucast addr) (cast_layout (mm_layout mm)) = Some a
      \<and> validate_prctl_map k \<lparr>addresses = a, auxv = 0, auxv_size = 0, exe_fd = - 1\<rparr> = 0
      \<and> r = (0, mm\<lparr>mm_layout := cast_layout a\<rparr>))"
      by (auto simp: r_def Let_def EINVAL_def EFAULT_def split: option.split)
    then consider (n) "snd r = mm" "fst r \<noteq> 0" | (y) a where "set_address opt (ucast addr) (cast_layout (mm_layout mm)) = Some a"
      "validate_prctl_map k \<lparr>addresses = a, auxv = 0, auxv_size = 0, exe_fd = - 1\<rparr> = 0" "r = (0, mm\<lparr>mm_layout := cast_layout a\<rparr>)"
      by blast
    note r = this
    consider "\<not> sys_resource k" | "sys_resource k" "opt = PR_SET_MM_EXE_FILE"
      | "sys_resource k" "opt \<noteq> PR_SET_MM_EXE_FILE" "opt = PR_SET_MM_AUXV"
      | "sys_resource k" "opt \<noteq> PR_SET_MM_EXE_FILE" "opt \<noteq> PR_SET_MM_AUXV" by blast
    then show thesis
    proof cases
      case 1
      then have "prctl_set_mm k opt addr arg4 arg5 mm = (- EPERM, mm)" by (simp only: eq if_True simp_thms)
      then show thesis using fails by (simp add: EPERM_def)
    next
      case 2
      then have "prctl_set_mm k opt addr arg4 arg5 mm = prctl_set_mm_exe_file k (ucast addr) mm" unfolding eq by simp
      with 2 exe show thesis by blast
    next
      case 3
      then have "prctl_set_mm k opt addr arg4 arg5 mm = prctl_set_auxv k addr arg4 mm" unfolding eq by simp
      with 3 auxv show thesis by blast
    next
      case 4
      then have "prctl_set_mm k opt addr arg4 arg5 mm = r" by (simp only: eq if_False simp_thms)
      with 4 r fails address show thesis by metis
    qed
  qed
qed

text \<open>Calls, one after the other.\<close>

type_synonym 'l mm_call = "int \<times> 'l \<times> 'l \<times> 'l"

definition mm_step :: "'l::len word mm_api \<Rightarrow> 'l word mm_call \<Rightarrow> 'l word mm \<Rightarrow> 'l word mm" where
  "mm_step k = (\<lambda>(opt, addr, arg4, arg5) mm. snd (prctl_set_mm k opt addr arg4 arg5 mm))"

definition mm_run :: "'l::len word mm_api \<Rightarrow> 'l word mm_call list \<Rightarrow> 'l word mm \<Rightarrow> 'l word mm" where
  "mm_run k = fold (mm_step k)"

lemma mm_run_invariant:
  assumes "P mm" "\<And>mm opt addr arg4 arg5. P mm \<Longrightarrow> P (snd (prctl_set_mm k opt addr arg4 arg5 mm))"
  shows "P (mm_run k calls mm)"
  using assms(1) by (induction calls arbitrary: mm) (auto simp: mm_run_def mm_step_def intro: assms(2))

section \<open>The layout stays valid\<close>

definition layout_ok :: "'l::len word mm_api \<Rightarrow> 'l word layout \<Rightarrow> bool" where
  "layout_ok k a \<longleftrightarrow> (\<forall>v \<in> set (fields a). mmap_min_addr k \<le> v \<and> v < task_size k) \<and> pairs_ordered a"

definition brk_above_data :: "'l::len word layout \<Rightarrow> bool" where
  "brk_above_data a \<longleftrightarrow> end_data a < start_brk a \<and> end_data a < brk a"

lemma fields_cast: "fields (cast_layout a) = List.map ucast (fields a)"
  by (simp add: fields_def cast_layout_def)

lemma validated_layout:
  fixes k :: "'l::len word mm_api"
  assumes "validate_prctl_map k m = 0"
  shows "layout_ok k (cast_layout (addresses m))"
    and "start_brk (addresses m) > end_data (addresses m)" "brk (addresses m) > end_data (addresses m)"
  using assms
  by (auto simp: validate_prctl_map_def Let_def layout_ok_def fields_cast EINVAL_def not_less not_le split: if_splits)

lemma validated_fd: "validate_prctl_map k m = 0 \<Longrightarrow> exe_fd m \<noteq> - 1 \<Longrightarrow> sys_admin k"
  by (auto simp: validate_prctl_map_def Let_def EINVAL_def split: if_splits)

lemma ucast_less:
  fixes a b :: "64 word"
  assumes "LENGTH('l::len) = 64" "a < b"
  shows "(ucast a :: 'l word) < ucast b"
proof -
  have "unat (ucast v :: 'l word) = unat v" for v :: "64 word"
  proof -
    have "unat v < 2 ^ 64" using unsigned_less [of v] by simp
    then show ?thesis by (simp only: unsigned_ucast_eq assms(1) take_bit_nat_eq_self)
  qed
  with assms(2) show ?thesis by (simp add: word_less_nat_alt)
qed

text \<open>What a call does to each part.\<close>

lemma set_mm_layout:
  fixes k :: "'l::len word mm_api"
  obtains "mm_layout (snd (prctl_set_mm k opt addr arg4 arg5 mm)) = mm_layout mm"
  | m where "validate_prctl_map k m = 0"
      "mm_layout (snd (prctl_set_mm k opt addr arg4 arg5 mm)) = cast_layout (addresses m)"
proof (cases rule: set_mm_result [of k opt addr arg4 arg5 mm])
  case map
  then show thesis
    using that by (cases rule: set_mm_map_result [of k opt addr arg4 mm]) auto
next
  case exe
  then show thesis using that by (cases rule: exe_file_result [of k "ucast addr" mm]) auto
next
  case auxv
  then show thesis using that by (auto simp: prctl_set_auxv_def Let_def split: option.splits if_splits)
next
  case (address a)
  then show thesis using that(2) [OF address(3)] by simp
qed (use that in simp)

interpretation layouts: call_invariant "mm_step k" "\<lambda>_. True" "\<lambda>mm. layout_ok k (mm_layout mm)" for k
proof
  fix mm :: "'a word mm" and c :: "'a word mm_call"
  assume ok: "layout_ok k (mm_layout mm)"
  obtain opt addr arg4 arg5 where c: "c = (opt, addr, arg4, arg5)" by (cases c)
  show "layout_ok k (mm_layout (mm_step k c mm))"
    by (rule set_mm_layout [of k opt addr arg4 arg5 mm]) (simp_all add: c mm_step_def ok validated_layout(1))
qed

text \<open>C33: Through any sequence of \<open>PR_SET_MM\<close> calls all addresses stay within the address space and in order; with
  64 bit words the heap also stays above the data.\<close>

theorem mm_layout_stays_valid:
  fixes k :: "'l::len word mm_api"
  assumes "layout_ok k (mm_layout mm)"
  shows "layout_ok k (mm_layout (mm_run k calls mm))
    \<and> (LENGTH('l) = 64 \<longrightarrow> brk_above_data (mm_layout mm) \<longrightarrow> brk_above_data (mm_layout (mm_run k calls mm)))"
proof -
  have "layout_ok k (mm_layout (mm_run k calls mm))"
    unfolding mm_run_def using assms by (rule layouts.run_keeps) simp
  moreover have "brk_above_data (mm_layout (mm_run k calls mm))"
    if w: "LENGTH('l) = 64" and b: "brk_above_data (mm_layout mm)"
  proof (rule mm_run_invariant [where P = "\<lambda>mm. brk_above_data (mm_layout mm)"], rule b)
    fix mm :: "'l word mm" and opt addr arg4 arg5
    assume b: "brk_above_data (mm_layout mm)"
    show "brk_above_data (mm_layout (snd (prctl_set_mm k opt addr arg4 arg5 mm)))"
    proof (cases rule: set_mm_layout [of k opt addr arg4 arg5 mm])
      case (2 m)
      with validated_layout(2,3) [OF 2(1)] show ?thesis
        by (simp add: brk_above_data_def cast_layout_def ucast_less [OF w])
    qed (use b in simp)
  qed
  ultimately show ?thesis by blast
qed

text \<open>A board with words of 32 bits, and a map whose heap is below its data once it is cut to them.\<close>

definition arm_api :: "32 word prctl_mm_map \<Rightarrow> 32 word mm_api" where
  "arm_api m = \<lparr>fdget = (\<lambda>_. None), regular = (\<lambda>_. False), path_noexec = (\<lambda>_. False), may_exec = (\<lambda>_. 0), path = (\<lambda>f. f),
     mapped_paths = [], in_vma = (\<lambda>_. True), task_size = 0xBF000000, mmap_min_addr = 0x1000, data_rlimit = (\<lambda>_ _ _ _. 0),
     sys_admin = False, sys_resource = False, checkpoint_restore = True, map_bytes = 104, auxv_bytes = 160,
     read_map = (\<lambda>_. Some m), read_bytes = (\<lambda>_ n. Some (replicate n 0))\<rparr>"

definition low_brk :: "64 word" where "low_brk = 0x100010000"

definition low_heap :: "32 word prctl_mm_map" where
  "low_heap = \<lparr>addresses = \<lparr>start_code = 0x10000, end_code = 0x20000, start_data = 0x30000, end_data = 0x40000,
     start_brk = low_brk, brk = low_brk, start_stack = 0x50000, arg_start = 0x50000, arg_end = 0x50000,
     env_start = 0x50000, env_end = 0x50000\<rparr>, auxv = 0, auxv_size = 0, exe_fd = - 1\<rparr>"

definition arm_mm :: "32 word mm" where
  "arm_mm = \<lparr>mm_layout = (cast_layout (addresses low_heap))\<lparr>start_brk := 0x60000, brk := 0x60000\<rparr>,
     saved_auxv = replicate 160 0, exe_file = Some 0, map_size_at = (\<lambda>_. None)\<rparr>"

lemma low_heap_valid: "validate_prctl_map (arm_api low_heap) low_heap = 0"
  by (simp add: validate_prctl_map_def low_heap_def low_brk_def arm_api_def fields_def cast_layout_def pairs_ordered_def)

text \<open>On a machine with words of 32 bits the check that the heap starts above the data can be passed by: a 64 bit
  value is compared and its lower half stored. Here a caller without privileges puts the heap below the data.\<close>

lemma heap_check_fails_on_32_bits:
  "fst (prctl_set_mm (arm_api low_heap) PR_SET_MM_MAP 0 104 0 arm_mm) = 0
    \<and> brk_above_data (mm_layout arm_mm)
    \<and> \<not> brk_above_data (mm_layout (snd (prctl_set_mm (arm_api low_heap) PR_SET_MM_MAP 0 104 0 arm_mm)))"
proof -
  have api: "checkpoint_restore (arm_api low_heap)" "map_bytes (arm_api low_heap) = 104"
    "read_map (arm_api low_heap) a = Some low_heap" for a by (simp_all add: arm_api_def)
  have m: "auxv_size low_heap = 0" "exe_fd low_heap = - 1" by (simp_all add: low_heap_def)
  have "prctl_set_mm (arm_api low_heap) PR_SET_MM_MAP 0 104 0 arm_mm
      = (0, arm_mm\<lparr>mm_layout := cast_layout (addresses low_heap), saved_auxv := saved_auxv arm_mm\<rparr>)"
    by (simp add: prctl_set_mm_def prctl_set_mm_map_def mm_opts api m low_heap_valid Let_def)
  then show ?thesis
    by (simp add: brk_above_data_def cast_layout_def low_heap_def low_brk_def arm_mm_def)
qed

section \<open>The auxiliary vector stays terminated\<close>

definition auxv_ok :: "'l::len word mm_api \<Rightarrow> 'l word mm \<Rightarrow> bool" where
  "auxv_ok k mm \<longleftrightarrow> length (saved_auxv mm) = auxv_bytes k
     \<and> drop (auxv_bytes k - 2 * word_bytes TYPE('l word)) (saved_auxv mm) = replicate (2 * word_bytes TYPE('l word)) 0"

lemma end_auxv_ok:
  assumes "length xs = n" "2 * w \<le> n"
  shows "length (end_auxv w xs) = n \<and> drop (n - 2 * w) (end_auxv w xs) = replicate (2 * w) 0"
  using assms by (simp add: end_auxv_def)

lemma set_auxv_ok:
  assumes "length saved = n" "drop (n - e) saved = replicate e 0" "e \<le> n" "length xs \<le> n"
  shows "length (take (n - e) xs @ replicate (length xs - (n - e)) 0 @ drop (length xs) saved) = n
    \<and> drop (n - e) (take (n - e) xs @ replicate (length xs - (n - e)) 0 @ drop (length xs) saved) = replicate e 0"
proof (cases "length xs \<le> n - e")
  case True
  then show ?thesis using assms by simp
next
  case False
  then have "drop (length xs) saved = drop (length xs - (n - e)) (drop (n - e) saved)" by simp
  also have "\<dots> = replicate (n - length xs) 0" using assms False by simp
  finally have d: "drop (length xs) saved = replicate (n - length xs) 0" .
  have "replicate (length xs - (n - e)) 0 @ replicate (n - length xs) 0 = replicate e 0"
    using assms False by (simp add: replicate_add [symmetric])
  then show ?thesis using assms False by (simp add: d)
qed

text \<open>Through any sequence of \<open>PR_SET_MM\<close> calls, with any partial lengths, the saved auxiliary vector keeps its
  length and ends with two zero words.\<close>

lemma auxv_stays_terminated:
  fixes k :: "'l::len word mm_api"
  assumes "auxv_ok k mm" "2 * word_bytes TYPE('l word) \<le> auxv_bytes k"
    and "\<forall>a n xs. read_bytes k a n = Some xs \<longrightarrow> length xs = n"
  shows "auxv_ok k (mm_run k calls mm)"
proof (rule mm_run_invariant [where P = "auxv_ok k"], rule assms(1))
  fix mm :: "'l word mm" and opt addr arg4 arg5
  assume ok: "auxv_ok k mm"
  show "auxv_ok k (snd (prctl_set_mm k opt addr arg4 arg5 mm))"
  proof (cases rule: set_mm_result [of k opt addr arg4 arg5 mm])
    case map
    show ?thesis
    proof (cases rule: set_mm_map_result [of k opt addr arg4 mm])
      case (layout m mm' xs)
      have "saved_auxv mm' = saved_auxv mm"
        using layout(2) by (cases rule: exe_file_result [of k "exe_fd m" mm]) auto
      have "unat (auxv_size m) \<le> auxv_bytes k" if "auxv_size m \<noteq> 0"
        using layout(1) that by (auto simp: validate_prctl_map_def Let_def EINVAL_def split: if_splits)
      then have "unat (auxv_size m) \<le> auxv_bytes k" by (cases "auxv_size m = 0") auto
      then have "length ys \<le> auxv_bytes k" if "read_bytes k (auxv m) (unat (auxv_size m)) = Some ys" for ys
        using assms(3) that by fastforce
      with layout ok assms(2) map show ?thesis
        by (auto simp: auxv_ok_def end_auxv_ok)
    qed (use map ok in \<open>auto simp: auxv_ok_def\<close>)
  next
    case exe
    then show ?thesis using ok by (cases rule: exe_file_result [of k "ucast addr" mm]) (auto simp: auxv_ok_def)
  next
    case auxv
    show ?thesis
    proof (cases "unat arg4 > auxv_bytes k \<or> read_bytes k addr (unat arg4) = None")
      case True
      then show ?thesis using auxv ok by (auto simp: prctl_set_auxv_def)
    next
      case False
      then obtain xs where xs: "read_bytes k addr (unat arg4) = Some xs" "unat arg4 \<le> auxv_bytes k" by auto
      then have "length xs = unat arg4" using assms(3) by blast
      with xs auxv ok show ?thesis
        using set_auxv_ok [of "saved_auxv mm" "auxv_bytes k" "2 * word_bytes TYPE('l word)" xs] assms(2)
        by (simp add: prctl_set_auxv_def auxv_ok_def Let_def)
    qed
  qed (use ok in \<open>simp_all add: auxv_ok_def\<close>)
qed

section \<open>The executable\<close>

text \<open>C34: If a sequence of \<open>PR_SET_MM\<close> calls has changed the executable of a process, the caller had a capability, the
  new one is an open, regular, executable file, and the old one was no longer mapped.\<close>

theorem exe_file_guarded:
  fixes k :: "'l::len word mm_api"
  assumes "exe_file (mm_run k calls mm) = Some f" "exe_file mm \<noteq> Some f"
  shows "(sys_admin k \<or> sys_resource k) \<and> (\<exists>fd. fdget k fd = Some f) \<and> regular k f \<and> \<not> path_noexec k f
    \<and> may_exec k f = 0 \<and> (\<forall>old. exe_file mm = Some old \<longrightarrow> path k old \<notin> set (mapped_paths k))"
proof -
  let ?new = "\<lambda>f. (sys_admin k \<or> sys_resource k) \<and> (\<exists>fd. fdget k fd = Some f) \<and> regular k f \<and> \<not> path_noexec k f
    \<and> may_exec k f = 0 \<and> (\<forall>old. exe_file mm = Some old \<longrightarrow> path k old \<notin> set (mapped_paths k))"
  let ?P = "\<lambda>mm'. exe_file mm' = exe_file mm \<or> (\<exists>f. exe_file mm' = Some f \<and> ?new f)"
  have step: "?P (snd (prctl_set_mm_exe_file k fd mm'))" if "?P mm'" "sys_admin k \<or> sys_resource k" for fd mm'
    using that by (cases rule: exe_file_result [of k fd mm']) auto
  have "?P (mm_run k calls mm)"
  proof (rule mm_run_invariant [where P = ?P])
    fix mm' :: "'l word mm" and opt addr arg4 arg5
    assume P: "?P mm'"
    show "?P (snd (prctl_set_mm k opt addr arg4 arg5 mm'))"
    proof (cases rule: set_mm_result [of k opt addr arg4 arg5 mm'])
      case map
      show ?thesis
      proof (cases rule: set_mm_map_result [of k opt addr arg4 mm'])
        case (layout m mm'' xs)
        have "?P mm''"
        proof (cases "exe_fd m = - 1")
          case True
          then show ?thesis using layout(2) P by simp
        next
          case False
          then have "snd (prctl_set_mm_exe_file k (exe_fd m) mm') = mm''" using layout(2) by simp
          with step [OF P, of "exe_fd m"] validated_fd [OF layout(1) False] show ?thesis by blast
        qed
        then show ?thesis using map layout(4) by simp
      qed (use map P in \<open>auto\<close>)
    next
      case exe
      then show ?thesis using step [OF P] by simp
    next
      case auxv
      have "exe_file (snd (prctl_set_auxv k addr arg4 mm')) = exe_file mm'"
        by (simp add: prctl_set_auxv_def Let_def split: option.split)
      then show ?thesis using auxv P by simp
    qed (use P in \<open>auto\<close>)
  qed simp
  with assms show ?thesis by auto
qed

section \<open>Examples\<close>

theorem mm_layout_stays_valid_witness:
  "layout_ok (arm_api low_heap) (mm_layout (mm_run (arm_api low_heap) [(PR_SET_MM_MAP, 0, 104, 0)] arm_mm))"
proof -
  have "layout_ok (arm_api low_heap) (mm_layout arm_mm)"
    by (simp add: layout_ok_def arm_mm_def low_heap_def low_brk_def arm_api_def fields_def cast_layout_def pairs_ordered_def)
  then show ?thesis using mm_layout_stays_valid by blast
qed

text \<open>With the capability and two files, of which the second is executable and not mapped.\<close>

definition exe_api :: "32 word mm_api" where
  "exe_api = (arm_api low_heap)\<lparr>fdget := (\<lambda>fd. Some (unat fd)), regular := (\<lambda>_. True), sys_resource := True\<rparr>"

theorem exe_file_guarded_witness:
  "regular exe_api 2 \<and> exe_file (mm_run exe_api [(PR_SET_MM_EXE_FILE, 2, 0, 0)] arm_mm) = Some 2"
proof -
  have e: "exe_file (mm_run exe_api [(PR_SET_MM_EXE_FILE, 2, 0, 0)] arm_mm) = Some 2"
    by (simp add: mm_run_def mm_step_def prctl_set_mm_def prctl_set_mm_exe_file_def mm_opts exe_api_def arm_api_def arm_mm_def)
  have "exe_file arm_mm \<noteq> Some 2" by (simp add: arm_mm_def)
  from exe_file_guarded [OF e this] e show ?thesis by blast
qed

end
