(* ===== verification/Prctl.thy ===== *)
theory Prctl
  imports MmMap
begin

text \<open>
  \<^verbatim>\<open>prctl\<close> and \<^verbatim>\<open>getcpu\<close> of \<^verbatim>\<open>HW2_APES/PROBLEM5/system_call/sys.c\<close>, with \<^verbatim>\<open>prctl_get_tid_address\<close> and
  \<^verbatim>\<open>propagate_has_child_subreaper\<close>.

  The options are the constructors of \<open>prctl_option\<close>; \<open>Unknown\<close> is any other number. User memory, the
  security module, the walk over the descendants of a process, and the options that the code only
  passes on (to the architecture, to seccomp and to perf) are parameters; the module and these options may
  change the state of the process in any way. A copy to user memory that fails gives the number of
  bytes left and the memory as it is then. The layout of the memory is that of \<open>MmMap\<close>.
\<close>

section \<open>State\<close>

datatype prctl_option =
    PR_SET_PDEATHSIG | PR_GET_PDEATHSIG | PR_GET_DUMPABLE | PR_SET_DUMPABLE
  | PR_SET_UNALIGN | PR_GET_UNALIGN | PR_SET_FPEMU | PR_GET_FPEMU | PR_SET_FPEXC | PR_GET_FPEXC
  | PR_GET_TIMING | PR_SET_TIMING | PR_SET_NAME | PR_GET_NAME | PR_GET_ENDIAN | PR_SET_ENDIAN
  | PR_GET_SECCOMP | PR_SET_SECCOMP | PR_GET_TSC | PR_SET_TSC | PR_TASK_PERF_EVENTS_DISABLE
  | PR_TASK_PERF_EVENTS_ENABLE | PR_GET_TIMERSLACK | PR_SET_TIMERSLACK | PR_MCE_KILL | PR_MCE_KILL_GET
  | PR_SET_MM | PR_GET_TID_ADDRESS | PR_SET_CHILD_SUBREAPER | PR_GET_CHILD_SUBREAPER
  | PR_SET_NO_NEW_PRIVS | PR_GET_NO_NEW_PRIVS | PR_GET_THP_DISABLE | PR_SET_THP_DISABLE
  | PR_MPX_ENABLE_MANAGEMENT | PR_MPX_DISABLE_MANAGEMENT | PR_SET_FP_MODE | PR_GET_FP_MODE
  | Unknown int

record reaper_flags =
  is_child_subreaper :: "nat \<Rightarrow> bool"
  has_child_subreaper :: "nat \<Rightarrow> bool"

record ('u, 'l) proc =
  pdeath_signal :: 'l
  dumpable :: 'l
  comm :: string
  timer_slack_ns :: "64 word"
  default_timer_slack_ns :: "64 word"
  mce_process :: bool
  mce_early :: bool
  clear_child_tid :: 'l
  reapers :: reaper_flags
  no_new_privs :: bool
  thp_disabled :: bool
  memory :: "'l mm"
  user_mem :: 'u

record ('u, 'l) prctl_api =
  me :: nat
  lsm_prctl :: "prctl_option \<Rightarrow> 'l \<Rightarrow> 'l \<Rightarrow> 'l \<Rightarrow> 'l \<Rightarrow> ('u, 'l) proc \<Rightarrow> int \<times> ('u, 'l) proc"
  arch_ctl :: "prctl_option \<Rightarrow> ('l \<Rightarrow> ('u, 'l) proc \<Rightarrow> int \<times> ('u, 'l) proc) option"
  passed_on :: "prctl_option \<Rightarrow> 'l \<Rightarrow> 'l \<Rightarrow> ('u, 'l) proc \<Rightarrow> int \<times> ('u, 'l) proc"
  put_bytes :: "'u \<Rightarrow> 'l \<Rightarrow> nat \<Rightarrow> 'l \<Rightarrow> 'u option"
  copy_to_user :: "'u \<Rightarrow> 'l \<Rightarrow> string \<Rightarrow> nat \<times> 'u"
  strncpy_from_user :: "'u \<Rightarrow> 'l \<Rightarrow> nat \<Rightarrow> string option"
  nsig :: 'l
  child_reaper :: "nat \<Rightarrow> bool"
  walk_process_tree :: "nat \<Rightarrow> (nat \<Rightarrow> reaper_flags \<Rightarrow> bool \<times> reaper_flags) \<Rightarrow> reaper_flags \<Rightarrow> reaper_flags"
  mm_killed :: bool
  mm_services :: "'l mm_api"

definition ENOSYS :: int where "ENOSYS = 38"
definition EINTR :: int where "EINTR = 4"

lemmas prctl_errno = mm_errno ENOSYS_def EINTR_def

definition PR_MCE_KILL_CLEAR :: "'l::len word" where "PR_MCE_KILL_CLEAR = 0"
definition PR_MCE_KILL_SET :: "'l::len word" where "PR_MCE_KILL_SET = 1"
definition PR_MCE_KILL_LATE :: "'l::len word" where "PR_MCE_KILL_LATE = 0"
definition PR_MCE_KILL_EARLY :: "'l::len word" where "PR_MCE_KILL_EARLY = 1"
definition PR_MCE_KILL_DEFAULT :: "'l::len word" where "PR_MCE_KILL_DEFAULT = 2"
definition COMM_LEN :: nat where "COMM_LEN = 16"

lemmas mce_consts = PR_MCE_KILL_CLEAR_def PR_MCE_KILL_SET_def PR_MCE_KILL_LATE_def PR_MCE_KILL_EARLY_def
  PR_MCE_KILL_DEFAULT_def

section \<open>The options\<close>

text \<open>An option that an architecture can bring: where it does not, the macro that stands in for it answers
  -EINVAL. Some take no argument.\<close>

definition arch_option :: "('u, 'l) prctl_api \<Rightarrow> prctl_option \<Rightarrow> 'l \<Rightarrow> ('u, 'l) proc \<Rightarrow> int \<times> ('u, 'l) proc" where
  "arch_option k opt arg2 t = (case arch_ctl k opt of None \<Rightarrow> (- EINVAL, t) | Some ctl \<Rightarrow> ctl arg2 t)"

text \<open>Storing the lower \<open>n\<close> bytes of a word in the caller's memory.\<close>

definition put_user :: "('u, 'l) prctl_api \<Rightarrow> nat \<Rightarrow> 'l \<Rightarrow> 'l \<Rightarrow> ('u, 'l) proc \<Rightarrow> int \<times> ('u, 'l) proc" where
  "put_user k n v p t = (case put_bytes k (user_mem t) p n v of
     None \<Rightarrow> (- EFAULT, t)
   | Some u \<Rightarrow> (0, t\<lparr>user_mem := u\<rparr>))"

definition prctl_get_tid_address :: "('u, 'l::len word) prctl_api \<Rightarrow> 'l word \<Rightarrow> ('u, 'l word) proc \<Rightarrow> int \<times> ('u, 'l word) proc" where
  "prctl_get_tid_address k p t =
    (if checkpoint_restore (mm_services k) then put_user k (LENGTH('l) div 8) (clear_child_tid t) p t else (- EINVAL, t))"

text \<open>The visitor says whether the walk goes on below the process.\<close>

definition propagate_has_child_subreaper :: "(nat \<Rightarrow> bool) \<Rightarrow> nat \<Rightarrow> reaper_flags \<Rightarrow> bool \<times> reaper_flags" where
  "propagate_has_child_subreaper reaper p r =
    (if has_child_subreaper r p \<or> reaper p then (False, r)
     else (True, r\<lparr>has_child_subreaper := (has_child_subreaper r)(p := True)\<rparr>))"

definition prctl_subreaper :: "('u, 'l::len word) prctl_api \<Rightarrow> 'l word \<Rightarrow> ('u, 'l word) proc \<Rightarrow> int \<times> ('u, 'l word) proc" where
  "prctl_subreaper k arg2 t =
    (let r = reapers t; r = r\<lparr>is_child_subreaper := (is_child_subreaper r)(me k := (arg2 \<noteq> 0))\<rparr> in
     if arg2 = 0 then (0, t\<lparr>reapers := r\<rparr>)
     else (0, t\<lparr>reapers := walk_process_tree k (me k) (propagate_has_child_subreaper (child_reaper k)) r\<rparr>))"

definition prctl_name :: "('u, 'l) prctl_api \<Rightarrow> 'l \<Rightarrow> ('u, 'l) proc \<Rightarrow> int \<times> ('u, 'l) proc" where
  "prctl_name k arg2 t =
    (case strncpy_from_user k (user_mem t) arg2 (COMM_LEN - 1) of
       None \<Rightarrow> (- EFAULT, t)
     | Some s \<Rightarrow> (0, t\<lparr>comm := s\<rparr>))"

definition prctl_get_name :: "('u, 'l) prctl_api \<Rightarrow> 'l \<Rightarrow> ('u, 'l) proc \<Rightarrow> int \<times> ('u, 'l) proc" where
  "prctl_get_name k arg2 t =
    (case copy_to_user k (user_mem t) arg2 (comm t @ replicate (COMM_LEN - length (comm t)) (CHR 0x00)) of
       (left, u) \<Rightarrow> (if left \<noteq> 0 then - EFAULT else 0, t\<lparr>user_mem := u\<rparr>))"

text \<open>The result of the system call is a \<^verbatim>\<open>long\<close>: large values of the slack come back negative.\<close>

definition prctl_get_timerslack :: "('u, 'l::len word) proc \<Rightarrow> int" where
  "prctl_get_timerslack t =
    (if unat (timer_slack_ns t) > 2 ^ LENGTH('l) - 1 then sint (- 1 :: 'l word)
     else sint (ucast (timer_slack_ns t) :: 'l word))"

definition prctl_set_timerslack :: "'l::len word \<Rightarrow> ('u, 'l word) proc \<Rightarrow> ('u, 'l word) proc" where
  "prctl_set_timerslack arg2 t =
    (if arg2 \<le> 0 then t\<lparr>timer_slack_ns := default_timer_slack_ns t\<rparr> else t\<lparr>timer_slack_ns := ucast arg2\<rparr>)"

definition prctl_mce_kill :: "'l::len word \<Rightarrow> 'l word \<Rightarrow> 'l word \<Rightarrow> 'l word \<Rightarrow> ('u, 'l word) proc \<Rightarrow> int \<times> ('u, 'l word) proc" where
  "prctl_mce_kill arg2 arg3 arg4 arg5 t =
    (if arg4 \<noteq> 0 \<or> arg5 \<noteq> 0 then (- EINVAL, t)
     else if arg2 = PR_MCE_KILL_CLEAR then
       (if arg3 \<noteq> 0 then (- EINVAL, t) else (0, t\<lparr>mce_process := False\<rparr>))
     else if arg2 = PR_MCE_KILL_SET then
       (let t = t\<lparr>mce_process := True\<rparr> in
        if arg3 = PR_MCE_KILL_EARLY then (0, t\<lparr>mce_early := True\<rparr>)
        else if arg3 = PR_MCE_KILL_LATE then (0, t\<lparr>mce_early := False\<rparr>)
        else if arg3 = PR_MCE_KILL_DEFAULT then (0, t\<lparr>mce_early := False, mce_process := False\<rparr>)
        else (- EINVAL, t))
     else (- EINVAL, t))"

definition prctl_mce_kill_get :: "('u, 'l::len word) proc \<Rightarrow> int" where
  "prctl_mce_kill_get t =
    (if mce_process t then (if mce_early t then uint (PR_MCE_KILL_EARLY :: 'l word) else uint (PR_MCE_KILL_LATE :: 'l word))
     else uint (PR_MCE_KILL_DEFAULT :: 'l word))"

text \<open>The options from \<open>PR_MCE_KILL\<close> on, and the whole call.\<close>

definition prctl_rest :: "('u, 'l::len word) prctl_api \<Rightarrow> prctl_option \<Rightarrow> 'l word \<Rightarrow> 'l word \<Rightarrow> 'l word \<Rightarrow> 'l word
    \<Rightarrow> ('u, 'l word) proc \<Rightarrow> int \<times> ('u, 'l word) proc" where
  "prctl_rest k opt arg2 arg3 arg4 arg5 t = (case opt of
     PR_MCE_KILL \<Rightarrow> prctl_mce_kill arg2 arg3 arg4 arg5 t
   | PR_MCE_KILL_GET \<Rightarrow>
       if arg2 \<noteq> 0 \<or> arg3 \<noteq> 0 \<or> arg4 \<noteq> 0 \<or> arg5 \<noteq> 0 then (- EINVAL, t) else (prctl_mce_kill_get t, t)
   | PR_SET_MM \<Rightarrow>
       (case prctl_set_mm (mm_services k) (sint (ucast arg2 :: 32 word)) arg3 arg4 arg5 (memory t) of
          (r, m) \<Rightarrow> (r, t\<lparr>memory := m\<rparr>))
   | PR_GET_TID_ADDRESS \<Rightarrow> prctl_get_tid_address k arg2 t
   | PR_SET_CHILD_SUBREAPER \<Rightarrow> prctl_subreaper k arg2 t
   | PR_GET_CHILD_SUBREAPER \<Rightarrow> put_user k 4 (of_bool (is_child_subreaper (reapers t) (me k))) arg2 t
   | PR_SET_NO_NEW_PRIVS \<Rightarrow>
       if arg2 \<noteq> 1 \<or> arg3 \<noteq> 0 \<or> arg4 \<noteq> 0 \<or> arg5 \<noteq> 0 then (- EINVAL, t) else (0, t\<lparr>no_new_privs := True\<rparr>)
   | PR_GET_NO_NEW_PRIVS \<Rightarrow>
       if arg2 \<noteq> 0 \<or> arg3 \<noteq> 0 \<or> arg4 \<noteq> 0 \<or> arg5 \<noteq> 0 then (- EINVAL, t)
       else (if no_new_privs t then 1 else 0, t)
   | PR_GET_THP_DISABLE \<Rightarrow>
       if arg2 \<noteq> 0 \<or> arg3 \<noteq> 0 \<or> arg4 \<noteq> 0 \<or> arg5 \<noteq> 0 then (- EINVAL, t)
       else (if thp_disabled t then 1 else 0, t)
   | PR_SET_THP_DISABLE \<Rightarrow>
       if arg3 \<noteq> 0 \<or> arg4 \<noteq> 0 \<or> arg5 \<noteq> 0 then (- EINVAL, t)
       else if mm_killed k then (- EINTR, t)
       else (0, t\<lparr>thp_disabled := (arg2 \<noteq> 0)\<rparr>)
   | PR_MPX_ENABLE_MANAGEMENT \<Rightarrow>
       if arg2 \<noteq> 0 \<or> arg3 \<noteq> 0 \<or> arg4 \<noteq> 0 \<or> arg5 \<noteq> 0 then (- EINVAL, t) else arch_option k opt 0 t
   | PR_MPX_DISABLE_MANAGEMENT \<Rightarrow>
       if arg2 \<noteq> 0 \<or> arg3 \<noteq> 0 \<or> arg4 \<noteq> 0 \<or> arg5 \<noteq> 0 then (- EINVAL, t) else arch_option k opt 0 t
   | PR_SET_FP_MODE \<Rightarrow> arch_option k opt arg2 t
   | PR_GET_FP_MODE \<Rightarrow> arch_option k opt 0 t
   | _ \<Rightarrow> (- EINVAL, t))"

definition prctl :: "('u, 'l::len word) prctl_api \<Rightarrow> prctl_option \<Rightarrow> 'l word \<Rightarrow> 'l word \<Rightarrow> 'l word \<Rightarrow> 'l word
    \<Rightarrow> ('u, 'l word) proc \<Rightarrow> int \<times> ('u, 'l word) proc" where
  "prctl k opt arg2 arg3 arg4 arg5 t =
    (let (error, t) = lsm_prctl k opt arg2 arg3 arg4 arg5 t in
     if error \<noteq> - ENOSYS then (error, t)
     else (case opt of
       PR_SET_PDEATHSIG \<Rightarrow> if \<not> arg2 \<le> nsig k then (- EINVAL, t) else (0, t\<lparr>pdeath_signal := arg2\<rparr>)
     | PR_GET_PDEATHSIG \<Rightarrow> put_user k 4 (pdeath_signal t) arg2 t
     | PR_GET_DUMPABLE \<Rightarrow> (uint (dumpable t), t)
     | PR_SET_DUMPABLE \<Rightarrow> if arg2 \<noteq> 0 \<and> arg2 \<noteq> 1 then (- EINVAL, t) else (0, t\<lparr>dumpable := arg2\<rparr>)
     | PR_SET_UNALIGN \<Rightarrow> arch_option k opt arg2 t
     | PR_GET_UNALIGN \<Rightarrow> arch_option k opt arg2 t
     | PR_SET_FPEMU \<Rightarrow> arch_option k opt arg2 t
     | PR_GET_FPEMU \<Rightarrow> arch_option k opt arg2 t
     | PR_SET_FPEXC \<Rightarrow> arch_option k opt arg2 t
     | PR_GET_FPEXC \<Rightarrow> arch_option k opt arg2 t
     | PR_GET_TIMING \<Rightarrow> (0, t)
     | PR_SET_TIMING \<Rightarrow> if arg2 \<noteq> 0 then (- EINVAL, t) else (0, t)
     | PR_SET_NAME \<Rightarrow> prctl_name k arg2 t
     | PR_GET_NAME \<Rightarrow> prctl_get_name k arg2 t
     | PR_GET_ENDIAN \<Rightarrow> arch_option k opt arg2 t
     | PR_SET_ENDIAN \<Rightarrow> arch_option k opt arg2 t
     | PR_GET_SECCOMP \<Rightarrow> passed_on k opt arg2 arg3 t
     | PR_SET_SECCOMP \<Rightarrow> passed_on k opt arg2 arg3 t
     | PR_GET_TSC \<Rightarrow> arch_option k opt arg2 t
     | PR_SET_TSC \<Rightarrow> arch_option k opt arg2 t
     | PR_TASK_PERF_EVENTS_DISABLE \<Rightarrow> passed_on k opt arg2 arg3 t
     | PR_TASK_PERF_EVENTS_ENABLE \<Rightarrow> passed_on k opt arg2 arg3 t
     | PR_GET_TIMERSLACK \<Rightarrow> (prctl_get_timerslack t, t)
     | PR_SET_TIMERSLACK \<Rightarrow> (0, prctl_set_timerslack arg2 t)
     | _ \<Rightarrow> prctl_rest k opt arg2 arg3 arg4 arg5 t))"

text \<open>\<^verbatim>\<open>getcpu\<close>: a null pointer is not written to.\<close>

definition getcpu :: "('u, 'l::len word) prctl_api \<Rightarrow> 'l word \<Rightarrow> ('l word \<Rightarrow> 'l word) \<Rightarrow> 'l word \<Rightarrow> 'l word
    \<Rightarrow> ('u, 'l word) proc \<Rightarrow> int \<times> ('u, 'l word) proc" where
  "getcpu k cpu cpu_to_node cpup nodep t =
    (let (err, t) = (if cpup \<noteq> 0 then put_user k 4 cpu cpup t else (0, t));
         (err', t) = (if nodep \<noteq> 0 then put_user k 4 (cpu_to_node cpu) nodep t else (0, t))
     in (if err \<noteq> 0 \<or> err' \<noteq> 0 then - EFAULT else 0, t))"

section \<open>A call that fails changes nothing, but for one option\<close>

lemma set_mm_error: "fst (prctl_set_mm k opt addr arg4 arg5 mm) \<noteq> 0 \<Longrightarrow> snd (prctl_set_mm k opt addr arg4 arg5 mm) = mm"
proof (cases rule: set_mm_result [of k opt addr arg4 arg5 mm])
  case map
  then show "fst (prctl_set_mm k opt addr arg4 arg5 mm) \<noteq> 0 \<Longrightarrow> ?thesis"
    by (cases rule: set_mm_map_result [of k opt addr arg4 mm]) auto
next
  case exe
  then show "fst (prctl_set_mm k opt addr arg4 arg5 mm) \<noteq> 0 \<Longrightarrow> ?thesis"
    by (cases rule: exe_file_result [of k "ucast addr" mm]) auto
next
  case auxv
  then show "fst (prctl_set_mm k opt addr arg4 arg5 mm) \<noteq> 0 \<Longrightarrow> ?thesis"
    by (auto simp: prctl_set_auxv_def Let_def split: option.splits if_splits)
qed auto

text \<open>The property of a result, with rules for the forms that results have.\<close>

definition harmless :: "'t \<Rightarrow> int \<times> 't \<Rightarrow> bool" where
  "harmless t r \<longleftrightarrow> fst r \<noteq> 0 \<longrightarrow> snd r = t"

lemma harmless_simps: "harmless t (e, t)" "harmless t (0, t')"
  "harmless t a \<Longrightarrow> harmless t b \<Longrightarrow> harmless t (if c then a else b)"
  by (simp_all add: harmless_def)

lemma put_user_harmless: "harmless t (put_user k n v p t)"
  by (auto simp: put_user_def harmless_def split: option.split)

lemma option_harmless:
  "harmless t (put_user k n v p t)" "harmless t (prctl_get_tid_address k p t)" "harmless t (prctl_subreaper k v t)"
  "harmless t (prctl_name k p t)"
  by (auto simp: put_user_harmless prctl_get_tid_address_def prctl_subreaper_def Let_def prctl_name_def
      harmless_simps split: option.split)

lemma set_mm_harmless:
  "harmless t (case prctl_set_mm k opt addr arg4 arg5 (memory t) of (r, m) \<Rightarrow> (r, t\<lparr>memory := m\<rparr>))"
  using set_mm_error [of k opt addr arg4 arg5 "memory t"] by (simp add: harmless_def split_beta)

lemma mce_kill_error:
  assumes "fst (prctl_mce_kill arg2 arg3 arg4 arg5 t) \<noteq> 0"
  shows "snd (prctl_mce_kill arg2 arg3 arg4 arg5 t) = t
    \<or> arg2 = PR_MCE_KILL_SET \<and> arg3 \<notin> {PR_MCE_KILL_EARLY, PR_MCE_KILL_LATE, PR_MCE_KILL_DEFAULT}
      \<and> prctl_mce_kill arg2 arg3 arg4 arg5 t = (- EINVAL, t\<lparr>mce_process := True\<rparr>)"
proof -
  let ?known = "arg3 = PR_MCE_KILL_EARLY \<or> arg3 = PR_MCE_KILL_LATE \<or> arg3 = PR_MCE_KILL_DEFAULT"
  consider "arg4 \<noteq> 0 \<or> arg5 \<noteq> 0" | "arg4 = 0 \<and> arg5 = 0" "arg2 = PR_MCE_KILL_CLEAR"
    | "arg4 = 0 \<and> arg5 = 0" "arg2 \<noteq> PR_MCE_KILL_CLEAR" "arg2 \<noteq> PR_MCE_KILL_SET"
    | "arg4 = 0 \<and> arg5 = 0" "arg2 \<noteq> PR_MCE_KILL_CLEAR" "arg2 = PR_MCE_KILL_SET" ?known
    | "arg4 = 0 \<and> arg5 = 0" "arg2 \<noteq> PR_MCE_KILL_CLEAR" "arg2 = PR_MCE_KILL_SET" "\<not> ?known"
    by blast
  then show ?thesis
  proof cases
    case 1
    then show ?thesis unfolding prctl_mce_kill_def by simp
  next
    case 2
    then show ?thesis using assms unfolding prctl_mce_kill_def by (cases "arg3 = 0") simp_all
  next
    case 3
    then show ?thesis unfolding prctl_mce_kill_def by simp
  next
    case 4
    then have "fst (prctl_mce_kill arg2 arg3 arg4 arg5 t) = 0"
      unfolding prctl_mce_kill_def Let_def by (simp only: if_False if_True simp_thms fst_conv split: if_split) blast
    with assms show ?thesis by simp
  next
    case 5
    then have "prctl_mce_kill arg2 arg3 arg4 arg5 t = (- EINVAL, t\<lparr>mce_process := True\<rparr>)"
      unfolding prctl_mce_kill_def Let_def by simp
    with 5 show ?thesis by simp
  qed
qed

text \<open>The options that this file carries out itself: all but those that it passes on to seccomp, to perf, or to an
  architecture that has them.\<close>

definition arch_options :: "prctl_option set" where
  "arch_options = {PR_SET_UNALIGN, PR_GET_UNALIGN, PR_SET_FPEMU, PR_GET_FPEMU, PR_SET_FPEXC, PR_GET_FPEXC, PR_GET_ENDIAN,
     PR_SET_ENDIAN, PR_GET_TSC, PR_SET_TSC, PR_MPX_ENABLE_MANAGEMENT, PR_MPX_DISABLE_MANAGEMENT, PR_SET_FP_MODE, PR_GET_FP_MODE}"

definition carried_out_here :: "('u, 'l) prctl_api \<Rightarrow> prctl_option \<Rightarrow> bool" where
  "carried_out_here k opt \<longleftrightarrow>
     opt \<notin> {PR_GET_SECCOMP, PR_SET_SECCOMP, PR_TASK_PERF_EVENTS_DISABLE, PR_TASK_PERF_EVENTS_ENABLE}
     \<and> (opt \<in> arch_options \<longrightarrow> arch_ctl k opt = None)"

text \<open>An option that an architecture does not bring answers -EINVAL.\<close>

lemma arch_option_harmless:
  "carried_out_here k opt \<Longrightarrow> opt \<in> arch_options \<Longrightarrow> harmless t (arch_option k opt v t)"
  by (simp add: carried_out_here_def arch_option_def harmless_simps)

lemma prctl_rest_harmless:
  assumes "opt \<noteq> PR_MCE_KILL" "carried_out_here k opt"
  shows "harmless t (prctl_rest k opt arg2 arg3 arg4 arg5 t)"
  using assms arch_option_harmless [OF assms(2), unfolded arch_options_def]
  by (cases opt; (simp only: prctl_rest_def prctl_option.case simp_thms)?;
      (intro harmless_simps option_harmless set_mm_harmless)?; blast)

lemma prctl_unless_lsm:
  "lsm_prctl k opt arg2 arg3 arg4 arg5 t = (- ENOSYS, t) \<Longrightarrow> opt = PR_MCE_KILL
    \<Longrightarrow> prctl k opt arg2 arg3 arg4 arg5 t = prctl_mce_kill arg2 arg3 arg4 arg5 t"
  "lsm_prctl k opt arg2 arg3 arg4 arg5 t = (- ENOSYS, t) \<Longrightarrow> opt = PR_GET_NAME
    \<Longrightarrow> prctl k opt arg2 arg3 arg4 arg5 t = prctl_get_name k arg2 t"
  by (simp_all add: prctl_def prctl_rest_def)

lemma prctl_harmless:
  assumes "opt \<noteq> PR_MCE_KILL" "opt \<noteq> PR_GET_NAME" "carried_out_here k opt"
    and "lsm_prctl k opt arg2 arg3 arg4 arg5 t = (- ENOSYS, t)"
  shows "harmless t (prctl k opt arg2 arg3 arg4 arg5 t)"
  using assms(1-3) arch_option_harmless [OF assms(3), unfolded arch_options_def]
  unfolding prctl_def assms(4) Let_def prod.case
  by (intro harmless_simps; cases opt; (simp only: prctl_option.case simp_thms)?;
      (intro harmless_simps option_harmless prctl_rest_harmless)?; (simp add: carried_out_here_def; fail)?; blast)


lemma no_arch_options:
  assumes "arch_ctl k opt = None" "lsm_prctl k opt a b c d t = (- ENOSYS, t)" "opt \<in> arch_options"
  shows "prctl k opt a b c d t = (- EINVAL, t)"
  using assms by (auto simp: prctl_def prctl_rest_def arch_option_def arch_options_def)

section \<open>The timer slack\<close>

lemma sint_unat:
  fixes v :: "'l::len word"
  shows "sint v = (if unat v < 2 ^ (LENGTH('l) - 1) then int (unat v) else int (unat v) - 2 ^ LENGTH('l))"
proof -
  obtain n where n: "LENGTH('l) = Suc n" by (cases "LENGTH('l)") simp_all
  define u where "u = uint v"
  have u: "0 \<le> u" "u < 2 ^ Suc n" using unsigned_less [of v, where ?'a = int] by (simp_all add: u_def n)
  have s: "sint v = (u + 2 ^ n) mod 2 ^ Suc n - 2 ^ n"
    by (simp add: sint_uint n u_def signed_take_bit_eq_take_bit_shift take_bit_eq_mod)
  have small: "unat v < 2 ^ n \<longleftrightarrow> u < 2 ^ n"
    by (metis u_def uint_nat of_nat_less_iff of_nat_numeral of_nat_power)
  show ?thesis
  proof (cases "u < 2 ^ n")
    case True
    then have "(u + 2 ^ n) mod 2 ^ Suc n = u + 2 ^ n" using u by (intro mod_pos_pos_trivial) simp_all
    with True s small show ?thesis by (simp add: n u_def)
  next
    case False
    have "u + 2 ^ n = (u - 2 ^ n) + 2 ^ Suc n" by simp
    then have "(u + 2 ^ n) mod 2 ^ Suc n = (u - 2 ^ n) mod 2 ^ Suc n" by (metis mod_add_self2)
    also have "\<dots> = u - 2 ^ n" using u False by (intro mod_pos_pos_trivial) simp_all
    finally show ?thesis using False s small by (simp add: n u_def)
  qed
qed

text \<open>PR_GET_TIMERSLACK answers the slack that PR_SET_TIMERSLACK has set when it is below half the range of
  \<^verbatim>\<open>unsigned long\<close>; a larger one comes back as a negative number.\<close>

lemma timerslack_roundtrip:
  fixes k :: "('u, 'l::len word) prctl_api"
  assumes "\<And>t. lsm_prctl k PR_SET_TIMERSLACK v 0 0 0 t = (- ENOSYS, t)"
    and "\<And>t. lsm_prctl k PR_GET_TIMERSLACK 0 0 0 0 t = (- ENOSYS, t)"
    and "v > 0" "LENGTH('l) \<le> 64"
  shows "fst (prctl k PR_GET_TIMERSLACK 0 0 0 0 (snd (prctl k PR_SET_TIMERSLACK v 0 0 0 t)))
    = (if unat v < 2 ^ (LENGTH('l) - 1) then int (unat v) else int (unat v) - 2 ^ LENGTH('l))"
proof -
  let ?w = "ucast v :: 64 word"
  have "snd (prctl k PR_SET_TIMERSLACK v 0 0 0 t) = t\<lparr>timer_slack_ns := ?w\<rparr>"
    using assms(1,3) by (simp add: prctl_def prctl_set_timerslack_def word_gt_0 flip: word_le_0_iff)
  moreover have b: "unat v < 2 ^ LENGTH('l)" by simp
  have "(2 :: nat) ^ LENGTH('l) \<le> 2 ^ 64" using assms(4) by (intro power_increasing) simp_all
  with b have "unat v < 2 ^ 64" by linarith
  then have w: "unat ?w = unat v" by (subst unsigned_ucast_eq) (simp add: take_bit_nat_eq_self)
  have "\<not> unat ?w > 2 ^ LENGTH('l) - 1" using b unfolding w by linarith
  moreover have "unat (ucast ?w :: 'l word) = unat v"
    by (subst unsigned_ucast_eq) (simp only: w take_bit_nat_eq_self [OF b])
  then have "(ucast ?w :: 'l word) = v" by (simp add: word_unat_eq_iff)
  ultimately show ?thesis
    using assms(2) by (simp add: prctl_def prctl_get_timerslack_def sint_unat)
qed

section \<open>The promise to gain no privileges\<close>

type_synonym 'l prctl_call = "prctl_option \<times> 'l \<times> 'l \<times> 'l \<times> 'l"

definition prctl_step :: "('u, 'l::len word) prctl_api \<Rightarrow> 'l word prctl_call \<Rightarrow> ('u, 'l word) proc \<Rightarrow> ('u, 'l word) proc" where
  "prctl_step k = (\<lambda>(opt, a, b, c, d) t. snd (prctl k opt a b c d t))"

definition prctl_run :: "('u, 'l::len word) prctl_api \<Rightarrow> 'l word prctl_call list \<Rightarrow> ('u, 'l word) proc \<Rightarrow> ('u, 'l word) proc" where
  "prctl_run k = fold (prctl_step k)"

definition promised :: "int \<times> ('u, 'l) proc \<Rightarrow> bool" where
  "promised r \<longleftrightarrow> no_new_privs (snd r)"

text \<open>What the code relies on: nothing that it calls takes the promise back.\<close>

definition keeps_promise :: "('u, 'l) prctl_api \<Rightarrow> bool" where
  "keeps_promise k \<longleftrightarrow> (\<forall>t. no_new_privs t \<longrightarrow>
     (\<forall>opt a b c d. promised (lsm_prctl k opt a b c d t)) \<and> (\<forall>opt a b. promised (passed_on k opt a b t))
     \<and> (\<forall>opt ctl a. arch_ctl k opt = Some ctl \<longrightarrow> promised (ctl a t)))"

lemma promised_if: "promised a \<Longrightarrow> promised b \<Longrightarrow> promised (if c then a else b)"
  by simp

lemma promised_pair: "no_new_privs t \<Longrightarrow> promised (e, t)"
  by (simp add: promised_def)

lemma option_promised:
  assumes "no_new_privs t"
  shows "promised (put_user k n v p t)" "promised (prctl_get_tid_address k p t)" "promised (prctl_subreaper k w t)"
    "promised (prctl_name k p t)" "promised (prctl_get_name k p t)" "promised (prctl_mce_kill w x y z t)"
    "promised (case c of (r, m) \<Rightarrow> (r, t\<lparr>memory := m\<rparr>))" "promised (0, prctl_set_timerslack w t)"
  using assms
  by (auto simp: promised_def put_user_def prctl_get_tid_address_def prctl_subreaper_def Let_def prctl_name_def
      prctl_get_name_def prctl_mce_kill_def prctl_set_timerslack_def split: option.split prod.split)

lemma service_promised:
  "keeps_promise k \<Longrightarrow> no_new_privs t \<Longrightarrow> promised (passed_on k opt a b t)"
  "keeps_promise k \<Longrightarrow> no_new_privs t \<Longrightarrow> promised (arch_option k opt a t)"
  by (auto simp: keeps_promise_def arch_option_def promised_pair split: option.split)

lemma rest_promised: "keeps_promise k \<Longrightarrow> no_new_privs t \<Longrightarrow> promised (prctl_rest k opt arg2 arg3 arg4 arg5 t)"
  by (cases opt; (simp only: prctl_rest_def prctl_option.case)?;
      (intro promised_if promised_pair option_promised service_promised)?; simp)

lemma no_new_privs_step:
  assumes "keeps_promise k" "no_new_privs t"
  shows "no_new_privs (snd (prctl k opt a b c d t))"
proof -
  obtain e t' where lsm: "lsm_prctl k opt a b c d t = (e, t')" by fastforce
  then have "no_new_privs t'" using assms unfolding keeps_promise_def promised_def by (metis snd_conv)
  with assms(1) show ?thesis
    unfolding prctl_def lsm Let_def prod.case promised_def [symmetric]
    by (intro promised_if promised_pair; (cases opt)?; (simp only: prctl_option.case)?;
        (intro promised_if promised_pair option_promised service_promised rest_promised)?; simp)
qed

interpretation promise: call_invariant "prctl_step k" "\<lambda>_. keeps_promise k" no_new_privs for k
  by unfold_locales (auto simp: prctl_step_def no_new_privs_step)

text \<open>Once PR_SET_NO_NEW_PRIVS has returned 0, PR_GET_NO_NEW_PRIVS answers 1 whatever \<open>prctl\<close> calls
  are made in between.\<close>

lemma no_new_privs_for_good:
  assumes "prctl k PR_SET_NO_NEW_PRIVS 1 0 0 0 t = (0, t1)" "keeps_promise k"
    and "\<forall>a t. lsm_prctl k PR_SET_NO_NEW_PRIVS a 0 0 0 t = (- ENOSYS, t)" "\<forall>t. lsm_prctl k PR_GET_NO_NEW_PRIVS 0 0 0 0 t = (- ENOSYS, t)"
  shows "fst (prctl k PR_GET_NO_NEW_PRIVS 0 0 0 0 (prctl_run k calls t1)) = 1"
proof -
  have "no_new_privs t1" using assms by (auto simp: prctl_def prctl_rest_def)
  then have "no_new_privs (prctl_run k calls t1)"
    unfolding prctl_run_def using assms(2) by (intro promise.run_keeps) simp_all
  then show ?thesis using assms(4) by (simp add: prctl_def prctl_rest_def)
qed

section \<open>An example\<close>

definition quiet_api :: "(unit, 32 word) prctl_api" where
  "quiet_api = \<lparr>me = 1, lsm_prctl = (\<lambda>_ _ _ _ _ t. (- ENOSYS, t)), arch_ctl = (\<lambda>_. None), passed_on = (\<lambda>_ _ _ t. (0, t)),
     put_bytes = (\<lambda>_ _ _ _. None), copy_to_user = (\<lambda>u _ s. (length s, u)), strncpy_from_user = (\<lambda>_ _ _. None), nsig = 64,
     child_reaper = (\<lambda>p. p = 1), walk_process_tree = (\<lambda>_ _ r. r), mm_killed = False, mm_services = arm_api low_heap\<rparr>"

definition fresh_proc :: "(unit, 32 word) proc" where
  "fresh_proc = \<lparr>pdeath_signal = 0, dumpable = 1, comm = ''sh'', timer_slack_ns = 50000, default_timer_slack_ns = 50000,
     mce_process = False, mce_early = False, clear_child_tid = 0,
     reapers = \<lparr>is_child_subreaper = (\<lambda>_. False), has_child_subreaper = (\<lambda>_. False)\<rparr>,
     no_new_privs = False, thp_disabled = False, memory = arm_mm, user_mem = ()\<rparr>"


end
