(* ===== verification/Sysinfo.thy ===== *)
theory Sysinfo
  imports Prelude
begin

text \<open>
  Memory statistics: \<^verbatim>\<open>do_sysinfo\<close>, \<^verbatim>\<open>sysinfo\<close> and its compatibility version of
  \<^verbatim>\<open>HW2_APES/PROBLEM5/system_call/sys.c\<close>.

  An \<^verbatim>\<open>unsigned long\<close> is an \<open>'l word\<close>. The clock, the load averages, the number of threads, the memory
  counters with their unit, the page size and the user's memory are parameters: a copy of the
  structure gives the memory afterwards and the number of bytes that are missing, \<open>__put_user\<close> stores
  one field of some width or fails.
\<close>

section \<open>The structure\<close>

record 'w memory =
  totalram :: 'w
  freeram :: 'w
  sharedram :: 'w
  bufferram :: 'w
  totalswap :: 'w
  freeswap :: 'w
  totalhigh :: 'w
  freehigh :: 'w

record ('w, 'p) sysinfo =
  uptime :: 'w
  loads :: "'w list"
  procs :: 'p
  mem :: "'w memory"
  mem_unit :: "32 word"

record 'w sysinfo_api =
  boottime :: "int \<times> int"
  avenrun :: "'w list"
  nr_threads :: int
  meminfo :: "'w memory"
  meminfo_unit :: "32 word"
  page_size :: "32 word"

record ('w, 'u) info_user =
  copy_to_user :: "'u \<Rightarrow> addr \<Rightarrow> ('w, 16 word) sysinfo \<Rightarrow> 'u \<times> nat"
  access_ok :: "addr \<Rightarrow> nat \<Rightarrow> bool"
  put_user :: "nat \<Rightarrow> nat \<Rightarrow> addr \<Rightarrow> 'u \<Rightarrow> int \<times> 'u"

text \<open>\<open>put_user c n v p m\<close> stores the \<open>n\<close> bytes of the number \<open>v\<close> at \<open>p\<close>.\<close>

definition map_memory :: "('a \<Rightarrow> 'b) \<Rightarrow> 'a memory \<Rightarrow> 'b memory" where
  "map_memory f m = \<lparr>totalram = f (totalram m), freeram = f (freeram m), sharedram = f (sharedram m),
     bufferram = f (bufferram m), totalswap = f (totalswap m), freeswap = f (freeswap m), totalhigh = f (totalhigh m),
     freehigh = f (freehigh m)\<rparr>"

section \<open>The calls\<close>

text \<open>The loop that counts the bits of the unit; \<open>None\<close> when the amount overflows.\<close>

function unit_bits :: "32 word \<Rightarrow> 'l::len word \<Rightarrow> nat \<Rightarrow> nat option" where
  "unit_bits unit amount bitcount =
    (if unit > 1 then
       (let amount' = push_bit 1 amount in
        if amount' < amount then None else unit_bits (drop_bit 1 unit) amount' (Suc bitcount))
     else Some bitcount)"
  by pat_completeness auto

termination
proof (relation "measure (\<lambda>(unit, amount, n). unat unit)")
  fix unit :: "32 word" and amount amount' :: "'l word" and n
  assume "unit > 1"
  then have "0 < unat unit" by (simp add: word_less_nat_alt)
  moreover have "unat (drop_bit 1 unit) = unat unit div 2"
    by (simp add: drop_bit_eq_div unat_div)
  ultimately show "((drop_bit 1 unit, amount', Suc n), (unit, amount, n)) \<in> measure (\<lambda>(unit, amount, n). unat unit)"
    by simp
qed simp

declare unit_bits.simps [simp del]

definition do_sysinfo :: "'l::len word sysinfo_api \<Rightarrow> ('l word, 16 word) sysinfo" where
  "do_sysinfo k =
    (let m = meminfo k;
         info = \<lparr>uptime = word_of_int (fst (boottime k) + (if snd (boottime k) \<noteq> 0 then 1 else 0)),
           loads = avenrun k, procs = word_of_int (nr_threads k), mem = m, mem_unit = meminfo_unit k\<rparr>;
         mem_total = totalram m + totalswap m in
     if mem_total < totalram m \<or> mem_total < totalswap m then info
     else (case unit_bits (mem_unit info) mem_total 0 of
         None \<Rightarrow> info
       | Some bitcount \<Rightarrow> info\<lparr>mem_unit := 1, mem := map_memory (push_bit bitcount) m\<rparr>))"

definition sysinfo_call ::
  "'l::len word sysinfo_api \<Rightarrow> ('l word, 'u) info_user \<Rightarrow> addr \<Rightarrow> 'u \<Rightarrow> int \<times> 'u" where
  "sysinfo_call k c info m =
    (let (m, left) = copy_to_user c m info (do_sysinfo k) in (if left \<noteq> 0 then - EFAULT else 0, m))"

text \<open>The loop that makes the unit at least a page; it does not end when the unit is 0.\<close>

partial_function (option) page_unit :: "32 word \<Rightarrow> 32 word \<Rightarrow> nat \<Rightarrow> (32 word \<times> nat) option" where
  "page_unit page unit bitcount =
    (if unit < page then page_unit page (push_bit 1 unit) (Suc bitcount) else Some (unit, bitcount))"

definition upper_32_bits :: "64 word \<Rightarrow> 32 word" where
  "upper_32_bits v = ucast (drop_bit 32 v)"

definition to_compat :: "(64 word, 16 word) sysinfo \<Rightarrow> (32 word, 16 word) sysinfo" where
  "to_compat s = \<lparr>uptime = ucast (uptime s), loads = List.map ucast (loads s), procs = procs s,
     mem = map_memory ucast (mem s), mem_unit = mem_unit s\<rparr>"

text \<open>The fields of \<^verbatim>\<open>struct compat_sysinfo\<close> in the order in which they are stored: offset, width and
  value.\<close>

definition compat_fields :: "(32 word, 16 word) sysinfo \<Rightarrow> (nat \<times> nat \<times> nat) list" where
  "compat_fields r = [(0, 4, unat (uptime r)), (4, 4, unat (loads r ! 0)), (8, 4, unat (loads r ! 1)),
     (12, 4, unat (loads r ! 2)), (16, 4, unat (totalram (mem r))), (20, 4, unat (freeram (mem r))),
     (24, 4, unat (sharedram (mem r))), (28, 4, unat (bufferram (mem r))), (32, 4, unat (totalswap (mem r))),
     (36, 4, unat (freeswap (mem r))), (40, 2, unat (procs r)), (44, 4, unat (totalhigh (mem r))),
     (48, 4, unat (freehigh (mem r))), (52, 4, unat (mem_unit r))]"

text \<open>The chain of \<open>__put_user\<close> calls stops at the first that fails.\<close>

fun put_chain :: "('w, 'u) info_user \<Rightarrow> addr \<Rightarrow> (nat \<times> nat \<times> nat) list \<Rightarrow> 'u \<Rightarrow> int \<times> 'u" where
  "put_chain c info [] m = (0, m)"
| "put_chain c info ((off, n, v) # fs) m =
    (let (e, m) = put_user c n v (info + off) m in
     if e \<noteq> 0 then (- EFAULT, m) else put_chain c info fs m)"

text \<open>Scaling down for a 32 bit caller.\<close>

definition scaled :: "64 word sysinfo_api \<Rightarrow> (32 word, 16 word) sysinfo option" where
  "scaled k = (let s = do_sysinfo k in
     if upper_32_bits (totalram (mem s)) \<noteq> 0 \<or> upper_32_bits (totalswap (mem s)) \<noteq> 0 then do {
       (unit, bitcount) \<leftarrow> page_unit (page_size k) (mem_unit s) 0;
       Some (to_compat (s\<lparr>mem_unit := unit, mem := map_memory (drop_bit bitcount) (mem s)\<rparr>))
     } else Some (to_compat s))"

definition compat_sysinfo ::
  "64 word sysinfo_api \<Rightarrow> ('w, 'u) info_user \<Rightarrow> addr \<Rightarrow> 'u \<Rightarrow> (int \<times> 'u) option" where
  "compat_sysinfo k c info m = do {
     r \<leftarrow> scaled k;
     Some (if \<not> access_ok c info 64 then (- EFAULT, m) else put_chain c info (compat_fields r) m)
   }"

section \<open>Shifting without loss\<close>

lemma unat_push_bit: "unat (push_bit n (w :: 'l::len word)) = (unat w * 2 ^ n) mod 2 ^ LENGTH('l)"
  by (subst unsigned_push_bit_eq) (simp add: push_bit_eq_mult take_bit_eq_mod)

lemma push_bit_exact:
  fixes w :: "'l::len word"
  assumes "unat w * 2 ^ n < 2 ^ LENGTH('l)"
  shows "unat (push_bit n w) = unat w * 2 ^ n"
  using assms by (simp add: unat_push_bit)

lemma shift_overflows:
  fixes w :: "'l::len word"
  shows "push_bit 1 w < w \<longleftrightarrow> 2 ^ LENGTH('l) \<le> unat w * 2"
proof -
  have b: "unat w < 2 ^ LENGTH('l)" by simp
  show ?thesis
  proof (cases "unat w * 2 < 2 ^ LENGTH('l)")
    case True
    then show ?thesis using push_bit_exact [of w 1] by (simp add: word_less_nat_alt)
  next
    case False
    then have "(unat w * 2) mod 2 ^ LENGTH('l) = unat w * 2 - 2 ^ LENGTH('l)"
      using b by (metis le_mod_geq mod_less not_less less_diff_conv2 mult_2_right add_less_mono)
    moreover have "unat w * 2 - 2 ^ LENGTH('l) < unat w" using b False by linarith
    ultimately have "unat (push_bit 1 w) < unat w" by (simp only: unat_push_bit power_one_right)
    then show ?thesis using False by (simp only: word_less_nat_alt not_less)
  qed
qed

lemma unat_power: "n < 32 \<Longrightarrow> unat ((2 :: 32 word) ^ n) = 2 ^ n"
proof -
  assume "n < 32"
  then have "(2 :: nat) ^ n < 2 ^ LENGTH(32)" by (intro power_strict_increasing) simp_all
  then show ?thesis using push_bit_exact [of "1 :: 32 word" n] by (simp add: push_bit_of_1)
qed

lemma half_power: "b < 31 \<Longrightarrow> drop_bit 1 ((2 :: 32 word) ^ Suc b) = 2 ^ b"
  by (subst drop_bit_exp_eq) simp

lemma unit_bits_power:
  fixes amount :: "'l::len word"
  assumes "b < 32"
  shows "unit_bits (2 ^ b) amount n = (if unat amount * 2 ^ b < 2 ^ LENGTH('l) then Some (n + b) else None)"
  using assms
proof (induction b arbitrary: amount n)
  case 0
  show ?case by (subst unit_bits.simps) simp
next
  case (Suc b)
  have one: "(2 :: 32 word) ^ Suc b > 1"
  proof -
    have "unat ((2 :: 32 word) ^ Suc b) = 2 ^ Suc b" using Suc.prems by (intro unat_power)
    moreover have "1 < (2 :: nat) ^ Suc b" by (rule one_less_power) simp_all
    ultimately show ?thesis by (simp only: word_less_nat_alt unsigned_1)
  qed
  have h: "drop_bit 1 ((2 :: 32 word) ^ Suc b) = 2 ^ b" using Suc.prems by (intro half_power) simp
  show ?case
  proof (cases "2 ^ LENGTH('l) \<le> unat amount * 2")
    case True
    moreover have "unat amount * 2 \<le> unat amount * 2 ^ Suc b" by simp
    ultimately have "\<not> unat amount * 2 ^ Suc b < 2 ^ LENGTH('l)" by linarith
    moreover have "push_bit 1 amount < amount" using True by (simp only: shift_overflows)
    ultimately show ?thesis using one by (subst unit_bits.simps) (simp only: if_True if_False Let_def)
  next
    case False
    then have e: "unat (push_bit 1 amount) = unat amount * 2" using push_bit_exact [of amount 1] by simp
    have "unit_bits (2 ^ Suc b) amount n = unit_bits (2 ^ b) (push_bit 1 amount) (Suc n)"
      using False one h by (subst unit_bits.simps) (simp only: if_True if_False Let_def shift_overflows)
    then show ?thesis using Suc.IH [of "push_bit 1 amount" "Suc n"] Suc.prems e by (simp add: mult.assoc)
  qed
qed

section \<open>The statistics in bytes\<close>

definition counters :: "'w memory \<Rightarrow> 'w list" where
  "counters m = [totalram m, freeram m, sharedram m, bufferram m, totalswap m, freeswap m, totalhigh m, freehigh m]"

lemma counters_map: "counters (map_memory f m) = List.map f (counters m)"
  by (simp add: counters_def map_memory_def)

lemma sum_overflow:
  fixes a b :: "'l::len word"
  shows "a + b < a \<or> a + b < b \<longleftrightarrow> 2 ^ LENGTH('l) \<le> unat a + unat b"
    and "unat a + unat b < 2 ^ LENGTH('l) \<Longrightarrow> unat (a + b) = unat a + unat b"
proof -
  have b: "unat a < 2 ^ LENGTH('l)" "unat b < 2 ^ LENGTH('l)" by simp_all
  show "unat a + unat b < 2 ^ LENGTH('l) \<Longrightarrow> unat (a + b) = unat a + unat b" by (simp add: unat_plus_if')
  show "a + b < a \<or> a + b < b \<longleftrightarrow> 2 ^ LENGTH('l) \<le> unat a + unat b"
  proof (cases "unat a + unat b < 2 ^ LENGTH('l)")
    case True
    then show ?thesis by (simp add: word_less_nat_alt unat_plus_if')
  next
    case False
    then have "unat (a + b) < unat a" using b by (simp only: unat_plus_if' if_False)
    with False show ?thesis by (simp add: word_less_nat_alt)
  qed
qed

text \<open>C36: With a unit of \<open>2 ^ b\<close> bytes, \<open>do_sysinfo\<close> reports bytes exactly when the total of memory and swap
  fits an \<^verbatim>\<open>unsigned long\<close> in bytes, and then every counter (none above that total) is exact; otherwise counters and unit
  are those of the memory manager.\<close>

theorem do_sysinfo_bytes:
  fixes k :: "'l::len word sysinfo_api"
  assumes "meminfo_unit k = 2 ^ b" "b < 32"
    and "\<forall>v \<in> set (counters (meminfo k)). unat v \<le> unat (totalram (meminfo k)) + unat (totalswap (meminfo k))"
  shows "if (unat (totalram (meminfo k)) + unat (totalswap (meminfo k))) * 2 ^ b < 2 ^ LENGTH('l)
    then mem_unit (do_sysinfo k) = 1
      \<and> List.map unat (counters (mem (do_sysinfo k))) = List.map (\<lambda>v. unat v * 2 ^ b) (counters (meminfo k))
    else mem_unit (do_sysinfo k) = 2 ^ b \<and> mem (do_sysinfo k) = meminfo k"
proof -
  let ?m = "meminfo k"
  let ?t = "unat (totalram ?m) + unat (totalswap ?m)"
  have "?t \<le> ?t * 2 ^ b" by simp
  show ?thesis
  proof (cases "?t * 2 ^ b < 2 ^ LENGTH('l)")
    case True
    with \<open>?t \<le> ?t * 2 ^ b\<close> have t: "?t < 2 ^ LENGTH('l)" by linarith
    have "unit_bits (2 ^ b) (totalram ?m + totalswap ?m) 0 = Some b"
      using True sum_overflow(2) [OF t] by (simp add: unit_bits_power [OF assms(2)])
    then have eq: "mem_unit (do_sysinfo k) = 1" "mem (do_sysinfo k) = map_memory (push_bit b) ?m"
      using t sum_overflow(1) [of "totalram ?m" "totalswap ?m"]
      by (simp_all add: do_sysinfo_def Let_def assms(1))
    have "unat (push_bit b v) = unat v * 2 ^ b" if "v \<in> set (counters ?m)" for v
    proof (rule push_bit_exact)
      have "unat v \<le> ?t" using assms(3) that by blast
      then have "unat v * 2 ^ b \<le> ?t * 2 ^ b" by simp
      with True show "unat v * 2 ^ b < 2 ^ LENGTH('l)" by linarith
    qed
    then show ?thesis using True by (simp add: eq counters_map)
  next
    case False
    then show ?thesis
      using sum_overflow [of "totalram ?m" "totalswap ?m"]
      by (cases "?t < 2 ^ LENGTH('l)")
        (simp_all add: do_sysinfo_def Let_def assms(1) unit_bits_power [OF assms(2)] not_less)
  qed
qed

section \<open>The statistics for 32 bit callers\<close>

lemma page_unit_power:
  assumes "u < 32" "p < 32"
  shows "page_unit (2 ^ p) (2 ^ u) n = Some (2 ^ max u p, n + (max u p - u))"
  using assms
proof (induction "p - u" arbitrary: u n)
  case 0
  then have "\<not> (2 :: 32 word) ^ u < 2 ^ p" by (simp add: word_less_nat_alt unat_power)
  with 0 show ?case by (subst page_unit.simps) (simp add: max_def)
next
  case (Suc d)
  then have less: "u < p" by simp
  then have "(2 :: 32 word) ^ u < 2 ^ p" using Suc.prems by (simp add: word_less_nat_alt unat_power)
  moreover have "push_bit 1 ((2 :: 32 word) ^ u) = 2 ^ Suc u" by (simp add: push_bit_eq_mult)
  ultimately have "page_unit (2 ^ p) (2 ^ u) n = page_unit (2 ^ p) (2 ^ Suc u) (Suc n)"
    by (subst page_unit.simps) (simp only: if_True)
  also have "\<dots> = Some (2 ^ max (Suc u) p, Suc n + (max (Suc u) p - Suc u))"
    using Suc.hyps(2) Suc.prems less by (intro Suc.hyps(1)) simp_all
  finally show ?case using less by (simp add: max_def)
qed

lemma do_sysinfo_unit:
  assumes "meminfo_unit k = 2 ^ b" "b < 32"
  obtains u where "mem_unit (do_sysinfo k) = 2 ^ u" "u < 32"
proof (cases "mem_unit (do_sysinfo k) = 1")
  case True
  then show thesis using that [of 0] by simp
next
  case False
  then have "mem_unit (do_sysinfo k) = meminfo_unit k"
    by (auto simp: do_sysinfo_def Let_def split: option.split)
  then show thesis using assms that by simp
qed

lemma ucast_exact: "unat v < 2 ^ 32 \<Longrightarrow> unat (ucast (v :: 64 word) :: 32 word) = unat v"
  by (subst unsigned_ucast_eq) (simp add: take_bit_nat_eq_self)

text \<open>For a 32 bit caller the loop over the unit ends, and every counter whose value fits 32 bits in the unit reported
  is the exact value rounded down to that unit.\<close>

lemma scaled_rounds:
  assumes "meminfo_unit k = 2 ^ b" "b < 32" "page_size k = 2 ^ p" "p < 32"
  shows "\<exists>r. scaled k = Some r
    \<and> (\<forall>(v, w) \<in> set (zip (counters (mem (do_sysinfo k))) (counters (mem r))).
          unat v * unat (mem_unit (do_sysinfo k)) < 2 ^ 32 * unat (mem_unit r)
          \<longrightarrow> unat w = unat v * unat (mem_unit (do_sysinfo k)) div unat (mem_unit r))"
proof -
  let ?s = "do_sysinfo k"
  obtain u where u: "mem_unit ?s = 2 ^ u" "u < 32" using do_sysinfo_unit [OF assms(1,2)] .
  define big where "big \<longleftrightarrow> upper_32_bits (totalram (mem ?s)) \<noteq> 0 \<or> upper_32_bits (totalswap (mem ?s)) \<noteq> 0"
  define c where "c = (if big then max u p - u else 0)"
  define r where "r = to_compat (?s\<lparr>mem_unit := 2 ^ (u + c), mem := map_memory (drop_bit c) (mem ?s)\<rparr>)"
  have uc: "u + c < 32" "big \<Longrightarrow> u + c = max u p" using u assms(4) by (auto simp: c_def max_def)
  have same: "?s\<lparr>mem_unit := 2 ^ u, mem := map_memory (drop_bit 0) (mem ?s)\<rparr> = ?s"
    using u(1) by (simp add: map_memory_def)
  have call: "scaled k = Some r"
  proof (cases big)
    case True
    then have "page_unit (page_size k) (mem_unit ?s) 0 = Some (2 ^ (u + c), c)"
      using page_unit_power [OF u(2) assms(4), of 0] uc(2) by (simp add: u(1) assms(3) c_def)
    with True show ?thesis
      unfolding scaled_def Let_def big_def [symmetric] r_def by simp
  next
    case False
    then have "c = 0" by (simp add: c_def)
    then have "r = to_compat ?s" using same by (simp only: r_def add_0_right)
    with False show ?thesis
      unfolding scaled_def Let_def big_def [symmetric] by simp
  qed
  have units: "unat (mem_unit ?s) = 2 ^ u" "unat (mem_unit r) = 2 ^ (u + c)"
    using uc(1) u by (simp_all add: unat_power r_def to_compat_def)
  have one: "unat (ucast (drop_bit c v) :: 32 word) = unat v * 2 ^ u div 2 ^ (u + c)"
    if "unat v * 2 ^ u < 2 ^ 32 * 2 ^ (u + c)" for v :: "64 word"
  proof -
    have b: "unat v < 2 ^ 64" using unsigned_less [of v] by simp
    have d: "unat (drop_bit c v) = unat v div 2 ^ c"
      by (subst unsigned_drop_bit_eq) (simp add: drop_bit_eq_div take_bit_nat_eq_self [OF b])
    have "unat v * 2 ^ u div 2 ^ (u + c) = unat v div 2 ^ c" by (simp add: power_add)
    moreover have "unat v < 2 ^ 32 * 2 ^ c" using that by (simp add: power_add)
    then have "unat v div 2 ^ c < 2 ^ 32" by (simp add: less_mult_imp_div_less)
    ultimately show ?thesis using ucast_exact [of "drop_bit c v"] d by simp
  qed
  have "counters (mem r) = List.map (\<lambda>v. ucast (drop_bit c v)) (counters (mem ?s))"
    by (simp add: r_def to_compat_def counters_def map_memory_def)
  then have pairs: "set (zip (counters (mem ?s)) (counters (mem r)))
      = (\<lambda>v. (v, ucast (drop_bit c v))) ` set (counters (mem ?s))"
    by (simp add: zip_map2 zip_same_conv_map)
  show ?thesis
  proof (intro exI [of _ r] conjI call ballI, clarify)
    fix v w
    assume "(v, w) \<in> set (zip (counters (mem ?s)) (counters (mem r)))"
      and small: "unat v * unat (mem_unit ?s) < 2 ^ 32 * unat (mem_unit r)"
    then have "w = ucast (drop_bit c v)" unfolding pairs by auto
    with one [of v] small show "unat w = unat v * unat (mem_unit ?s) div unat (mem_unit r)"
      unfolding units by simp
  qed
qed

text \<open>What the call needs of the user's memory, read by \<open>get\<close>: a field that was stored can be read, and a
  store, successful or not, leaves other bytes alone.\<close>

definition user_laws :: "('w, 'u) info_user \<Rightarrow> ('u \<Rightarrow> addr \<Rightarrow> nat \<Rightarrow> nat) \<Rightarrow> bool" where
  "user_laws c get \<longleftrightarrow>
     (\<forall>n v p m m'. put_user c n v p m = (0, m') \<and> v < 256 ^ n \<longrightarrow> get m' p n = v)
   \<and> (\<forall>n v p m q l. q + l \<le> p \<or> p + n \<le> q \<longrightarrow> get (snd (put_user c n v p m)) q l = get m q l)"

lemma put_stored: "user_laws c get \<Longrightarrow> put_user c n v p m = (0, m') \<Longrightarrow> v < 256 ^ n \<Longrightarrow> get m' p n = v"
  by (simp add: user_laws_def)

lemma put_elsewhere:
  "user_laws c get \<Longrightarrow> put_user c n v p m = (e, m') \<Longrightarrow> q + l \<le> p \<or> p + n \<le> q \<Longrightarrow> get m' q l = get m q l"
  unfolding user_laws_def by (metis snd_conv)

text \<open>Fields that follow one another without overlap, from the offset \<open>lo\<close> up to \<open>hi\<close>.\<close>

fun in_order :: "nat \<Rightarrow> nat \<Rightarrow> (nat \<times> nat \<times> nat) list \<Rightarrow> bool" where
  "in_order lo hi [] = (lo \<le> hi)"
| "in_order lo hi ((off, n, v) # fs) = (lo \<le> off \<and> v < 256 ^ n \<and> in_order (off + n) hi fs)"

lemma in_order_le: "in_order lo hi fs \<Longrightarrow> lo \<le> hi"
  by (induction lo hi fs rule: in_order.induct) auto

text \<open>A chain that ends well has stored every field; in any case what lies outside its fields is untouched.\<close>

lemma put_chain_outside:
  assumes "user_laws c get" "in_order lo hi fs" "q + l \<le> info + lo \<or> info + hi \<le> q"
  shows "get (snd (put_chain c info fs m)) q l = get m q l"
  using assms(2,3)
proof (induction lo hi fs arbitrary: m rule: in_order.induct)
  case (2 lo hi off n v fs)
  obtain e m1 where p: "put_user c n v (info + off) m = (e, m1)" by fastforce
  have hi: "off + n \<le> hi" using 2(2) in_order_le [of "off + n" hi fs] by simp
  then have "get m1 q l = get m q l"
    using 2(2,3) by (intro put_elsewhere [OF assms(1) p]) auto
  moreover have "q + l \<le> info + (off + n) \<or> info + hi \<le> q" using 2(2,3) by auto
  ultimately show ?case using 2 p by auto
qed simp

lemma put_chain_stores:
  assumes "user_laws c get" "in_order lo hi fs" "put_chain c info fs m = (e, m')"
  shows "(e = 0 \<or> e = - EFAULT) \<and> (\<exists>j \<le> length fs. (e = 0 \<longrightarrow> j = length fs)
     \<and> (\<forall>(off, n, v) \<in> set (take j fs). get m' (info + off) n = v))"
  using assms(2,3)
proof (induction lo hi fs arbitrary: m rule: in_order.induct)
  case (2 lo hi off n v fs)
  obtain e1 m1 where p: "put_user c n v (info + off) m = (e1, m1)" by fastforce
  show ?case
  proof (cases "e1 = 0")
    case True
    then have rest: "put_chain c info fs m1 = (e, m')" using 2(3) p by simp
    with 2 obtain j where e: "e = 0 \<or> e = - EFAULT" and j: "j \<le> length fs" "e = 0 \<longrightarrow> j = length fs"
      "\<forall>(off, n, v) \<in> set (take j fs). get m' (info + off) n = v" by force
    have "get m1 (info + off) n = v" using put_stored [OF assms(1)] p True 2(2) by simp
    moreover have "get (snd (put_chain c info fs m1)) (info + off) n = get m1 (info + off) n"
      using 2(2) by (intro put_chain_outside [OF assms(1), where lo = "off + n" and hi = hi]) auto
    ultimately have "get m' (info + off) n = v" using rest by simp
    with e j show ?thesis by (intro conjI exI [of _ "Suc j"]) auto
  next
    case False
    then have "e = - EFAULT" using 2(3) p by simp
    then show ?thesis by (intro conjI exI [of _ 0]) (simp_all add: EFAULT_def)
  qed
qed simp

lemma fields_in_order: "in_order 0 56 (compat_fields r)"
proof -
  have b: "unat (w :: 32 word) < 4294967296" "unat (h :: 16 word) < 65536" for w h
    using unsigned_less [of w] unsigned_less [of h] by simp_all
  show ?thesis by (simp add: compat_fields_def b)
qed

text \<open>For a 32 bit caller the call returns 0 with every field of the scaled statistics in the structure,
  or -EFAULT with the fields before the one that could not be written; it writes nothing else.\<close>

lemma compat_sysinfo_stores:
  assumes "user_laws c get" "meminfo_unit k = 2 ^ b" "b < 32" "page_size k = 2 ^ p" "p < 32"
  obtains r e m' j where "scaled k = Some r" "compat_sysinfo k c info m = Some (e, m')"
    "e = 0 \<or> e = - EFAULT" "j \<le> 14" "e = 0 \<longrightarrow> j = 14"
    "\<forall>(off, n, v) \<in> set (take j (compat_fields r)). get m' (info + off) n = v"
    "\<And>q l. q + l \<le> info \<or> info + 56 \<le> q \<Longrightarrow> get m' q l = get m q l"
proof -
  obtain r where r: "scaled k = Some r" using scaled_rounds [OF assms(2-5)] by blast
  show thesis
  proof (cases "access_ok c info 64")
    case True
    obtain e m' where p: "put_chain c info (compat_fields r) m = (e, m')" by fastforce
    have "length (compat_fields r) = 14" by (simp add: compat_fields_def)
    with put_chain_stores [OF assms(1) fields_in_order p]
    obtain j where j: "e = 0 \<or> e = - EFAULT" "j \<le> 14" "e = 0 \<longrightarrow> j = 14"
      "\<forall>(off, n, v) \<in> set (take j (compat_fields r)). get m' (info + off) n = v" by auto
    have "get m' q l = get m q l" if "q + l \<le> info \<or> info + 56 \<le> q" for q l
      using put_chain_outside [OF assms(1) fields_in_order, of q l info r m] that p by simp
    with j r p True show thesis by (intro that [of r e m' j]) (simp_all add: compat_sysinfo_def)
  next
    case False
    then show thesis using r by (intro that [of r "- EFAULT" m 0]) (simp_all add: compat_sysinfo_def EFAULT_def)
  qed
qed

section \<open>Examples\<close>

text \<open>A memory of bytes, the lowest first, of which the first 4096 can be written, has the laws.\<close>

definition bytes_user :: "(32 word, addr \<Rightarrow> nat) info_user" where
  "bytes_user = \<lparr>copy_to_user = \<lambda>m p s. (m, 64), access_ok = \<lambda>p n. p + n \<le> 4096,
     put_user = \<lambda>n v p m. if p + n \<le> 4096
       then (0, \<lambda>a. if p \<le> a \<and> a < p + n then v div 256 ^ (a - p) mod 256 else m a) else (- EFAULT, m)\<rparr>"

definition bytes_read :: "(addr \<Rightarrow> nat) \<Rightarrow> addr \<Rightarrow> nat \<Rightarrow> nat" where
  "bytes_read m p n = (\<Sum>i < n. m (p + i) * 256 ^ i)"

lemma digits_sum: "(\<Sum>i < n. v div 256 ^ i mod 256 * 256 ^ i) = v mod (256 :: nat) ^ n"
proof (induction n)
  case (Suc n)
  then show ?case by (simp add: mult.commute [of 256] mod_mult2_eq)
qed simp

lemma bytes_user_laws: "user_laws bytes_user bytes_read"
proof -
  have "bytes_read (snd (put_user bytes_user n v p m)) q l = bytes_read m q l"
    if "q + l \<le> p \<or> p + n \<le> q" for n v p m q l
    using that by (auto simp: bytes_read_def bytes_user_def intro!: sum.cong)
  moreover have "bytes_read m' p n = v" if "put_user bytes_user n v p m = (0, m') \<and> v < 256 ^ n" for n v p m m'
    using that by (auto simp: bytes_read_def bytes_user_def EFAULT_def digits_sum split: if_splits)
  ultimately show ?thesis unfolding user_laws_def by blast
qed

text \<open>A board with 512 MiB and pages of 4 KiB, and a server with 64 GiB.\<close>

definition memory_of :: "nat \<Rightarrow> 'l::len word memory" where
  "memory_of n = \<lparr>totalram = of_nat n, freeram = of_nat (n div 2), sharedram = 0, bufferram = 1, totalswap = 0,
     freeswap = 0, totalhigh = 0, freehigh = 0\<rparr>"

definition pages_api :: "nat \<Rightarrow> 'l::len word sysinfo_api" where
  "pages_api n = \<lparr>boottime = (10, 5), avenrun = [0, 0, 0], nr_threads = 100, meminfo = memory_of n,
     meminfo_unit = 2 ^ 12, page_size = 2 ^ 12\<rparr>"

theorem do_sysinfo_bytes_witness:
  "List.map unat (counters (mem (do_sysinfo (pages_api 131072 :: 32 word sysinfo_api))))
     = [536870912, 268435456, 0, 4096, 0, 0, 0, 0]"
  using do_sysinfo_bytes [of "pages_api 131072 :: 32 word sysinfo_api" 12]
  by (simp add: pages_api_def memory_of_def counters_def)

end
