(* ===== verification/Usage.thy ===== *)
theory Usage
  imports Prelude
begin

text \<open>
  Resource usage: \<^verbatim>\<open>do_sys_times\<close>, \<^verbatim>\<open>times\<close>, \<^verbatim>\<open>accumulate_thread_rusage\<close>, \<^verbatim>\<open>getrusage\<close> and \<^verbatim>\<open>umask\<close> of
  \<^verbatim>\<open>HW2_APES/PROBLEM5/system_call/sys.c\<close>.

  An \<^verbatim>\<open>unsigned long\<close> is an \<open>'l word\<close>. Tasks are numbers; the \<open>signal\<close> structure belongs to the process.
  The adjusted times, the conversions of times, the clock, the memory of a task and the copy to the user
  (whether it succeeds) are parameters; locks are left out.
\<close>

section \<open>State\<close>

text \<open>Six counters appear three times: in a task, for the dead threads of a process, and for its waited-for
  children.\<close>

record 'w counts =
  nvcsw :: 'w
  nivcsw :: 'w
  minflt :: 'w
  majflt :: 'w
  inblock :: 'w
  oublock :: 'w

record 'w signal_struct =
  cutime :: "64 word"
  cstime :: "64 word"
  dead :: "'w counts"
  children :: "'w counts"
  maxrss :: 'w
  cmaxrss :: 'w

record ('t, 'w) rusage =
  ru_utime :: 't
  ru_stime :: 't
  ru_maxrss :: 'w
  ru_counts :: "'w counts"

record ('t, 'w) usage_api =
  counts_of :: "nat \<Rightarrow> 'w counts"
  threads :: "nat \<Rightarrow> nat list"
  signal_of :: "nat \<Rightarrow> 'w signal_struct"
  sighand :: "nat \<Rightarrow> bool"
  task_cputime :: "nat \<Rightarrow> 64 word \<times> 64 word"
  group_cputime :: "nat \<Rightarrow> 64 word \<times> 64 word"
  ns_to_timeval :: "64 word \<Rightarrow> 't"
  zero_timeval :: 't
  hiwater_rss :: "nat \<Rightarrow> 'w option"
  kb_per_page :: 'w
  nsec_to_clock_t :: "64 word \<Rightarrow> 'w"
  clock_now :: int
  clock_t_to_jiffies :: "'w \<Rightarrow> 'w"
  compat_jiffies_to_clock_t :: "'w \<Rightarrow> 32 word"
  jiffies :: 'w

datatype who = RUSAGE_SELF | RUSAGE_CHILDREN | RUSAGE_BOTH | RUSAGE_THREAD | Other_who

definition zero_counts :: "'l::len word counts" where
  "zero_counts = \<lparr>nvcsw = 0, nivcsw = 0, minflt = 0, majflt = 0, inblock = 0, oublock = 0\<rparr>"

definition add_counts :: "'l::len word counts \<Rightarrow> 'l word counts \<Rightarrow> 'l word counts" where
  "add_counts a b = \<lparr>nvcsw = nvcsw a + nvcsw b, nivcsw = nivcsw a + nivcsw b, minflt = minflt a + minflt b,
     majflt = majflt a + majflt b, inblock = inblock a + inblock b, oublock = oublock a + oublock b\<rparr>"

section \<open>The calls\<close>

definition accumulate_thread_rusage :: "('t, 'l::len word) usage_api \<Rightarrow> nat \<Rightarrow> 'l word counts \<Rightarrow> 'l word counts" where
  "accumulate_thread_rusage k t r = add_counts r (counts_of k t)"

text \<open>The end of \<open>getrusage\<close> after the label \<open>out\<close>.\<close>

definition finish_rusage ::
    "('t, 'l::len word) usage_api \<Rightarrow> nat \<Rightarrow> who \<Rightarrow> 64 word \<Rightarrow> 64 word \<Rightarrow> 'l word \<Rightarrow> 'l word counts \<Rightarrow> ('t, 'l word) rusage" where
  "finish_rusage k p who utime stime rss r =
    (let rss = (if who \<noteq> RUSAGE_CHILDREN then (case hiwater_rss k p of None \<Rightarrow> rss | Some h \<Rightarrow> if rss < h then h else rss)
                else rss)
     in \<lparr>ru_utime = ns_to_timeval k utime, ru_stime = ns_to_timeval k stime, ru_maxrss = rss * kb_per_page k,
         ru_counts = r\<rparr>)"

text \<open>\<open>None\<close> is the \<open>BUG()\<close> of an unknown \<open>who\<close>.\<close>

definition getrusage :: "('t, 'l::len word) usage_api \<Rightarrow> nat \<Rightarrow> nat \<Rightarrow> who \<Rightarrow> ('t, 'l word) rusage option" where
  "getrusage k current p who =
    (let sg = signal_of k p in
     if who = RUSAGE_THREAD then
       (case task_cputime k current of (utime, stime) \<Rightarrow>
          Some (finish_rusage k p who utime stime (maxrss sg) (accumulate_thread_rusage k p zero_counts)))
     else if \<not> sighand k p then
       Some \<lparr>ru_utime = zero_timeval k, ru_stime = zero_timeval k, ru_maxrss = 0, ru_counts = zero_counts\<rparr>
     else if who = Other_who then None
     else
       let both = (who = RUSAGE_BOTH \<or> who = RUSAGE_CHILDREN);
           utime = (if both then cutime sg else 0);
           stime = (if both then cstime sg else 0);
           r = (if both then children sg else zero_counts);
           rss = (if both then cmaxrss sg else 0)
       in if who = RUSAGE_CHILDREN then Some (finish_rusage k p who utime stime rss r)
       else case group_cputime k p of (tgutime, tgstime) \<Rightarrow>
         let rss = (if rss < maxrss sg then maxrss sg else rss)
         in Some (finish_rusage k p who (utime + tgutime) (stime + tgstime) rss
              (fold (accumulate_thread_rusage k) (threads k p) (add_counts r (dead sg)))))"

definition getrusage_call :: "('t, 'l::len word) usage_api \<Rightarrow> nat \<Rightarrow> who \<Rightarrow> bool \<Rightarrow> (int \<times> ('t, 'l word) rusage option) option" where
  "getrusage_call k current who writable =
    (if who \<noteq> RUSAGE_SELF \<and> who \<noteq> RUSAGE_CHILDREN \<and> who \<noteq> RUSAGE_THREAD then Some (- EINVAL, None)
     else do {
       r \<leftarrow> getrusage k current current who;
       Some (if writable then (0, Some r) else (- EFAULT, None))
     })"

text \<open>\<open>tms\<close> has the times of the process and of its children; a null buffer is not written.\<close>

record 'w tms =
  tms_utime :: 'w
  tms_stime :: 'w
  tms_cutime :: 'w
  tms_cstime :: 'w

definition do_sys_times :: "('t, 'w) usage_api \<Rightarrow> nat \<Rightarrow> 'w tms" where
  "do_sys_times k current =
    (case group_cputime k current of (tgutime, tgstime) \<Rightarrow>
       \<lparr>tms_utime = nsec_to_clock_t k tgutime, tms_stime = nsec_to_clock_t k tgstime,
        tms_cutime = nsec_to_clock_t k (cutime (signal_of k current)),
        tms_cstime = nsec_to_clock_t k (cstime (signal_of k current))\<rparr>)"

definition times :: "('t, 'w) usage_api \<Rightarrow> nat \<Rightarrow> bool option \<Rightarrow> int \<times> 'w tms option" where
  "times k current tbuf =
    (case tbuf of
       None \<Rightarrow> (clock_now k, None)
     | Some writable \<Rightarrow>
         if \<not> writable then (- EFAULT, None) else (clock_now k, Some (do_sys_times k current)))"

text \<open>For 32 bit callers, through jiffies.\<close>

definition clock_t_to_compat_clock_t :: "('t, 'w) usage_api \<Rightarrow> 'w \<Rightarrow> 32 word" where
  "clock_t_to_compat_clock_t k x = compat_jiffies_to_clock_t k (clock_t_to_jiffies k x)"

definition compat_times :: "('t, 'w) usage_api \<Rightarrow> nat \<Rightarrow> bool option \<Rightarrow> int \<times> 32 word tms option" where
  "compat_times k current tbuf =
    (let now = uint (compat_jiffies_to_clock_t k (jiffies k)); c = clock_t_to_compat_clock_t k; t = do_sys_times k current in
     case tbuf of
       None \<Rightarrow> (now, None)
     | Some writable \<Rightarrow>
         if \<not> writable then (- EFAULT, None)
         else (now, Some \<lparr>tms_utime = c (tms_utime t), tms_stime = c (tms_stime t), tms_cutime = c (tms_cutime t),
           tms_cstime = c (tms_cstime t)\<rparr>))"

definition compat_getrusage_call :: "(('t, 'l word) rusage \<Rightarrow> int) \<Rightarrow> ('t, 'l::len word) usage_api \<Rightarrow> nat \<Rightarrow> who \<Rightarrow> int option" where
  "compat_getrusage_call put_compat_rusage k current who =
    (if who \<noteq> RUSAGE_SELF \<and> who \<noteq> RUSAGE_CHILDREN \<and> who \<noteq> RUSAGE_THREAD then Some (- EINVAL)
     else do { r \<leftarrow> getrusage k current current who; Some (put_compat_rusage r) })"

text \<open>\<open>umask\<close> keeps the nine permission bits and returns the old mask.\<close>

definition umask :: "32 word \<Rightarrow> 32 word \<Rightarrow> 32 word \<times> 32 word" where
  "umask new old = (old, and new 0x1FF)"

section \<open>Both is self and children\<close>

lemma add_counts_assoc: "add_counts (add_counts a b) c = add_counts a (add_counts b c)"
  by (simp add: add_counts_def add.assoc)

lemma add_counts_commute: "add_counts a b = add_counts b a"
  by (simp add: add_counts_def add.commute)

lemma add_zero_counts [simp]: "add_counts zero_counts a = a"
  by (simp add: add_counts_def zero_counts_def)

lemma fold_accumulate:
  "fold (accumulate_thread_rusage k) ts (add_counts a b) = add_counts a (fold (accumulate_thread_rusage k) ts b)"
  by (induction ts arbitrary: b) (simp_all add: accumulate_thread_rusage_def add_counts_assoc)

text \<open>For a process with its locks, the counters of RUSAGE_BOTH are those of RUSAGE_SELF and
  RUSAGE_CHILDREN added up, its times the sums of theirs before the conversion, and (with pages of one kilobyte,
  to leave the product out) its peak the larger of theirs.\<close>

lemma rusage_both:
  fixes k :: "('t, 'l::len word) usage_api"
  assumes "sighand k p" "kb_per_page k = 1"
  shows "\<exists>s c b. getrusage k p p RUSAGE_SELF = Some s \<and> getrusage k p p RUSAGE_CHILDREN = Some c
    \<and> getrusage k p p RUSAGE_BOTH = Some b
    \<and> ru_counts b = add_counts (ru_counts c) (ru_counts s)
    \<and> (\<exists>u v. ru_utime c = ns_to_timeval k u \<and> ru_utime s = ns_to_timeval k v \<and> ru_utime b = ns_to_timeval k (u + v))
    \<and> (\<exists>u v. ru_stime c = ns_to_timeval k u \<and> ru_stime s = ns_to_timeval k v \<and> ru_stime b = ns_to_timeval k (u + v))
    \<and> ru_maxrss b = max (ru_maxrss c) (ru_maxrss s)"
proof -
  obtain tu ts where t: "group_cputime k p = (tu, ts)" by (cases "group_cputime k p")
  let ?sg = "signal_of k p"
  let ?r = "fold (accumulate_thread_rusage k) (threads k p) (dead ?sg)"
  have self: "getrusage k p p RUSAGE_SELF = Some (finish_rusage k p RUSAGE_SELF tu ts (maxrss ?sg) ?r)"
    using assms(1) by (cases "maxrss ?sg = 0") (simp_all add: getrusage_def Let_def t word_neq_0_conv)
  have kids: "getrusage k p p RUSAGE_CHILDREN
      = Some (finish_rusage k p RUSAGE_CHILDREN (cutime ?sg) (cstime ?sg) (cmaxrss ?sg) (children ?sg))"
    using assms(1) by (simp add: getrusage_def Let_def)
  have both: "getrusage k p p RUSAGE_BOTH
      = Some (finish_rusage k p RUSAGE_BOTH (cutime ?sg + tu) (cstime ?sg + ts) (max (cmaxrss ?sg) (maxrss ?sg))
          (add_counts (children ?sg) ?r))"
    using assms(1) by (simp add: getrusage_def Let_def t fold_accumulate max_def not_le)
  show ?thesis
    unfolding self kids both
    by (rule exI, rule exI, rule exI, intro conjI, (rule refl)+)
      (auto simp: finish_rusage_def Let_def assms(2) max_def split: option.split)
qed

text \<open>The system calls never run into the \<open>BUG()\<close>: they reject an unknown \<open>who\<close> first.\<close>

lemma getrusage_no_bug: "getrusage_call k c who w \<noteq> None" "compat_getrusage_call pc k c who \<noteq> None"
  by (cases who; simp add: getrusage_call_def compat_getrusage_call_def getrusage_def Let_def split: prod.split)+

lemma umask_twice: "fst (umask m' (snd (umask m old))) = and m 0x1FF"
  by (simp add: umask_def)

end
