(* ===== verification/CStrings.thy ===== *)
theory CStrings
  imports Prelude "HOL-Library.Char_ord" "HOL-Library.List_Lexorder"
begin

text \<open>
  C strings as the kernel module and the string sorter use them. A buffer \<^verbatim>\<open>char b[cap]\<close> that
  holds a terminated string is represented by that string; the bytes behind the terminator are
  never read. \<open>strcpy cap s\<close> copies \<open>s\<close> into a buffer of \<open>cap\<close> bytes and is \<open>None\<close> when the
  string and its terminator do not fit. \<open>strcmp\<close> compares bytes as unsigned values.

  The exchange sort with two loops over an array of such buffers appears in
  \<^verbatim>\<open>HW3_APES/PROBLEM4/animal_lkm.c\<close> and, with other bounds, in
  \<^verbatim>\<open>HW3_APES/PROBLEM4/sort_strings.c\<close>.
\<close>

section \<open>Library functions\<close>

fun strcmp :: "string \<Rightarrow> string \<Rightarrow> int" where
  "strcmp [] [] = 0"
| "strcmp [] (d # t) = - 1"
| "strcmp (c # s) [] = 1"
| "strcmp (c # s) (d # t) =
     (if c = d then strcmp s t else if (of_char c :: nat) < of_char d then - 1 else 1)"

definition strcpy :: "nat \<Rightarrow> string \<Rightarrow> string option" where
  "strcpy cap s = (if length s < cap then Some s else None)"

lemma strcmp_zero: "strcmp s t = 0 \<longleftrightarrow> s = t"
  by (induction s t rule: strcmp.induct) auto

lemma strcmp_pos: "strcmp s t > 0 \<longleftrightarrow> t < s"
proof (induction s t rule: strcmp.induct)
  case (4 c s d t)
  have "(of_char c :: nat) < of_char d \<longleftrightarrow> c < d" by (simp add: less_char_def)
  with 4 show ?case by (auto simp: not_less_iff_gr_or_eq)
qed auto

lemma strcpy_fits [simp]: "length s < cap \<Longrightarrow> strcpy cap s = Some s"
  by (simp add: strcpy_def)

section \<open>The exchange sort\<close>

text \<open>\<^verbatim>\<open>for(j=i+1;j<n;j++)\<close>: exchange through \<open>temp\<close> when the two rows are out of order.\<close>

function sort_inner :: "nat \<Rightarrow> nat \<Rightarrow> nat \<Rightarrow> nat \<Rightarrow> string list \<Rightarrow> string list option" where
  "sort_inner cap n i j names =
     (if j < n then do {
        a \<leftarrow> nth_opt names i;
        b \<leftarrow> nth_opt names j;
        names' \<leftarrow>
          (if strcmp a b > 0 then do {
             temp \<leftarrow> strcpy cap a;
             x \<leftarrow> strcpy cap b;
             y \<leftarrow> strcpy cap temp;
             Some (names[i := x, j := y])
           } else Some names);
        sort_inner cap n i (j + 1) names'
      } else Some names)"
  by pat_completeness auto
termination
  by (relation "measure (\<lambda>(cap, n, i, j, names). n - j)") auto

function sort_outer :: "nat \<Rightarrow> nat \<Rightarrow> nat \<Rightarrow> string list \<Rightarrow> string list option" where
  "sort_outer cap n i names =
     (if i < n then do {
        names' \<leftarrow> sort_inner cap n i (i + 1) names;
        sort_outer cap n (i + 1) names'
      } else Some names)"
  by pat_completeness auto
termination
  by (relation "measure (\<lambda>(cap, n, i, names). n - i)") auto

declare sort_inner.simps [simp del] sort_outer.simps [simp del]

lemma mset_exchange:
  "i < length xs \<Longrightarrow> j < length xs \<Longrightarrow> mset (xs[i := xs ! j, j := xs ! i]) = mset xs"
  by (rule mset_swap)

lemma sort_inner_spec:
  assumes "i < j" "j \<le> length names" "\<forall>s\<in>set names. length s < cap"
    and "\<forall>k. i < k \<and> k < j \<longrightarrow> names ! i \<le> names ! k"
  shows "\<exists>ys. sort_inner cap (length names) i j names = Some ys \<and> mset ys = mset names
           \<and> take i ys = take i names \<and> (\<forall>k. i < k \<and> k < length names \<longrightarrow> ys ! i \<le> ys ! k)"
  using assms
proof (induction "length names - j" arbitrary: j names)
  case 0
  then show ?case by (subst sort_inner.simps) auto
next
  case (Suc d)
  then have j: "j < length names" by simp
  let ?a = "names ! i" and ?b = "names ! j"
  define zs where "zs = (if ?b < ?a then names[i := ?b, j := ?a] else names)"
  have zs: "length zs = length names" "mset zs = mset names" "take i zs = take i names"
    using j Suc.prems by (auto simp: zs_def mset_exchange)
  have ms: "set zs = set names" using zs(2) by (rule mset_eq_setD)
  have "\<forall>k. i < k \<and> k < Suc j \<longrightarrow> zs ! i \<le> zs ! k"
    using j Suc.prems by (auto simp: zs_def nth_list_update less_Suc_eq intro: order.trans less_imp_le)
  then have "\<exists>ys. sort_inner cap (length zs) i (Suc j) zs = Some ys \<and> mset ys = mset zs
      \<and> take i ys = take i zs \<and> (\<forall>k. i < k \<and> k < length zs \<longrightarrow> ys ! i \<le> ys ! k)"
    by (intro Suc.hyps) (use Suc j zs ms in auto)
  then obtain ys where ys: "sort_inner cap (length names) i (Suc j) zs = Some ys" "mset ys = mset names"
    "take i ys = take i names" "\<forall>k. i < k \<and> k < length names \<longrightarrow> ys ! i \<le> ys ! k"
    using zs by auto
  have "sort_inner cap (length names) i j names = sort_inner cap (length names) i (Suc j) zs"
    using j Suc.prems
    by (subst sort_inner.simps) (auto simp: zs_def strcmp_pos)
  with ys show ?case by auto
qed

lemma sort_outer_spec:
  assumes "i \<le> length names" "\<forall>s\<in>set names. length s < cap"
    and "sorted (take i names)" "\<forall>a\<in>set (take i names). \<forall>b\<in>set (drop i names). a \<le> b"
  shows "sort_outer cap (length names) i names = Some (sort names)"
  using assms
proof (induction "length names - i" arbitrary: i names)
  case 0
  then show ?case by (subst sort_outer.simps) (simp add: sorted_sort_id)
next
  case (Suc d)
  then have i: "i < length names" by simp
  have "\<forall>k. i < k \<and> k < Suc i \<longrightarrow> names ! i \<le> names ! k" by auto
  from sort_inner_spec [OF _ _ Suc.prems(2) this] i obtain ys where
    ys: "sort_inner cap (length names) i (Suc i) names = Some ys" and m: "mset ys = mset names"
    and t: "take i ys = take i names" and le: "\<forall>k. i < k \<and> k < length names \<longrightarrow> ys ! i \<le> ys ! k"
    by auto
  have len: "length ys = length names" using m by (metis size_mset)
  have "mset (take i ys) + mset (drop i ys) = mset (take i names) + mset (drop i names)"
    using m by (metis append_take_drop_id mset_append)
  then have d: "set (drop i ys) = set (drop i names)" using t by (metis add_left_cancel mset_eq_setD)
  have split: "drop i ys = ys ! i # drop (Suc i) ys" "take (Suc i) ys = take i names @ [ys ! i]"
    using i len t by (simp_all add: Cons_nth_drop_Suc take_Suc_conv_app_nth)
  have yi: "ys ! i \<in> set (drop i names)" "set (drop (Suc i) ys) \<subseteq> set (drop i names)"
    using d split by auto
  have "\<forall>b\<in>set (drop (Suc i) ys). ys ! i \<le> b"
    using le len by (auto simp: in_set_conv_nth)
  then have "sort_outer cap (length ys) (Suc i) ys = Some (sort ys)"
    by (intro Suc.hyps)
       (use Suc i len split yi mset_eq_setD [OF m] in \<open>auto simp: sorted_append\<close>)
  moreover have "sort ys = sort names" using m by (metis sorted_list_of_multiset_mset)
  ultimately show ?case using ys i len by (subst sort_outer.simps) simp
qed

lemma sort_outer_sorts:
  "\<forall>s\<in>set names. length s < cap \<Longrightarrow> sort_outer cap (length names) 0 names = Some (sort names)"
  by (rule sort_outer_spec) auto

end
