(* ===== verification/AnimalLkm.thy ===== *)
theory AnimalLkm
  imports CStrings
begin

text \<open>
  The kernel module \<^verbatim>\<open>HW3_APES/PROBLEM4/animal_lkm.c\<close>: it sorts an array of 50 animal names,
  builds a linked list with one node per distinct name and its number of occurrences (set 1),
  copies the nodes selected by the module parameters \<open>find_count\<close> and \<open>animal_find_name\<close> into a
  second list (set 2), and frees the nodes when it is removed.

  Nodes live in a heap of \<open>kmalloc\<close> blocks; a kernel list is the sequence of the addresses of its
  nodes (\<open>list_add_tail\<close> appends). \<open>alloc\<close> stands for \<open>kmalloc(sizeof(animal_t))\<close>: it gets
  the heap and returns the address of a new block or \<open>None\<close> for NULL; storing into a NULL node is
  undefined, so it makes the model return \<open>None\<close>. Each \<open>printk\<close> format string is one message
  constructor. The two readings of the clock are parameters.
\<close>

section \<open>State\<close>

record animal =
  animal_name :: string
  occurrences :: int

text \<open>A block is a node whose fields are still unset, or a node.\<close>

datatype block = Raw | Node animal

type_synonym node_heap = "addr \<rightharpoonup> block"

datatype node_set = Set1 | Both | ByCount | ByType | NoFilter

datatype banner = InitStarts | SeedArray | SortedArray | ListOf node_set | Allocations | InitEnds
  | ExitStarts | Deleting node_set | Deallocations | ExitEnds

datatype amsg = Banner banner | NameLine string | NodeLine node_set string int
  | NodesAllocated node_set int | TotalAllocated int int | InsertTime "32 word"
  | Freeing node_set string int | FreeingName string
  | NodesDeallocated node_set int | TotalDeallocated int int | RemoveTime "32 word"

record params =
  animal_find_name :: "string option"
  find_count :: int

record ecosystem =
  heap :: node_heap
  root :: "addr list"
  count_root :: "addr list"
  type_root :: "addr list"
  both_root :: "addr list"
  no_root :: "addr list"
  total_nodes :: int
  no_nodes :: int
  no_count_nodes :: int
  no_type_nodes :: int
  no_both_nodes :: int
  no_no_nodes :: int
  log :: "amsg list"

text \<open>The module's globals before \<open>insmod\<close>.\<close>

definition unloaded :: "node_heap \<Rightarrow> ecosystem" where
  "unloaded h = \<lparr>heap = h, root = [], count_root = [], type_root = [], both_root = [], no_root = [],
     total_nodes = 0, no_nodes = 0, no_count_nodes = 0, no_type_nodes = 0, no_both_nodes = 0,
     no_no_nodes = 0, log = []\<rparr>"

definition printk :: "amsg list \<Rightarrow> ecosystem \<Rightarrow> ecosystem" where
  "printk ms s = s\<lparr>log := log s @ ms\<rparr>"

definition names_t :: "string list" where
  "names_t = [''Tiger'', ''Dog'', ''Cat'', ''Shark'', ''Dolphin'',
     ''Parrot'', ''Seal'', ''Piranha'', ''Monkey'', ''Squirrel'',
     ''Elephant'', ''Lion'', ''Donkey'', ''Sheep'', ''Chicken'',
     ''Rat'', ''Goat'', ''Frog'', ''Deer'', ''Yak'',
     ''Whale'', ''Snake'', ''Crocodile'', ''Moose'', ''Goose'',
     ''Camel'', ''Penguin'', ''Pig'', ''Lizard'', ''Ant'',
     ''Bee'', ''Bear'', ''Horse'', ''Cow'', ''Bull'',
     ''Dog'', ''Monkey'', ''Tiger'', ''Bull'', ''Goat'',
     ''Whale'', ''Rat'', ''Lion'', ''Deer'', ''Yak'',
     ''Dog'', ''Tiger'', ''Sheep'', ''Chicken'', ''Frog'']"

definition sizeof_animal :: int where \<comment> \<open>15 bytes, padding, an int and two pointers on ARM\<close>
  "sizeof_animal = 28"

section \<open>Set 1: one node per distinct name\<close>

text \<open>A new node with its two fields stored; the name buffer has 15 bytes.\<close>

definition new_node :: "(node_heap \<Rightarrow> addr option) \<Rightarrow> node_heap \<Rightarrow> string \<Rightarrow> int \<Rightarrow> (addr \<times> node_heap) option" where
  "new_node alloc h name c = do {
     p \<leftarrow> alloc h;
     nm \<leftarrow> strcpy 15 name;
     Some (p, h(p \<mapsto> Node \<lparr>animal_name = nm, occurrences = c\<rparr>)) }"

text \<open>\<^verbatim>\<open>for(j=i;j<50;j++)\<close>: count the rows equal to row \<open>i\<close>.\<close>

function count_equal :: "nat \<Rightarrow> string list \<Rightarrow> nat \<Rightarrow> nat \<Rightarrow> nat \<Rightarrow> nat option" where
  "count_equal n names i j c =
     (if j < n then do {
        a \<leftarrow> nth_opt names i;
        b \<leftarrow> nth_opt names j;
        count_equal n names i (j + 1) (if strcmp a b = 0 then c + 1 else c)
      } else Some c)"
  by pat_completeness auto
termination
  by (relation "measure (\<lambda>(n, names, i, j, c). n - j)") auto

declare count_equal.simps [simp del]

lemma count_equal_spec:
  assumes "i < length names" "j \<le> length names"
  shows "count_equal (length names) names i j c
           = Some (c + count_list (drop j names) (names ! i))"
  using assms
proof (induction "length names - j" arbitrary: j c)
  case 0
  then show ?case by (subst count_equal.simps) simp
next
  case (Suc d)
  then have j: "j < length names" by simp
  have "count_equal (length names) names i (Suc j) c'
      = Some (c' + count_list (drop (Suc j) names) (names ! i))" for c'
    by (rule Suc.hyps) (use Suc j in auto)
  with j Suc.prems show ?case
    by (subst count_equal.simps) (simp add: strcmp_zero Cons_nth_drop_Suc [symmetric])
qed

lemma count_equal_beyond: "length names < n \<Longrightarrow> j \<le> length names \<Longrightarrow> count_equal n names i j c = None"
proof (induction "length names - j" arbitrary: j c)
  case 0
  then show ?case by (subst count_equal.simps) (auto simp: nth_opt_def)
next
  case (Suc d)
  then have "count_equal n names i (Suc j) c' = None" for c' by simp
  with Suc show ?case by (subst count_equal.simps) (auto simp: nth_opt_def)
qed

lemma count_equal_mono: "count_equal n names i j c = Some d \<Longrightarrow> c \<le> d"
proof (induction n names i j c rule: count_equal.induct)
  case (1 n names i j c)
  show ?case
  proof (cases "j < n")
    case False
    with 1 show ?thesis by (subst (asm) count_equal.simps) simp
  next
    case True
    with "1.prems" obtain a b where a: "nth_opt names i = Some a" and b: "nth_opt names j = Some b"
      and rec: "count_equal n names i (j + 1) (if strcmp a b = 0 then c + 1 else c) = Some d"
      by (subst (asm) count_equal.simps) (auto simp: bind_eq_Some_conv)
    from "1.IH" [OF True a b rec] show ?thesis by (auto split: if_splits)
  qed
qed

lemma count_equal_pos:
  assumes "count_equal n names i i 0 = Some c" "i < n"
  shows "0 < c"
proof -
  from assms obtain a where "nth_opt names i = Some a"
    and "count_equal n names i (i + 1) (if strcmp a a = 0 then 0 + 1 else 0) = Some c"
    by (subst (asm) count_equal.simps) (auto simp: bind_eq_Some_conv)
  with count_equal_mono [of n names i "i + 1" 1 c] show ?thesis by (simp add: strcmp_zero)
qed

text \<open>\<^verbatim>\<open>while(i<50)\<close>: the loop advances because row \<open>i\<close> is always counted.\<close>

function set1_loop ::
  "(node_heap \<Rightarrow> addr option) \<Rightarrow> nat \<Rightarrow> string list \<Rightarrow> nat \<Rightarrow> ecosystem \<Rightarrow> ecosystem option" where
  "set1_loop alloc n names i s =
     (if i < n then do {
        count_animal \<leftarrow> count_equal n names i i 0;
        let s = s\<lparr>no_nodes := no_nodes s + 1\<rparr>;
        name \<leftarrow> nth_opt names i;
        (p, h) \<leftarrow> new_node alloc (heap s) name (int count_animal);
        let s = s\<lparr>heap := h, root := root s @ [p]\<rparr>;
        set1_loop alloc n names (i + count_animal) s
      } else Some s)"
  by pat_completeness auto
termination
  by (relation "measure (\<lambda>(alloc, n, names, i, s). n - i)") (auto dest: count_equal_pos)

declare set1_loop.simps [simp del]

section \<open>Walking and copying lists\<close>

definition node_at :: "node_heap \<Rightarrow> addr \<Rightarrow> animal option" where
  "node_at h p = (case h p of Some (Node a) \<Rightarrow> Some a | _ \<Rightarrow> None)"

text \<open>\<open>list_for_each_entry\<close> over set 1: copy every node that satisfies the filter to the tail of
  the other list.\<close>

fun copy_nodes ::
  "(node_heap \<Rightarrow> addr option) \<Rightarrow> (animal \<Rightarrow> bool) \<Rightarrow> node_heap \<Rightarrow> addr list \<Rightarrow> addr list
    \<Rightarrow> (node_heap \<times> addr list) option" where
  "copy_nodes alloc P h [] target = Some (h, target)"
| "copy_nodes alloc P h (ptr # rest) target = do {
     a \<leftarrow> node_at h ptr;
     if P a then do {
       (q, h') \<leftarrow> new_node alloc h (animal_name a) (occurrences a);
       copy_nodes alloc P h' rest (target @ [q])
     } else copy_nodes alloc P h rest target }"

text \<open>\<open>list_for_each_entry\<close> over a list of set 2: count and print its nodes.\<close>

fun count_and_print ::
  "node_set \<Rightarrow> node_heap \<Rightarrow> addr list \<Rightarrow> int \<times> amsg list \<Rightarrow> (int \<times> amsg list) option" where
  "count_and_print t h [] acc = Some acc"
| "count_and_print t h (ptr # rest) (k, ms) = do {
     a \<leftarrow> node_at h ptr;
     count_and_print t h rest (k + 1, ms @ [NodeLine t (animal_name a) (occurrences a)]) }"

text \<open>\<open>list_for_each_entry_safe\<close> of the exit function: print, unlink and free each node.\<close>

fun free_nodes ::
  "(animal \<Rightarrow> amsg) \<Rightarrow> node_heap \<Rightarrow> addr list \<Rightarrow> (node_heap \<times> amsg list) option" where
  "free_nodes msg h [] = Some (h, [])"
| "free_nodes msg h (ptr # rest) = do {
     a \<leftarrow> node_at h ptr;
     (h', ms) \<leftarrow> free_nodes msg (h(ptr := None)) rest;
     Some (h', msg a # ms) }"

section \<open>Set 2: the filters\<close>

definition set2_both ::
  "(node_heap \<Rightarrow> addr option) \<Rightarrow> string \<Rightarrow> int \<Rightarrow> ecosystem \<Rightarrow> ecosystem option" where
  "set2_both alloc name c s = do {
     (h, l) \<leftarrow> copy_nodes alloc (\<lambda>a. c \<le> occurrences a \<and> strcmp (animal_name a) name = 0)
       (heap s) (root s) (both_root s);
     let s = printk [Banner (ListOf Both)] (s\<lparr>heap := h, both_root := l\<rparr>);
     (k, ms) \<leftarrow> count_and_print Both (heap s) (both_root s) (no_both_nodes s, []);
     Some (printk ms (s\<lparr>no_both_nodes := k\<rparr>)) }"

definition set2_count ::
  "(node_heap \<Rightarrow> addr option) \<Rightarrow> int \<Rightarrow> ecosystem \<Rightarrow> ecosystem option" where
  "set2_count alloc c s = do {
     (h, l) \<leftarrow> copy_nodes alloc (\<lambda>a. c \<le> occurrences a) (heap s) (root s) (count_root s);
     let s = printk [Banner (ListOf ByCount)] (s\<lparr>heap := h, count_root := l\<rparr>);
     (k, ms) \<leftarrow> count_and_print ByCount (heap s) (count_root s) (no_count_nodes s, []);
     Some (printk ms (s\<lparr>no_count_nodes := k\<rparr>)) }"

definition set2_type ::
  "(node_heap \<Rightarrow> addr option) \<Rightarrow> string \<Rightarrow> ecosystem \<Rightarrow> ecosystem option" where
  "set2_type alloc name s = do {
     (h, l) \<leftarrow> copy_nodes alloc (\<lambda>a. strcmp (animal_name a) name = 0) (heap s) (root s) (type_root s);
     let s = printk [Banner (ListOf ByType)] (s\<lparr>heap := h, type_root := l\<rparr>);
     (k, ms) \<leftarrow> count_and_print ByType (heap s) (type_root s) (no_type_nodes s, []);
     Some (printk ms (s\<lparr>no_type_nodes := k\<rparr>)) }"

definition set2_none :: "(node_heap \<Rightarrow> addr option) \<Rightarrow> ecosystem \<Rightarrow> ecosystem option" where
  "set2_none alloc s = do {
     (h, l) \<leftarrow> copy_nodes alloc (\<lambda>a. True) (heap s) (root s) (no_root s);
     let s = printk [Banner (ListOf NoFilter)] (s\<lparr>heap := h, no_root := l\<rparr>);
     (k, ms) \<leftarrow> count_and_print NoFilter (heap s) (no_root s) (no_no_nodes s, []);
     Some (printk ms (s\<lparr>no_no_nodes := k\<rparr>)) }"

definition build_set2 ::
  "(node_heap \<Rightarrow> addr option) \<Rightarrow> params \<Rightarrow> ecosystem \<Rightarrow> ecosystem option" where
  "build_set2 alloc prm s =
     (if find_count prm \<noteq> 0 \<and> animal_find_name prm \<noteq> None
      then set2_both alloc (the (animal_find_name prm)) (find_count prm) s
      else if find_count prm \<noteq> 0 \<or> animal_find_name prm \<noteq> None
      then do {
        s \<leftarrow> (if find_count prm \<noteq> 0 then set2_count alloc (find_count prm) s else Some s);
        (if animal_find_name prm \<noteq> None then set2_type alloc (the (animal_find_name prm)) s
         else Some s) }
      else set2_none alloc s)"

text \<open>The summary at the end of the init function.\<close>

definition allocation_totals :: "params \<Rightarrow> ecosystem \<Rightarrow> ecosystem" where
  "allocation_totals prm s =
     (let s = printk [Banner Allocations, NodesAllocated Set1 (no_nodes s)] s;
          s = s\<lparr>total_nodes := total_nodes s + no_nodes s\<rparr>;
          s = (if find_count prm \<noteq> 0 \<and> animal_find_name prm \<noteq> None
               then (printk [NodesAllocated Both (no_both_nodes s)] s)
                      \<lparr>total_nodes := total_nodes s + no_both_nodes s\<rparr>
               else if find_count prm \<noteq> 0 \<or> animal_find_name prm \<noteq> None
               then (let s = (if find_count prm \<noteq> 0
                              then (printk [NodesAllocated ByCount (no_count_nodes s)] s)
                                     \<lparr>total_nodes := total_nodes s + no_count_nodes s\<rparr>
                              else s)
                     in (if animal_find_name prm \<noteq> None
                         then (printk [NodesAllocated ByType (no_type_nodes s)] s)
                                \<lparr>total_nodes := total_nodes s + no_type_nodes s\<rparr>
                         else s))
               else (printk [NodesAllocated NoFilter (no_no_nodes s)] s)
                      \<lparr>total_nodes := total_nodes s + no_no_nodes s\<rparr>)
      in printk [TotalAllocated (total_nodes s) (total_nodes s * sizeof_animal)] s)"

section \<open>Module init\<close>

text \<open>
  The first \<open>kmalloc\<close> of the init function allocates a node that nothing uses or frees; its
  result is not dereferenced, so a failure there is harmless. The rest follows the code.
\<close>

definition animal_start ::
  "(node_heap \<Rightarrow> addr option) \<Rightarrow> params \<Rightarrow> string list \<Rightarrow> int \<Rightarrow> int \<Rightarrow> ecosystem
    \<Rightarrow> (int \<times> ecosystem) option" where
  "animal_start alloc prm names tstart_nsec tend_nsec s = do {
     let s = printk [Banner InitStarts] s;
     let s = (case alloc (heap s) of None \<Rightarrow> s | Some p \<Rightarrow> s\<lparr>heap := (heap s)(p \<mapsto> Raw)\<rparr>);
     let s = printk (Banner SeedArray # map NameLine names @ [Banner SortedArray]) s;
     sorted_names \<leftarrow> sort_outer 15 (length names) 0 names;
     let s = printk (map NameLine sorted_names) s;
     let s = s\<lparr>root := [], count_root := [], type_root := [], both_root := [], no_root := []\<rparr>;
     s \<leftarrow> set1_loop alloc (length names) sorted_names 0 s;
     let s = printk [Banner (ListOf Set1)] s;
     (k, ms) \<leftarrow> count_and_print Set1 (heap s) (root s) (0, []);
     let s = printk ms s;
     s \<leftarrow> build_set2 alloc prm s;
     let s = allocation_totals prm s;
     Some (0, printk [InsertTime (word_of_int (tend_nsec - tstart_nsec)), Banner InitEnds] s) }"

section \<open>Module exit\<close>

definition free_set2 :: "params \<Rightarrow> ecosystem \<Rightarrow> ecosystem option" where
  "free_set2 prm s =
     (if find_count prm \<noteq> 0 \<and> animal_find_name prm \<noteq> None then do {
        let s = printk [Banner (Deleting Both)] s;
        (h, ms) \<leftarrow> free_nodes (\<lambda>a. Freeing Both (animal_name a) (occurrences a)) (heap s) (both_root s);
        Some (printk ms (s\<lparr>heap := h, both_root := []\<rparr>))
      } else if find_count prm \<noteq> 0 \<or> animal_find_name prm \<noteq> None then do {
        s \<leftarrow> (if find_count prm \<noteq> 0 then do {
                let s = printk [Banner (Deleting ByCount)] s;
                (h, ms) \<leftarrow> free_nodes (\<lambda>a. Freeing ByCount (animal_name a) (occurrences a))
                  (heap s) (count_root s);
                Some (printk ms (s\<lparr>heap := h, count_root := []\<rparr>))
              } else Some s);
        (if animal_find_name prm \<noteq> None then do {
           let s = printk [Banner (Deleting ByType)] s;
           (h, ms) \<leftarrow> free_nodes (\<lambda>a. FreeingName (animal_name a)) (heap s) (type_root s);
           Some (printk ms (s\<lparr>heap := h, type_root := []\<rparr>))
         } else Some s)
      } else do {
        let s = printk [Banner (Deleting NoFilter)] s;
        (h, ms) \<leftarrow> free_nodes (\<lambda>a. Freeing NoFilter (animal_name a) (occurrences a))
          (heap s) (no_root s);
        Some (printk ms (s\<lparr>heap := h, no_root := []\<rparr>)) })"

definition deallocation_totals :: "params \<Rightarrow> ecosystem \<Rightarrow> amsg list" where
  "deallocation_totals prm s =
     [Banner Deallocations, NodesDeallocated Set1 (no_nodes s)]
     @ (if find_count prm \<noteq> 0 \<and> animal_find_name prm \<noteq> None
        then [NodesDeallocated Both (no_both_nodes s)]
        else if find_count prm \<noteq> 0 \<or> animal_find_name prm \<noteq> None
        then (if find_count prm \<noteq> 0 then [NodesDeallocated ByCount (no_count_nodes s)] else [])
             @ (if animal_find_name prm \<noteq> None then [NodesDeallocated ByType (no_type_nodes s)] else [])
        else [NodesDeallocated NoFilter (no_no_nodes s)])
     @ [TotalDeallocated (total_nodes s) (total_nodes s * sizeof_animal)]"

definition animal_end :: "params \<Rightarrow> int \<Rightarrow> int \<Rightarrow> ecosystem \<Rightarrow> ecosystem option" where
  "animal_end prm tstart_nsec tend_nsec s = do {
     let s = printk [Banner ExitStarts, Banner (Deleting Set1)] s;
     (h, ms) \<leftarrow> free_nodes (\<lambda>a. Freeing Set1 (animal_name a) (occurrences a)) (heap s) (root s);
     let s = printk ms (s\<lparr>heap := h, root := []\<rparr>);
     s \<leftarrow> free_set2 prm s;
     let s = printk (deallocation_totals prm s) s;
     Some (printk [RemoveTime (word_of_int (tend_nsec - tstart_nsec)), Banner ExitEnds] s) }"

section \<open>Heaps that grow, lists that hold nodes\<close>

text \<open>An allocator that never fails and never hands out a live block.\<close>

definition allocates :: "(node_heap \<Rightarrow> addr option) \<Rightarrow> bool" where
  "allocates alloc \<longleftrightarrow> (\<forall>h. finite (dom h) \<longrightarrow> (\<exists>p. alloc h = Some p \<and> h p = None))"

definition holds :: "node_heap \<Rightarrow> addr list \<Rightarrow> animal list \<Rightarrow> bool" where
  "holds h ps as \<longleftrightarrow> list_all2 (\<lambda>p a. h p = Some (Node a)) ps as"

text \<open>\<open>grown h ps h'\<close>: \<open>h'\<close> is \<open>h\<close> with the new blocks \<open>ps\<close>.\<close>

definition grown :: "node_heap \<Rightarrow> addr list \<Rightarrow> node_heap \<Rightarrow> bool" where
  "grown h ps h' \<longleftrightarrow> distinct ps \<and> set ps \<inter> dom h = {} \<and> dom h' = dom h \<union> set ps \<and> h \<subseteq>\<^sub>m h'"

lemma holds_Nil [simp]: "holds h [] as \<longleftrightarrow> as = []"
  by (simp add: holds_def)

lemma holds_Cons [simp]: "holds h (p # ps) (a # as) \<longleftrightarrow> h p = Some (Node a) \<and> holds h ps as"
  by (simp add: holds_def)

lemma holds_append: "holds h ps as \<Longrightarrow> holds h qs bs \<Longrightarrow> holds h (ps @ qs) (as @ bs)"
  by (simp add: holds_def list_all2_appendI)

lemma holds_length: "holds h ps as \<Longrightarrow> length ps = length as"
  by (auto simp: holds_def dest: list_all2_lengthD)

lemma holds_le: "holds h ps as \<Longrightarrow> h \<subseteq>\<^sub>m h' \<Longrightarrow> holds h' ps as"
  unfolding holds_def by (erule list_all2_mono) (auto simp: map_le_def dom_def)

lemma holds_frame: "holds h ps as \<Longrightarrow> p \<notin> set ps \<Longrightarrow> holds (h(p := v)) ps as"
  unfolding holds_def by (erule list.rel_mono_strong) auto

lemma holds_dom: "holds h ps as \<Longrightarrow> set ps \<subseteq> dom h"
  by (induction ps as rule: list_induct2') (auto simp: holds_def)

lemma grown_refl [simp]: "grown h [] h"
  by (simp add: grown_def)

lemma grown_new: "h p = None \<Longrightarrow> grown h [p] (h(p \<mapsto> b))"
  by (auto simp: grown_def map_le_def)

lemma grown_trans: "grown h ps h' \<Longrightarrow> grown h' qs h'' \<Longrightarrow> grown h (ps @ qs) h''"
  unfolding grown_def by (auto intro: map_le_trans)

lemma grown_le: "grown h ps h' \<Longrightarrow> h \<subseteq>\<^sub>m h'"
  by (simp add: grown_def)

lemma grown_finite: "grown h ps h' \<Longrightarrow> finite (dom h) \<Longrightarrow> finite (dom h')"
  by (simp add: grown_def)

lemma new_node_spec:
  assumes "allocates alloc" "finite (dom h)" "length name < 15"
  obtains p where "new_node alloc h name c = Some (p, h(p \<mapsto> Node \<lparr>animal_name = name, occurrences = c\<rparr>))"
    "h p = None"
  using assms by (auto simp: allocates_def new_node_def)

lemma node_at_Node [simp]: "h p = Some (Node a) \<Longrightarrow> node_at h p = Some a"
  by (simp add: node_at_def)

section \<open>Equal neighbours of a sorted array\<close>

lemma sorted_group:
  assumes "sorted (x # xs)"
  defines "c \<equiv> count_list (x # xs) x"
  shows "x # xs = replicate c x @ drop c (x # xs) \<and> x \<notin> set (drop c (x # xs))"
  using assms(1) unfolding c_def
proof (induction xs)
  case Nil
  then show ?case by simp
next
  case (Cons y ys)
  show ?case
  proof (cases "y = x")
    case True
    with Cons show ?thesis by (auto simp: replicate_append_same)
  next
    case False
    with Cons.prems have "x < y" "\<forall>z\<in>set ys. y \<le> z" by auto
    then have "x \<notin> set (y # ys)" by auto
    then have "count_list (x # y # ys) x = 1" by (auto simp: count_notin)
    then show ?thesis using \<open>x \<notin> set (y # ys)\<close> by simp
  qed
qed

text \<open>The nodes that set 1 should hold for the names \<open>xs\<close>.\<close>

definition tally :: "string list \<Rightarrow> animal list" where
  "tally xs = map (\<lambda>x. \<lparr>animal_name = x, occurrences = int (count_list xs x)\<rparr>)
     (sorted_list_of_set (set xs))"

lemma tally_group:
  assumes "sorted (x # xs)"
  defines "c \<equiv> count_list (x # xs) x"
  shows "tally (x # xs) = \<lparr>animal_name = x, occurrences = int c\<rparr> # tally (drop c (x # xs))"
proof -
  let ?ys = "drop c (x # xs)"
  have g: "x # xs = replicate c x @ ?ys" "x \<notin> set ?ys"
    using sorted_group [OF assms(1)] by (simp_all add: c_def)
  have c: "0 < c" by (simp add: c_def)
  have s: "set (x # xs) = insert x (set ?ys)" using g c by (metis Un_insert_left set_append set_replicate sup_bot.left_neutral not_gr0)
  have le: "x \<le> y" if "y \<in> set ?ys" for y
    using in_set_dropD [OF that] assms(1) by auto
  have "sorted_list_of_set (insert x (set ?ys)) = insort x (sorted_list_of_set (set ?ys))"
    using g(2) by (simp add: sorted_list_of_set_insert_remove)
  also have "\<dots> = x # sorted_list_of_set (set ?ys)"
    by (rule insort_is_Cons) (simp add: le)
  finally have l: "sorted_list_of_set (set (x # xs)) = x # sorted_list_of_set (set ?ys)"
    using s by simp
  have cnt: "count_list (x # xs) y = count_list ?ys y" if "y \<in> set ?ys" for y
  proof -
    have "y \<noteq> x" using that g(2) by auto
    have "count_list (x # xs) y = count_list (replicate c x @ ?ys) y" using g by simp
    also have "\<dots> = count_list ?ys y" using \<open>y \<noteq> x\<close> by (simp add: count_notin)
    finally show ?thesis .
  qed
  have "map (\<lambda>y. \<lparr>animal_name = y, occurrences = int (count_list (x # xs) y)\<rparr>)
          (sorted_list_of_set (set ?ys)) = tally ?ys"
    unfolding tally_def by (rule map_cong) (simp_all only: cnt set_sorted_list_of_set finite_set)
  then show ?thesis by (subst tally_def) (simp only: l list.map c_def)
qed

lemma tally_mset: "mset xs = mset ys \<Longrightarrow> tally xs = tally ys"
proof -
  assume m: "mset xs = mset ys"
  have "count_list xs x = count_list ys x" for x
    using m by (metis count_mset)
  then show ?thesis using mset_eq_setD [OF m] by (simp add: tally_def)
qed

section \<open>The loops meet their contracts\<close>

lemma set1_loop_spec:
  assumes "allocates alloc" "\<forall>x\<in>set names. length x < 15" "sorted names"
    and "finite (dom (heap s))" "i \<le> length names"
  shows "\<exists>ps h. set1_loop alloc (length names) names i s
           = Some (s\<lparr>heap := h, root := root s @ ps, no_nodes := no_nodes s + int (length ps)\<rparr>)
         \<and> grown (heap s) ps h \<and> holds h ps (tally (drop i names))"
  using assms(4-)
proof (induction "length names - i" arbitrary: i s rule: less_induct)
  case less
  show ?case
  proof (cases "i < length names")
    case False
    with less.prems show ?thesis
      by (intro exI [of _ "[]"] exI [of _ "heap s"], subst set1_loop.simps) (simp add: tally_def)
  next
    case True
    define x where "x = names ! i"
    define c where "c = count_list (drop i names) x"
    have d: "drop i names = x # drop (Suc i) names"
      using True by (simp add: x_def Cons_nth_drop_Suc)
    have cnt: "count_equal (length names) names i i 0 = Some c"
      using count_equal_spec [of i names i 0] True by (simp add: c_def x_def)
    have c: "0 < c" "i + c \<le> length names"
      using d count_le_length [of "drop i names" x] True by (simp_all add: c_def)
    have srt: "sorted (x # drop (Suc i) names)" using sorted_wrt_drop [OF assms(3), of i] d by simp
    have tl: "tally (drop i names)
        = \<lparr>animal_name = x, occurrences = int c\<rparr> # tally (drop (i + c) names)"
      using tally_group [OF srt] unfolding d [symmetric] c_def [symmetric]
      by (simp add: add.commute)
    have "length x < 15" using assms(2) True by (simp add: x_def)
    then obtain p where p: "new_node alloc (heap s) x (int c)
        = Some (p, (heap s)(p \<mapsto> Node \<lparr>animal_name = x, occurrences = int c\<rparr>))" "heap s p = None"
      using new_node_spec [OF assms(1) less.prems(1)] by blast
    define h1 where "h1 = (heap s)(p \<mapsto> Node \<lparr>animal_name = x, occurrences = int c\<rparr>)"
    define s1 where "s1 = s\<lparr>no_nodes := no_nodes s + 1, heap := h1, root := root s @ [p]\<rparr>"
    have g1: "grown (heap s) [p] h1" unfolding h1_def using p(2) by (rule grown_new)
    have "set1_loop alloc (length names) names i s = set1_loop alloc (length names) names (i + c) s1"
      using True cnt p by (subst set1_loop.simps) (simp add: x_def s1_def h1_def)
    moreover have "\<exists>ps h. set1_loop alloc (length names) names (i + c) s1
           = Some (s1\<lparr>heap := h, root := root s1 @ ps, no_nodes := no_nodes s1 + int (length ps)\<rparr>)
         \<and> grown (heap s1) ps h \<and> holds h ps (tally (drop (i + c) names))"
      by (rule less.hyps) (use True c less.prems in \<open>auto simp: s1_def h1_def\<close>)
    then obtain ps h where rec: "set1_loop alloc (length names) names (i + c) s1
           = Some (s1\<lparr>heap := h, root := root s1 @ ps, no_nodes := no_nodes s1 + int (length ps)\<rparr>)"
      and g2: "grown h1 ps h" and hd: "holds h ps (tally (drop (i + c) names))"
      by (auto simp: s1_def)
    have "h p = h1 p" using grown_le [OF g2] by (auto simp: map_le_def h1_def dom_def)
    then have "holds h (p # ps) (tally (drop i names))" using hd tl by (simp add: h1_def)
    moreover have "grown (heap s) (p # ps) h" using grown_trans [OF g1 g2] by simp
    ultimately show ?thesis using rec by (intro exI [of _ "p # ps"] exI [of _ h]) (simp add: s1_def)
  qed
qed

lemma copy_nodes_spec:
  assumes "allocates alloc" "finite (dom h)" "holds h ptrs as" "\<forall>a\<in>set as. length (animal_name a) < 15"
  shows "\<exists>ps h'. copy_nodes alloc P h ptrs target = Some (h', target @ ps)
           \<and> grown h ps h' \<and> holds h' ps (filter P as)"
  using assms(2-)
proof (induction ptrs arbitrary: h as target)
  case Nil
  then show ?case by (auto intro!: exI [of _ "[]"])
next
  case (Cons ptr rest)
  then obtain a bs where as: "as = a # bs" "h ptr = Some (Node a)" "holds h rest bs"
    by (cases as) (auto simp: holds_def)
  show ?case
  proof (cases "P a")
    case False
    with Cons.IH [OF Cons.prems(1) as(3), of target] as Cons.prems(3) show ?thesis by auto
  next
    case True
    obtain p where p: "new_node alloc h (animal_name a) (occurrences a)
        = Some (p, h(p \<mapsto> Node \<lparr>animal_name = animal_name a, occurrences = occurrences a\<rparr>))" "h p = None"
      using new_node_spec [OF assms(1) Cons.prems(1)] Cons.prems(3) as(1) by auto
    have eq: "\<lparr>animal_name = animal_name a, occurrences = occurrences a\<rparr> = a" by simp
    let ?h = "h(p \<mapsto> Node a)"
    have g1: "grown h [p] ?h" using p(2) by (rule grown_new)
    have "\<exists>ps h'. copy_nodes alloc P ?h rest (target @ [p]) = Some (h', (target @ [p]) @ ps)
           \<and> grown ?h ps h' \<and> holds h' ps (filter P bs)"
    proof (rule Cons.IH)
      show "finite (dom ?h)" using Cons.prems(1) by simp
      show "holds ?h rest bs" by (rule holds_le [OF as(3) grown_le [OF g1]])
      show "\<forall>a\<in>set bs. length (animal_name a) < 15" using Cons.prems(3) as(1) by simp
    qed
    then obtain ps h' where r: "copy_nodes alloc P ?h rest (target @ [p]) = Some (h', target @ p # ps)"
      "grown ?h ps h'" "holds h' ps (filter P bs)" by auto
    have "h' p = Some (Node a)" using grown_le [OF r(2)] by (auto simp: map_le_def dom_def)
    then have "holds h' (p # ps) (filter P as)" using True r(3) as(1) by simp
    moreover have "grown h (p # ps) h'" using grown_trans [OF g1 r(2)] by simp
    ultimately show ?thesis using r(1) p(1) as(2) True
      by (intro exI [of _ "p # ps"] exI [of _ h']) (simp add: eq)
  qed
qed

lemma count_and_print_spec:
  "holds h ps as \<Longrightarrow> count_and_print t h ps (k, ms) = Some (k + int (length ps),
     ms @ map (\<lambda>a. NodeLine t (animal_name a) (occurrences a)) as)"
proof (induction ps arbitrary: as k ms)
  case Nil
  then show ?case by simp
next
  case (Cons p ps)
  then obtain a bs where "as = a # bs" "h p = Some (Node a)" "holds h ps bs"
    by (cases as) (auto simp: holds_def)
  with Cons.IH [of bs "k + 1"] show ?case by simp
qed

lemma free_nodes_spec:
  "holds h ps as \<Longrightarrow> distinct ps \<Longrightarrow>
     free_nodes msg h ps = Some (h |` (- set ps), map msg as)"
proof (induction ps arbitrary: h as)
  case Nil
  then show ?case by (simp add: restrict_map_def)
next
  case (Cons p ps)
  then obtain a bs where as: "as = a # bs" "h p = Some (Node a)" "holds h ps bs"
    by (cases as) (auto simp: holds_def)
  have "free_nodes msg (h(p := None)) ps = Some ((h(p := None)) |` (- set ps), map msg bs)"
  proof (rule Cons.IH)
    show "holds (h(p := None)) ps bs" using as(3) Cons.prems(2) by (intro holds_frame) simp_all
    show "distinct ps" using Cons.prems(2) by simp
  qed
  moreover have "(h(p := None)) |` (- set ps) = h |` (- set (p # ps))"
    by (auto simp: restrict_map_def)
  ultimately show ?case using as by simp
qed

section \<open>What a loaded module looks like\<close>

text \<open>
  The contract of set 2: a node is selected when it passes every filter that is switched on.
  Which list and which counter the code uses depends on the filters.
\<close>

definition selected :: "params \<Rightarrow> animal \<Rightarrow> bool" where
  "selected prm a \<longleftrightarrow> (find_count prm \<noteq> 0 \<longrightarrow> find_count prm \<le> occurrences a)
     \<and> (case animal_find_name prm of None \<Rightarrow> True | Some nm \<Rightarrow> animal_name a = nm)"

definition set2_root :: "params \<Rightarrow> ecosystem \<Rightarrow> addr list" where
  "set2_root prm s =
     (if find_count prm \<noteq> 0 \<and> animal_find_name prm \<noteq> None then both_root s
      else if find_count prm \<noteq> 0 then count_root s
      else if animal_find_name prm \<noteq> None then type_root s else no_root s)"

definition set2_nodes :: "params \<Rightarrow> ecosystem \<Rightarrow> int" where
  "set2_nodes prm s =
     (if find_count prm \<noteq> 0 \<and> animal_find_name prm \<noteq> None then no_both_nodes s
      else if find_count prm \<noteq> 0 then no_count_nodes s
      else if animal_find_name prm \<noteq> None then no_type_nodes s else no_no_nodes s)"

definition loaded :: "node_heap \<Rightarrow> addr \<Rightarrow> params \<Rightarrow> animal list \<Rightarrow> ecosystem \<Rightarrow> bool" where
  "loaded h0 leak prm as s \<longleftrightarrow>
     grown h0 (leak # root s @ set2_root prm s) (heap s) \<and> heap s leak = Some Raw
     \<and> holds (heap s) (root s) as
     \<and> holds (heap s) (set2_root prm s) (filter (selected prm) as)
     \<and> no_nodes s = int (length (root s)) \<and> set2_nodes prm s = int (length (set2_root prm s))
     \<and> total_nodes s = no_nodes s + set2_nodes prm s"

lemmas set2_defs = set2_both_def set2_count_def set2_type_def set2_none_def
  set2_root_def set2_nodes_def

lemma build_set2_spec:
  assumes "allocates alloc" "finite (dom (heap s))" "holds (heap s) (root s) as"
    and "\<forall>a\<in>set as. length (animal_name a) < 15"
    and "set2_root prm s = []" "set2_nodes prm s = 0"
  shows "\<exists>s'. build_set2 alloc prm s = Some s' \<and> root s' = root s
     \<and> total_nodes s' = total_nodes s \<and> no_nodes s' = no_nodes s
     \<and> set2_nodes prm s' = int (length (set2_root prm s'))
     \<and> grown (heap s) (set2_root prm s') (heap s')
     \<and> holds (heap s') (set2_root prm s') (filter (selected prm) as)"
proof -
  obtain ps h where c: "copy_nodes alloc (selected prm) (heap s) (root s) [] = Some (h, ps)"
    "grown (heap s) ps h" "holds h ps (filter (selected prm) as)"
    using copy_nodes_spec [OF assms(1-4), of "selected prm" "[]"] by auto
  note cp = count_and_print_spec [OF c(3)]
  show ?thesis
  proof (cases "animal_find_name prm")
    case None
    then have "selected prm = (\<lambda>a. find_count prm \<noteq> 0 \<longrightarrow> find_count prm \<le> occurrences a)"
      by (auto simp: selected_def)
    with None c cp assms(5,6) show ?thesis
      by (auto simp: build_set2_def set2_defs printk_def split: if_splits)
  next
    case (Some nm)
    then have "selected prm = (\<lambda>a. (find_count prm \<noteq> 0 \<longrightarrow> find_count prm \<le> occurrences a)
        \<and> strcmp (animal_name a) nm = 0)"
      by (auto simp: selected_def strcmp_zero)
    with Some c cp assms(5,6) show ?thesis
      by (auto simp: build_set2_def set2_defs printk_def split: if_splits)
  qed
qed

lemma allocation_totals_spec:
  "heap (allocation_totals prm s) = heap s \<and> root (allocation_totals prm s) = root s
   \<and> set2_root prm (allocation_totals prm s) = set2_root prm s
   \<and> set2_nodes prm (allocation_totals prm s) = set2_nodes prm s
   \<and> no_nodes (allocation_totals prm s) = no_nodes s
   \<and> total_nodes (allocation_totals prm s) = total_nodes s + no_nodes s + set2_nodes prm s"
  by (simp add: allocation_totals_def printk_def set2_root_def set2_nodes_def Let_def)

lemma printk_fields [simp]:
  "heap (printk ms s) = heap s" "root (printk ms s) = root s" "no_nodes (printk ms s) = no_nodes s"
  "total_nodes (printk ms s) = total_nodes s" "set2_root prm (printk ms s) = set2_root prm s"
  "set2_nodes prm (printk ms s) = set2_nodes prm s" "log (printk ms s) = log s @ ms"
  by (simp_all add: printk_def set2_root_def set2_nodes_def)

lemma tally_names: "a \<in> set (tally xs) \<Longrightarrow> animal_name a \<in> set xs"
  by (auto simp: tally_def)

lemma animal_start_spec:
  assumes alloc: "allocates alloc" and fin: "finite (dom h0)"
    and names: "\<forall>x\<in>set names. length x < 15"
  shows "\<exists>s leak. animal_start alloc prm names t0 t1 (unloaded h0) = Some (0, s)
     \<and> loaded h0 leak prm (tally names) s"
proof -
  obtain leak where leak: "alloc h0 = Some leak" "h0 leak = None"
    using alloc fin unfolding allocates_def by blast
  let ?h = "h0(leak \<mapsto> Raw)"
  define s1 where "s1 = (unloaded h0)\<lparr>heap := ?h, log := Banner InitStarts # Banner SeedArray
    # map NameLine names @ Banner SortedArray # map NameLine (sort names)\<rparr>"
  have g0: "grown h0 [leak] ?h" using leak(2) by (rule grown_new)
  have "tally (sort names) = tally names" by (rule tally_mset) simp
  then obtain ps h where l: "set1_loop alloc (length names) (sort names) 0 s1
        = Some (s1\<lparr>heap := h, root := ps, no_nodes := int (length ps)\<rparr>)"
    and g1: "grown ?h ps h" and hd: "holds h ps (tally names)"
    using set1_loop_spec [OF alloc, of "sort names" s1 0] names fin
    by (auto simp: s1_def unloaded_def)
  note cp = count_and_print_spec [OF hd, of Set1 0 "[]"]
  define s2 where "s2 = s1\<lparr>heap := h, root := ps, no_nodes := int (length ps),
    log := log s1 @ Banner (ListOf Set1)
      # map (\<lambda>a. NodeLine Set1 (animal_name a) (occurrences a)) (tally names)\<rparr>"
  have "\<exists>s'. build_set2 alloc prm s2 = Some s' \<and> root s' = root s2
     \<and> total_nodes s' = total_nodes s2 \<and> no_nodes s' = no_nodes s2
     \<and> set2_nodes prm s' = int (length (set2_root prm s'))
     \<and> grown (heap s2) (set2_root prm s') (heap s')
     \<and> holds (heap s') (set2_root prm s') (filter (selected prm) (tally names))"
  proof (rule build_set2_spec [OF alloc])
    show "finite (dom (heap s2))" using grown_finite [OF g1] fin by (simp add: s2_def)
    show "\<forall>a\<in>set (tally names). length (animal_name a) < 15" using names tally_names by blast
  qed (use hd in \<open>simp_all add: s2_def s1_def unloaded_def set2_root_def set2_nodes_def\<close>)
  then obtain s3 where s3: "build_set2 alloc prm s2 = Some s3" "root s3 = ps" "total_nodes s3 = 0"
    "no_nodes s3 = int (length ps)" "set2_nodes prm s3 = int (length (set2_root prm s3))"
    "grown h (set2_root prm s3) (heap s3)"
    "holds (heap s3) (set2_root prm s3) (filter (selected prm) (tally names))"
    by (auto simp: s2_def s1_def unloaded_def)
  define s4 where "s4 = printk [InsertTime (word_of_int (t1 - t0)), Banner InitEnds] (allocation_totals prm s3)"
  have fields: "heap s4 = heap s3" "root s4 = ps" "set2_root prm s4 = set2_root prm s3"
    "set2_nodes prm s4 = set2_nodes prm s3" "no_nodes s4 = int (length ps)"
    "total_nodes s4 = no_nodes s4 + set2_nodes prm s4"
    using allocation_totals_spec [of prm s3] s3
    by (simp_all add: s4_def)
  have g: "grown h0 (leak # ps @ set2_root prm s3) (heap s3)"
    using grown_trans [OF g0 grown_trans [OF g1 s3(6)]] by simp
  have le: "?h \<subseteq>\<^sub>m heap s3" using grown_le [OF grown_trans [OF g1 s3(6)]] .
  then have "heap s3 leak = Some Raw" by (auto simp: map_le_def)
  then have "loaded h0 leak prm (tally names) s4"
    using g s3 fields holds_le [OF hd grown_le [OF s3(6)]] by (simp add: loaded_def)
  moreover have "animal_start alloc prm names t0 t1 (unloaded h0) = Some (0, s4)"
    using leak l cp s3(1) sort_outer_sorts [OF names]
    by (simp add: animal_start_def s4_def printk_def s2_def s1_def unloaded_def Let_def)
  ultimately show ?thesis by blast
qed

lemma restrict_grown:
  assumes "grown h0 (leak # ps @ qs) h" "h leak = Some Raw"
  shows "(h |` (- set ps)) |` (- set qs) = h0(leak \<mapsto> Raw)"
proof
  fix x
  have "h x = h0 x" if "x \<in> dom h0" using assms(1) that by (auto simp: grown_def map_le_def)
  moreover have "h x = None" if "x \<notin> dom h0" "x \<noteq> leak" "x \<notin> set ps" "x \<notin> set qs"
    using assms(1) that by (auto simp: grown_def)
  ultimately show "((h |` (- set ps)) |` (- set qs)) x = (h0(leak \<mapsto> Raw)) x"
    using assms by (cases "x \<in> dom h0") (auto simp: restrict_map_def grown_def)
qed

lemma animal_end_spec:
  assumes "loaded h0 leak prm as s"
  shows "\<exists>s'. animal_end prm t0 t1 s = Some s' \<and> heap s' = h0(leak \<mapsto> Raw)
     \<and> root s' = [] \<and> set2_root prm s' = []"
proof -
  let ?h = "heap s |` (- set (root s))"
  have g: "grown h0 (leak # root s @ set2_root prm s) (heap s)" and lk: "heap s leak = Some Raw"
    and h1: "holds (heap s) (root s) as"
    and h2: "holds (heap s) (set2_root prm s) (filter (selected prm) as)"
    using assms by (auto simp: loaded_def)
  have d: "distinct (root s)" "distinct (set2_root prm s)" "set (root s) \<inter> set (set2_root prm s) = {}"
    using g by (auto simp: grown_def)
  have h2': "holds ?h (set2_root prm s) (filter (selected prm) as)"
    using h2 d(3) unfolding holds_def by (auto elim!: list.rel_mono_strong simp: restrict_map_def)
  note f1 = free_nodes_spec [OF h1 d(1)] and f2 = free_nodes_spec [OF h2' d(2)]
  note r = restrict_grown [OF g lk]
  show ?thesis
    using f1 f2 r
    by (cases "animal_find_name prm"; cases "find_count prm = 0")
       (simp_all add: animal_end_def free_set2_def set2_root_def printk_def)
qed

lemma length_tally: "length (tally xs) = card (set xs)"
  by (simp add: tally_def)

lemma tally_total: "(\<Sum>a\<leftarrow>tally xs. occurrences a) = int (length xs)"
proof -
  have "(\<Sum>a\<leftarrow>tally xs. occurrences a) = (\<Sum>x\<leftarrow>sorted_list_of_set (set xs). int (count_list xs x))"
    by (simp add: tally_def o_def)
  also have "\<dots> = (\<Sum>x\<in>set xs. int (count_list xs x))"
    by (simp add: sum_list_distinct_conv_sum_set)
  also have "\<dots> = int (length xs)"
    using sum_count_set [of xs "set xs"] by (simp flip: of_nat_sum)
  finally show ?thesis .
qed

section \<open>Properties\<close>

text \<open>An allocator for the witnesses, and the empty heap it starts from.\<close>

definition next_free :: "node_heap \<Rightarrow> addr option" where
  "next_free h = Some (Suc (Max (insert 0 (dom h))))"

lemma next_free_allocates: "allocates next_free"
proof -
  have "h (Suc (Max (insert 0 (dom h)))) = None" if "finite (dom h)" for h :: node_heap
  proof (rule ccontr)
    assume "h (Suc (Max (insert 0 (dom h)))) \<noteq> None"
    then have "Suc (Max (insert 0 (dom h))) \<in> insert 0 (dom h)" by (auto simp: domIff)
    then have "Suc (Max (insert 0 (dom h))) \<le> Max (insert 0 (dom h))" using that by (intro Max_ge) auto
    then show False by simp
  qed
  then show ?thesis by (simp add: allocates_def next_free_def)
qed

lemma names_t_fit: "\<forall>x\<in>set names_t. length x < 15"
  by (simp add: names_t_def)

text \<open>C7: loading the module with any array of names that fit their rows succeeds, and set 1 is
  then exactly the list of the distinct names in ascending order, each with the number of times
  it occurs; these numbers add up to the size of the array. Every \<open>kmalloc\<close> succeeds: the code checks none of them.\<close>

theorem animal_set1:
  assumes "allocates alloc" "finite (dom h0)" "\<forall>x\<in>set names. length x < 15"
  shows "\<exists>s. animal_start alloc prm names t0 t1 (unloaded h0) = Some (0, s)
     \<and> holds (heap s) (root s) (map (\<lambda>x. \<lparr>animal_name = x, occurrences = int (count_list names x)\<rparr>)
          (sorted_list_of_set (set names)))
     \<and> no_nodes s = int (card (set names))
     \<and> (\<Sum>x\<leftarrow>sorted_list_of_set (set names). int (count_list names x)) = int (length names)"
proof -
  from animal_start_spec [OF assms] obtain s leak where
    "animal_start alloc prm names t0 t1 (unloaded h0) = Some (0, s)" "loaded h0 leak prm (tally names) s"
    by blast
  then show ?thesis
    using tally_total [of names] holds_length [of "heap s" "root s" "tally names"]
    by (auto simp: loaded_def length_tally tally_def o_def)
qed

theorem animal_set1_witness:
  "\<exists>s. animal_start next_free \<lparr>animal_find_name = None, find_count = 0\<rparr> names_t 0 5 (unloaded Map.empty)
        = Some (0, s) \<and> no_nodes s = int (card (set names_t))"
  using animal_set1 [OF next_free_allocates _ names_t_fit, of Map.empty] by fastforce

text \<open>The kind of set 2 that the parameters ask for.\<close>

definition set2_kind :: "params \<Rightarrow> node_set" where
  "set2_kind prm =
     (if find_count prm \<noteq> 0 \<and> animal_find_name prm \<noteq> None then Both
      else if find_count prm \<noteq> 0 then ByCount
      else if animal_find_name prm \<noteq> None then ByType else NoFilter)"

lemma animal_start_log:
  assumes "animal_start alloc prm names t0 t1 s0 = Some (r, s)"
  shows "\<exists>before. log s = before @ [Banner Allocations, NodesAllocated Set1 (no_nodes s),
    NodesAllocated (set2_kind prm) (set2_nodes prm s), TotalAllocated (total_nodes s) (total_nodes s * sizeof_animal),
    InsertTime (word_of_int (t1 - t0)), Banner InitEnds]"
proof -
  obtain s1 where "s = printk [InsertTime (word_of_int (t1 - t0)), Banner InitEnds] (allocation_totals prm s1)"
    using assms by (auto simp: animal_start_def Let_def bind_eq_Some_conv case_prod_unfold)
  then show ?thesis
    by (intro exI [of _ "log s1"])
      (auto simp: allocation_totals_def printk_def Let_def set2_kind_def set2_nodes_def)
qed

text \<open>C9: set 2 is, in the order of set 1, the list of those nodes of set 1 that pass every filter
  the module parameters switch on (at least \<open>find_count\<close> occurrences when that is not 0, the name
  \<open>animal_find_name\<close> when it is given). The module's last lines report the number of nodes of set 1, of set 2 and of both
  together, and 28 bytes for each. Every \<open>kmalloc\<close> succeeds (the code checks none of them), and the names fit their rows.\<close>

theorem animal_set2:
  assumes "allocates alloc" "finite (dom h0)" "\<forall>x\<in>set names. length x < 15"
  shows "\<exists>s as before n1 n2. animal_start alloc prm names t0 t1 (unloaded h0) = Some (0, s)
     \<and> holds (heap s) (root s) as
     \<and> holds (heap s) (set2_root prm s)
         (filter (\<lambda>a. (find_count prm \<noteq> 0 \<longrightarrow> find_count prm \<le> occurrences a)
            \<and> (\<forall>nm. animal_find_name prm = Some nm \<longrightarrow> animal_name a = nm)) as)
     \<and> n1 = int (length (root s)) \<and> n2 = int (length (set2_root prm s))
     \<and> log s = before @ [Banner Allocations, NodesAllocated Set1 n1, NodesAllocated (set2_kind prm) n2,
         TotalAllocated (n1 + n2) ((n1 + n2) * 28), InsertTime (word_of_int (t1 - t0)), Banner InitEnds]"
proof -
  obtain s leak where s: "animal_start alloc prm names t0 t1 (unloaded h0) = Some (0, s)"
    and l: "loaded h0 leak prm (tally names) s"
    using animal_start_spec [OF assms, of prm t0 t1] by blast
  have sel: "selected prm = (\<lambda>a. (find_count prm \<noteq> 0 \<longrightarrow> find_count prm \<le> occurrences a)
      \<and> (\<forall>nm. animal_find_name prm = Some nm \<longrightarrow> animal_name a = nm))"
    by (auto simp: selected_def fun_eq_iff split: option.splits)
  obtain before where "log s = before @ [Banner Allocations, NodesAllocated Set1 (no_nodes s),
    NodesAllocated (set2_kind prm) (set2_nodes prm s), TotalAllocated (total_nodes s) (total_nodes s * sizeof_animal),
    InsertTime (word_of_int (t1 - t0)), Banner InitEnds]"
    using animal_start_log [OF s] by blast
  with s l sel show ?thesis
    by (intro exI [of _ s] exI [of _ "tally names"] exI [of _ before]) (simp add: loaded_def sizeof_animal_def)
qed

theorem animal_set2_witness:
  "\<exists>s before n1 n2. animal_start next_free \<lparr>animal_find_name = Some ''Dog'', find_count = 3\<rparr> names_t 0 5
        (unloaded Map.empty) = Some (0, s)
     \<and> log s = before @ [Banner Allocations, NodesAllocated Set1 n1, NodesAllocated Both n2,
         TotalAllocated (n1 + n2) ((n1 + n2) * 28), InsertTime 5, Banner InitEnds]"
  using animal_set2 [OF next_free_allocates _ names_t_fit, of Map.empty "\<lparr>animal_find_name = Some ''Dog'', find_count = 3\<rparr>" 0 5]
  by (fastforce simp: set2_kind_def)

text \<open>C13: removing the module touches no freed node and frees every node of both sets, but one
  block allocated by the init function is never used, counted or freed: after a load and an
  unload the heap has exactly one block more. Every \<open>kmalloc\<close> succeeds (the code checks none of them).\<close>

theorem animal_unload_leaks:
  assumes "allocates alloc" "finite (dom h0)" "\<forall>x\<in>set names. length x < 15"
  shows "\<exists>s s' leak. animal_start alloc prm names t0 t1 (unloaded h0) = Some (0, s)
     \<and> animal_end prm t2 t3 s = Some s' \<and> leak \<notin> dom h0 \<and> heap s' = h0(leak \<mapsto> Raw)
     \<and> root s' = [] \<and> set2_root prm s' = []"
proof -
  from animal_start_spec [OF assms] obtain s leak where
    s: "animal_start alloc prm names t0 t1 (unloaded h0) = Some (0, s)"
    and l: "loaded h0 leak prm (tally names) s" by blast
  moreover have "leak \<notin> dom h0" using l by (auto simp: loaded_def grown_def)
  ultimately show ?thesis using animal_end_spec [OF l] by blast
qed

theorem animal_unload_leaks_witness:
  "\<exists>s s' leak. animal_start next_free \<lparr>animal_find_name = None, find_count = 2\<rparr> names_t 0 5
        (unloaded Map.empty) = Some (0, s)
     \<and> animal_end \<lparr>animal_find_name = None, find_count = 2\<rparr> 7 9 s = Some s' \<and> heap s' = [leak \<mapsto> Raw]"
  using animal_unload_leaks [OF next_free_allocates _ names_t_fit, of Map.empty] by fastforce

lemma seed_counts: "length (tally names_t) = 35"
    "length (filter (selected \<lparr>animal_find_name = None, find_count = 2\<rparr>) (tally names_t)) = 13"
  by code_simp+

text \<open>Loaded with \<open>find_count=2\<close> and no name, the module's own array of 50 names gives 35
  nodes in set 1 and 13 in set 2, and the module reports 48 nodes of 28 bytes; the heap has 49
  blocks more, since the block the init function allocates first is not counted.\<close>

lemma animal_seed_array:
  assumes "allocates alloc" "finite (dom h0)"
  shows "\<exists>s. animal_start alloc \<lparr>animal_find_name = None, find_count = 2\<rparr> names_t t0 t1 (unloaded h0)
        = Some (0, s)
     \<and> length (root s) = 35 \<and> length (count_root s) = 13 \<and> total_nodes s = 48
     \<and> card (dom (heap s)) = card (dom h0) + 49"
proof -
  let ?prm = "\<lparr>animal_find_name = None, find_count = 2\<rparr>"
  from animal_start_spec [OF assms names_t_fit, of ?prm t0 t1] obtain s leak where
    s: "animal_start alloc ?prm names_t t0 t1 (unloaded h0) = Some (0, s)"
    and l: "loaded h0 leak ?prm (tally names_t) s" by blast
  have r: "set2_root ?prm s = count_root s" by (simp add: set2_root_def)
  have len: "length (root s) = 35" "length (count_root s) = 13"
    using l seed_counts holds_length unfolding loaded_def r by force+
  have g: "grown h0 (leak # root s @ count_root s) (heap s)" using l by (simp add: loaded_def r)
  then have "card (dom (heap s)) = card (dom h0) + card (set (leak # root s @ count_root s))"
    using assms(2) unfolding grown_def by (metis List.finite_set card_Un_disjoint inf_commute)
  moreover have "card (set (leak # root s @ count_root s)) = 49"
    using g len by (subst distinct_card) (simp_all add: grown_def)
  ultimately show ?thesis using s l len by (auto simp: loaded_def r)
qed

end
