(* ===== verification/TimerLkm.thy ===== *)
theory TimerLkm
  imports Prelude
begin

text \<open>
  The timer kernel module \<^verbatim>\<open>HW3_APES/PROBLEM3/timer_kernel_module/timer_lkm.c\<close> (and the two messages of
  \<^verbatim>\<open>hello_lkm.c\<close>).

  The kernel around the module: the clock ticks, a pending timer whose time has come may start its
  callback at any moment, and the module may be unloaded at any moment. \<open>jiffies\<close> is the low 32 bits of
  the number of ticks, and a timer is due when \<open>jiffies - expires\<close> is not negative as a signed number.
  The callback and the exit function run statement by statement and interleave, as on a machine with
  several processors; \<open>atomic_step\<close> is the same machine when a callback is never interrupted, as on one
  processor. HZ and the module parameters are parameters.
\<close>

section \<open>State\<close>

datatype message =
    InitMsg | ReadyMsg | ExitMsg | NameMsg string | CalledMsg int | HelloMsg | ByeMsg

datatype callback = Idle | Entered | Counted | Named | Called

datatype module_state = Loaded | Exiting | Gone

record timer_state =
  ticks :: nat
  pending :: "32 word option"
  callback :: callback
  module_state :: module_state
  timer_count :: nat
  klog :: "message list"
  fired_at :: "nat list"

record timer_params =
  my_name :: string
  time_period :: int
  HZ :: int

text \<open>The parameters of a module that is loaded without any: \<^verbatim>\<open>0.5\<close> becomes the integer 0.\<close>

definition default_params :: "int \<Rightarrow> timer_params" where
  "default_params hz = \<lparr>my_name = ''Vikrant'', time_period = 0, HZ = hz\<rparr>"

section \<open>The functions of the module\<close>

definition jiffies :: "timer_state \<Rightarrow> 32 word" where
  "jiffies s = of_nat (ticks s)"

definition next_expiry :: "timer_params \<Rightarrow> timer_state \<Rightarrow> 32 word" where
  "next_expiry k s = jiffies s + word_of_int (HZ k * time_period k)"

text \<open>The counter is an \<^verbatim>\<open>int\<close>, which wraps in the kernel; the state holds how often it was incremented.\<close>

definition as_int :: "nat \<Rightarrow> int" where
  "as_int n = sint (of_nat n :: 32 word)"

text \<open>\<open>timer_callback\<close>, one statement at a time; \<^verbatim>\<open>mod_timer\<close> makes the timer pending again.\<close>

definition timer_callback :: "timer_params \<Rightarrow> timer_state \<Rightarrow> timer_state" where
  "timer_callback k s = (case callback s of
     Idle \<Rightarrow> s
   | Entered \<Rightarrow> s\<lparr>timer_count := Suc (timer_count s), callback := Counted\<rparr>
   | Counted \<Rightarrow> s\<lparr>klog := klog s @ [NameMsg (my_name k)], callback := Named\<rparr>
   | Named \<Rightarrow> s\<lparr>klog := klog s @ [CalledMsg (as_int (timer_count s))], callback := Called\<rparr>
   | Called \<Rightarrow> s\<lparr>pending := Some (next_expiry k s), callback := Idle\<rparr>)"

definition custom_timer_init :: "timer_params \<Rightarrow> timer_state \<Rightarrow> 32 word" where
  "custom_timer_init k s = next_expiry k s"

text \<open>Loading: nothing else of the module runs before \<^verbatim>\<open>add_timer\<close>.\<close>

definition timer_start :: "timer_params \<Rightarrow> nat \<Rightarrow> int \<times> timer_state" where
  "timer_start k t =
    (let s = \<lparr>ticks = t, pending = None, callback = Idle, module_state = Loaded, timer_count = 0, klog = [InitMsg],
              fired_at = []\<rparr>;
         expires = custom_timer_init k s;
         s = s\<lparr>klog := klog s @ [ReadyMsg]\<rparr>
     in (0, s\<lparr>pending := Some expires\<rparr>))"

text \<open>\<open>timer_end\<close>: the message, then \<^verbatim>\<open>del_timer\<close>, which does not wait for a running callback; then the
  module is gone.\<close>

definition timer_end :: "timer_state \<Rightarrow> timer_state" where
  "timer_end s = (case module_state s of
     Loaded \<Rightarrow> s\<lparr>klog := klog s @ [ExitMsg], module_state := Exiting\<rparr>
   | Exiting \<Rightarrow> s\<lparr>pending := None, module_state := Gone\<rparr>
   | Gone \<Rightarrow> s)"

definition hello_start :: "message list \<Rightarrow> int \<times> message list" where
  "hello_start l = (0, l @ [HelloMsg])"

definition hello_end :: "message list \<Rightarrow> message list" where
  "hello_end l = l @ [ByeMsg]"

section \<open>The kernel around it\<close>

definition due :: "32 word \<Rightarrow> timer_state \<Rightarrow> bool" where
  "due e s \<longleftrightarrow> 0 \<le> sint (jiffies s - e)"

lemma due_now: "due (jiffies s) s"
proof -
  have "jiffies s - jiffies s = 0" by (rule diff_self)
  then show ?thesis by (simp only: due_def sint_0)
qed

definition fire :: "timer_state \<Rightarrow> timer_state" where
  "fire s = s\<lparr>pending := None, callback := Entered, fired_at := fired_at s @ [ticks s]\<rparr>"

inductive step :: "timer_params \<Rightarrow> timer_state \<Rightarrow> timer_state \<Rightarrow> bool" for k where
  tick: "step k s (s\<lparr>ticks := Suc (ticks s)\<rparr>)"
| expire: "pending s = Some e \<Longrightarrow> due e s \<Longrightarrow> callback s = Idle \<Longrightarrow> step k s (fire s)"
| run: "callback s \<noteq> Idle \<Longrightarrow> step k s (timer_callback k s)"
| unload: "module_state s \<noteq> Gone \<Longrightarrow> step k s (timer_end s)"

inductive atomic_step :: "timer_params \<Rightarrow> timer_state \<Rightarrow> timer_state \<Rightarrow> bool" for k where
  "step k s t \<Longrightarrow> callback s = Idle \<or> t = timer_callback k s \<Longrightarrow> atomic_step k s t"

inductive_cases stepE: "step k s t"
inductive_cases atomic_stepE: "atomic_step k s t"

definition loaded :: "timer_params \<Rightarrow> nat \<Rightarrow> timer_state" where
  "loaded k t = snd (timer_start k t)"

text \<open>The code of the module is used after it is gone when its callback runs or its timer is pending.\<close>

definition used_after_unload :: "timer_state \<Rightarrow> bool" where
  "used_after_unload s \<longleftrightarrow> module_state s = Gone \<and> (callback s \<noteq> Idle \<or> pending s \<noteq> None)"

section \<open>One processor\<close>

text \<open>C4: When a callback is never interrupted, unloading is clean: once the module is gone its timer is not
  pending and its callback does not run.\<close>

theorem atomic_unload_clean:
  assumes "(atomic_step k)\<^sup>*\<^sup>* (loaded k t0) s"
  shows "\<not> used_after_unload s"
proof -
  have "module_state s = Gone \<longrightarrow> callback s = Idle \<and> pending s = None"
    using assms
  proof (induction rule: rtranclp_induct)
    case base
    show ?case by (simp add: loaded_def timer_start_def Let_def)
  next
    case (step s t)
    from step.hyps(2) show ?case
    proof (cases rule: atomic_step.cases)
      case 1
      from 1(1) step.IH 1(2) show ?thesis
        by (cases rule: stepE)
          (auto simp: fire_def timer_callback_def timer_end_def split: callback.splits module_state.splits)
    qed
  qed
  then show ?thesis by (simp add: used_after_unload_def)
qed

section \<open>Several processors\<close>

lemma one_firing:
  assumes "pending s = Some e" "due e s" "callback s = Idle"
  obtains u where "(step k)\<^sup>*\<^sup>* s u" "callback u = Called" "module_state u = module_state s" "ticks u = ticks s"
    "fired_at u = fired_at s @ [ticks s]"
proof -
  define u where "u = timer_callback k (timer_callback k (timer_callback k (fire s)))"
  have c: "callback (fire s) = Entered" "callback (timer_callback k (fire s)) = Counted"
    "callback (timer_callback k (timer_callback k (fire s))) = Named"
    by (simp_all add: fire_def timer_callback_def)
  have "(step k)\<^sup>*\<^sup>* s (fire s)" using assms by (intro r_into_rtranclp step.expire)
  also have "(step k)\<^sup>*\<^sup>* (fire s) (timer_callback k (fire s))" by (intro r_into_rtranclp step.run) (simp add: c)
  also have "(step k)\<^sup>*\<^sup>* (timer_callback k (fire s)) (timer_callback k (timer_callback k (fire s)))"
    by (intro r_into_rtranclp step.run) (simp add: c)
  also have "(step k)\<^sup>*\<^sup>* (timer_callback k (timer_callback k (fire s))) u"
    unfolding u_def by (intro r_into_rtranclp step.run) (simp add: c)
  finally have "(step k)\<^sup>*\<^sup>* s u" .
  moreover have "callback u = Called" "module_state u = module_state s" "ticks u = ticks s" "fired_at u = fired_at s @ [ticks s]"
    by (simp_all add: u_def fire_def timer_callback_def)
  ultimately show thesis using that by blast
qed

lemma default_expiry: "next_expiry (default_params hz) s = jiffies s"
  by (simp add: next_expiry_def default_params_def)

lemma loaded_simps: "callback (loaded k t0) = Idle" "module_state (loaded k t0) = Loaded" "ticks (loaded k t0) = t0"
  "fired_at (loaded k t0) = []" "pending (loaded (default_params hz) t0) = Some (jiffies (loaded (default_params hz) t0))"
  by (simp_all add: loaded_def timer_start_def Let_def custom_timer_init_def default_expiry) (simp add: jiffies_def)

text \<open>When the exit function runs while the callback does on another processor, the callback makes the timer
  pending again after \<open>del_timer\<close>: the timer fires into a module that is gone.\<close>

lemma unload_race:
  "\<exists>s. (step (default_params hz))\<^sup>*\<^sup>* (loaded (default_params hz) t0) s \<and> used_after_unload s \<and> pending s \<noteq> None"
proof -
  let ?k = "default_params hz"
  obtain u where u: "(step ?k)\<^sup>*\<^sup>* (loaded ?k t0) u" "callback u = Called" "module_state u = Loaded"
    using one_firing [OF loaded_simps(5) [of hz t0] due_now loaded_simps(1), of ?k] by (auto simp: loaded_simps)
  define v where "v = timer_end (timer_end u)"
  have m: "module_state (timer_end u) = Exiting" "callback v = Called" "module_state v = Gone"
    using u by (simp_all add: timer_end_def v_def)
  note u(1)
  also have "(step ?k)\<^sup>*\<^sup>* u (timer_end u)" by (intro r_into_rtranclp step.unload) (simp add: u)
  also have "(step ?k)\<^sup>*\<^sup>* (timer_end u) v" unfolding v_def by (intro r_into_rtranclp step.unload) (simp add: m)
  also have "(step ?k)\<^sup>*\<^sup>* v (timer_callback ?k v)" by (intro r_into_rtranclp step.run) (simp add: m)
  finally have "(step ?k)\<^sup>*\<^sup>* (loaded ?k t0) (timer_callback ?k v)" .
  moreover have "module_state (timer_callback ?k v) = Gone" "pending (timer_callback ?k v) \<noteq> None"
    using m by (simp_all add: timer_callback_def)
  ultimately show ?thesis unfolding used_after_unload_def by blast
qed

section \<open>The period\<close>

lemma sint_small: "- (2 ^ 31) \<le> i \<Longrightarrow> i < 2 ^ 31 \<Longrightarrow> sint (word_of_int i :: 32 word) = i"
  unfolding sint_sbintrunc' by (intro signed_take_bit_int_eq_self) simp_all

lemma due_late:
  assumes "due (of_nat (t + p)) s" "t \<le> ticks s" "p < 2 ^ 31"
  shows "t + p \<le> ticks s"
proof (rule ccontr)
  assume "\<not> t + p \<le> ticks s"
  define i where "i = int (ticks s) - int (t + p)"
  have i: "- (2 ^ 31) \<le> i" "i < 0" using assms(2,3) \<open>\<not> t + p \<le> ticks s\<close> by (simp_all add: i_def)
  have "jiffies s - of_nat (t + p) = (word_of_int i :: 32 word)" by (simp add: jiffies_def i_def)
  then have "sint (jiffies s - of_nat (t + p)) = i" using sint_small [of i] i by simp
  with assms(1) i show False by (simp add: due_def)
qed

text \<open>Where the timer was set, and the gaps between the firings.\<close>

definition gaps_ok :: "nat \<Rightarrow> nat \<Rightarrow> timer_state \<Rightarrow> bool" where
  "gaps_ok p t0 s \<longleftrightarrow> sorted_wrt (\<lambda>a b. a + p \<le> b) (fired_at s) \<and> (\<forall>f \<in> set (fired_at s). t0 + p \<le> f \<and> f \<le> ticks s)
     \<and> (\<forall>e. pending s = Some e \<longrightarrow>
          (\<exists>t. e = of_nat (t + p) \<and> t0 \<le> t \<and> t \<le> ticks s \<and> (\<forall>f \<in> set (fired_at s). f \<le> t)))
     \<and> t0 \<le> ticks s"

lemma next_expiry_nat:
  assumes "0 \<le> HZ k * time_period k"
  shows "next_expiry k s = of_nat (ticks s + nat (HZ k * time_period k))"
proof -
  have "word_of_int (HZ k * time_period k) = (of_nat (nat (HZ k * time_period k)) :: 32 word)"
    using assms by (metis int_nat_eq of_int_of_nat_eq)
  then show ?thesis by (simp add: next_expiry_def jiffies_def)
qed

lemma gaps_step:
  assumes "step k s t" "gaps_ok p t0 s" "p = nat (HZ k * time_period k)" "0 \<le> HZ k * time_period k" "p < 2 ^ 31"
  shows "gaps_ok p t0 t"
  using assms(1)
proof (cases rule: step.cases)
  case tick
  with assms(2) show ?thesis by (fastforce simp: gaps_ok_def)
next
  case (expire e)
  then obtain u where u: "e = of_nat (u + p)" "t0 \<le> u" "u \<le> ticks s" "\<forall>f \<in> set (fired_at s). f \<le> u"
    using assms(2) by (auto simp: gaps_ok_def)
  with expire(3) have "u + p \<le> ticks s" using due_late assms(5) by blast
  then have late: "\<forall>f \<in> set (fired_at s). f + p \<le> ticks s" "t0 + p \<le> ticks s" using u by auto
  with assms(2) show ?thesis by (auto simp: expire(1) fire_def gaps_ok_def sorted_wrt_append)
next
  case run
  with assms(2) next_expiry_nat [OF assms(4), of s] show ?thesis
    by (cases "callback s") (auto simp: timer_callback_def gaps_ok_def assms(3))
next
  case unload
  with assms(2) show ?thesis by (auto simp: timer_end_def gaps_ok_def split: module_state.split)
qed

text \<open>C3: With a period of at least 0 and below 2^31 ticks, every run of the module, with any interleaving, fires for the
  first time at least a period after it is loaded and then at least a period apart, also when \<open>jiffies\<close>
  wraps.\<close>

theorem timer_keeps_period:
  assumes "(step k)\<^sup>*\<^sup>* (loaded k t0) s" "p = nat (HZ k * time_period k)" "0 \<le> HZ k * time_period k" "p < 2 ^ 31"
  shows "sorted_wrt (\<lambda>a b. a + p \<le> b) (fired_at s) \<and> (\<forall>f \<in> set (fired_at s). t0 + p \<le> f)"
proof -
  have "gaps_ok p t0 s"
    using assms(1)
  proof (induction rule: rtranclp_induct)
    case base
    have "ticks (loaded k t0) = t0" "fired_at (loaded k t0) = []"
      by (simp_all add: loaded_def timer_start_def Let_def)
    moreover have "pending (loaded k t0) = Some (of_nat (t0 + p))"
      using assms(3) by (simp add: loaded_def timer_start_def Let_def custom_timer_init_def next_expiry_nat assms(2))
    ultimately show ?case by (auto simp: gaps_ok_def)
  next
    case (step s t)
    then show ?case using gaps_step assms(2-4) by blast
  qed
  then show ?thesis by (auto simp: gaps_ok_def)
qed

lemma due_next: "due (jiffies s) (s\<lparr>ticks := Suc (ticks s)\<rparr>)"
proof -
  have "jiffies (s\<lparr>ticks := Suc (ticks s)\<rparr>) - jiffies s = word_of_int 1" by (simp add: jiffies_def)
  then show ?thesis using sint_small [of 1] by (simp only: due_def) simp
qed

text \<open>Loaded without parameters the module has the period 0, not the 500 ms that its description promises: there
  are runs in which it fires at every single tick.\<close>

lemma default_period_zero:
  "\<exists>s. (step (default_params hz))\<^sup>*\<^sup>* (loaded (default_params hz) t0) s \<and> fired_at s = [t0 + 1..<t0 + 1 + n]"
proof -
  let ?k = "default_params hz"
  have "\<exists>s. (step ?k)\<^sup>*\<^sup>* (loaded ?k t0) s \<and> fired_at s = [t0 + 1..<t0 + 1 + n] \<and> ticks s = t0 + n \<and> callback s = Idle
      \<and> pending s = Some (jiffies s)"
  proof (induction n)
    case 0
    show ?case by (intro exI [of _ "loaded ?k t0"]) (simp add: loaded_simps)
  next
    case (Suc n)
    then obtain s where s: "(step ?k)\<^sup>*\<^sup>* (loaded ?k t0) s" "fired_at s = [t0 + 1..<t0 + 1 + n]" "ticks s = t0 + n"
      "callback s = Idle" "pending s = Some (jiffies s)" by blast
    let ?s = "s\<lparr>ticks := Suc (ticks s)\<rparr>"
    have "step ?k s ?s" by (rule step.tick)
    obtain u where u: "(step ?k)\<^sup>*\<^sup>* ?s u" "callback u = Called" "ticks u = ticks ?s" "fired_at u = fired_at ?s @ [ticks ?s]"
      using one_firing [of ?s "jiffies s" ?k] s(4,5) due_next [of s] by auto
    have "(step ?k)\<^sup>*\<^sup>* u (timer_callback ?k u)" by (intro r_into_rtranclp step.run) (simp add: u)
    with s(1) \<open>step ?k s ?s\<close> u(1) have "(step ?k)\<^sup>*\<^sup>* (loaded ?k t0) (timer_callback ?k u)" by simp
    moreover have "fired_at (timer_callback ?k u) = [t0 + 1..<t0 + 1 + Suc n]" "ticks (timer_callback ?k u) = t0 + Suc n"
      using u s by (simp_all add: timer_callback_def)
    moreover have "callback (timer_callback ?k u) = Idle" "pending (timer_callback ?k u) = Some (jiffies (timer_callback ?k u))"
      using u(2) by (simp_all add: timer_callback_def default_expiry) (simp add: jiffies_def)
    ultimately show ?case by blast
  qed
  then show ?thesis by blast
qed

section \<open>The log\<close>

definition callback_log :: "message list \<Rightarrow> message list" where
  "callback_log = filter (\<lambda>m. case m of NameMsg n \<Rightarrow> True | CalledMsg i \<Rightarrow> True | _ \<Rightarrow> False)"

definition calls :: "string \<Rightarrow> nat \<Rightarrow> message list" where
  "calls n c = concat (map (\<lambda>i. [NameMsg n, CalledMsg (as_int i)]) [1..<Suc c])"

definition log_ok :: "timer_params \<Rightarrow> timer_state \<Rightarrow> bool" where
  "log_ok k s \<longleftrightarrow> (case callback s of
     Idle \<Rightarrow> callback_log (klog s) = calls (my_name k) (timer_count s) \<and> length (fired_at s) = timer_count s
   | Entered \<Rightarrow> callback_log (klog s) = calls (my_name k) (timer_count s) \<and> length (fired_at s) = Suc (timer_count s)
   | Counted \<Rightarrow> callback_log (klog s) = calls (my_name k) (timer_count s - 1) \<and> length (fired_at s) = timer_count s \<and> 0 < timer_count s
   | Named \<Rightarrow> callback_log (klog s) = calls (my_name k) (timer_count s - 1) @ [NameMsg (my_name k)]
       \<and> length (fired_at s) = timer_count s \<and> 0 < timer_count s
   | Called \<Rightarrow> callback_log (klog s) = calls (my_name k) (timer_count s) \<and> length (fired_at s) = timer_count s)"

lemma calls_Suc: "calls n (Suc c) = calls n c @ [NameMsg n, CalledMsg (as_int (Suc c))]"
  by (simp add: calls_def)

lemma log_step: "step k s t \<Longrightarrow> log_ok k s \<Longrightarrow> log_ok k t"
proof (erule stepE)
  assume "t = timer_callback k s" "callback s \<noteq> Idle" "log_ok k s"
  then show ?thesis
    by (cases "timer_count s") (auto simp: log_ok_def timer_callback_def callback_log_def calls_Suc split: callback.splits)
qed (auto simp: log_ok_def fire_def timer_end_def callback_log_def split: callback.splits module_state.splits)

text \<open>In every run, whenever no callback is under way, the lines that the callbacks have logged are exactly one pair per
  firing, numbered from 1, in order (as far as an \<^verbatim>\<open>int\<close> can count).\<close>

lemma timer_log:
  assumes "(step k)\<^sup>*\<^sup>* (loaded k t0) s" "callback s = Idle"
  shows "callback_log (klog s) = calls (my_name k) (length (fired_at s))"
proof -
  have "log_ok k s"
    using assms(1)
  proof (induction rule: rtranclp_induct)
    case base
    show ?case by (simp add: log_ok_def loaded_def timer_start_def Let_def callback_log_def calls_def)
  qed (rule log_step)
  with assms(2) show ?thesis by (simp add: log_ok_def)
qed

section \<open>Examples\<close>

theorem atomic_unload_clean_witness:
  "\<not> used_after_unload (timer_end (timer_end (loaded (default_params 100) 7)))"
proof -
  let ?k = "default_params 100"
  have "atomic_step ?k (loaded ?k 7) (timer_end (loaded ?k 7))"
    by (intro atomic_step.intros step.unload) (simp_all add: loaded_simps)
  moreover have "atomic_step ?k (timer_end (loaded ?k 7)) (timer_end (timer_end (loaded ?k 7)))"
    by (intro atomic_step.intros step.unload) (simp_all add: loaded_simps timer_end_def)
  ultimately have "(atomic_step ?k)\<^sup>*\<^sup>* (loaded ?k 7) (timer_end (timer_end (loaded ?k 7)))" by simp
  then show ?thesis by (rule atomic_unload_clean)
qed

text \<open>A period of one second at 100 ticks a second, loaded at tick 7.\<close>

definition second_params :: timer_params where
  "second_params = \<lparr>my_name = ''Vikrant'', time_period = 1, HZ = 100\<rparr>"

definition after :: "nat \<Rightarrow> timer_state \<Rightarrow> timer_state" where
  "after n s = s\<lparr>ticks := ticks s + n\<rparr>"

lemma ticking: "(step k)\<^sup>*\<^sup>* s (after n s)"
proof (induction n)
  case 0
  show ?case by (simp add: after_def)
next
  case (Suc n)
  have "step k (after n s) (after (Suc n) s)" using step.tick [of k "after n s"] by (simp add: after_def)
  with Suc show ?case by simp
qed

theorem timer_keeps_period_witness:
  "(step second_params)\<^sup>*\<^sup>* (loaded second_params 7) (fire (after 100 (loaded second_params 7)))
    \<and> 107 \<le> hd (fired_at (fire (after 100 (loaded second_params 7))))"
proof -
  let ?s = "after 100 (loaded second_params 7)"
  have p: "pending ?s = Some 107" "callback ?s = Idle" "jiffies ?s = 107"
    by (simp_all add: after_def loaded_def timer_start_def Let_def custom_timer_init_def next_expiry_def jiffies_def
        second_params_def)
  then have "step second_params ?s (fire ?s)" using due_now [of ?s] by (intro step.expire [of ?s 107]) simp_all
  then have run: "(step second_params)\<^sup>*\<^sup>* (loaded second_params 7) (fire ?s)" using ticking by (rule rtranclp.rtrancl_into_rtrancl [rotated])
  have "hd (fired_at (fire ?s)) \<in> set (fired_at (fire ?s))" by (rule hd_in_set) (simp add: fire_def)
  with timer_keeps_period [OF run, of 100] run show ?thesis by (auto simp: second_params_def)
qed

end
