(* ===== verification/SortStrings.thy ===== *)
theory SortStrings
  imports CStrings
begin

text \<open>
  \<^verbatim>\<open>HW3_APES/PROBLEM4/sort_strings.c\<close>: a stand-alone program that prints five names, sorts them
  with the exchange sort of theory CStrings (rows and \<open>temp\<close> of 10 bytes) and prints them again.
  The console output is the list of the printed rows, with the separator in between. The
  \<^verbatim>\<open>uint8_t\<close> counters run up to 5 and cannot wrap.
\<close>

datatype console = Row string | Separator

definition names5 :: "string list" where
  "names5 = [''Vikrant'', ''Raj'', ''Nikhil'', ''Akash'', ''Rick'']"

text \<open>\<^verbatim>\<open>for(i=0;i<5;i++) printf("\n\r%s",names_t[i]);\<close>\<close>

function print_rows :: "nat \<Rightarrow> nat \<Rightarrow> string list \<Rightarrow> console list option" where
  "print_rows n i names =
     (if i < n then do {
        s \<leftarrow> nth_opt names i;
        rest \<leftarrow> print_rows n (i + 1) names;
        Some (Row s # rest)
      } else Some [])"
  by pat_completeness auto
termination
  by (relation "measure (\<lambda>(n, i, names). n - i)") auto

declare print_rows.simps [simp del]

definition sort_strings_main :: "string list \<Rightarrow> console list option" where
  "sort_strings_main names_t = do {
     before \<leftarrow> print_rows 5 0 names_t;
     names_t' \<leftarrow> sort_outer 10 5 0 names_t;
     after \<leftarrow> print_rows 5 0 names_t';
     Some (before @ [Separator] @ after) }"

lemma print_rows_spec:
  "i \<le> length names \<Longrightarrow> print_rows (length names) i names = Some (map Row (drop i names))"
proof (induction "length names - i" arbitrary: i)
  case 0
  then show ?case by (subst print_rows.simps) simp
next
  case (Suc d)
  then have "print_rows (length names) (Suc i) names = Some (map Row (drop (Suc i) names))" by simp
  with Suc show ?case
    by (subst print_rows.simps) (simp add: Cons_nth_drop_Suc [symmetric])
qed

section \<open>Properties\<close>

text \<open>For any five rows that fit their buffers the program prints the rows, the separator and
  the rows in ascending byte order; no access or copy leaves a buffer.\<close>

lemma sort_strings_output:
  assumes "length names = 5" "\<forall>s\<in>set names. length s < 10"
  shows "sort_strings_main names = Some (map Row names @ Separator # map Row (sort names))"
proof -
  have "sort_outer 10 5 0 names = Some (sort names)"
    using sort_outer_sorts [of names 10] assms by simp
  moreover have "print_rows 5 0 names = Some (map Row names)"
    "print_rows 5 0 (sort names) = Some (map Row (sort names))"
    using print_rows_spec [of 0 names] print_rows_spec [of 0 "sort names"] assms by simp_all
  ultimately show ?thesis by (simp add: sort_strings_main_def)
qed

end
