(* ===== verification/MemCopy.thy ===== *)
theory MemCopy
  imports Prelude
begin

text \<open>
  The byte copy of \<^verbatim>\<open>HW3_APES/PROBLEM2/memory.c\<close>. Memory maps addresses to bytes: an address that
  is not mapped does not belong to any object, a mapped one holds a byte or is indeterminate.
  Reading an indeterminate byte, or any access to an unmapped address, is undefined (\<open>None\<close>).
  Source and destination may overlap, so the model works on one memory.
\<close>

type_synonym bytemem = "addr \<rightharpoonup> byte option"

definition rd :: "bytemem \<Rightarrow> addr \<Rightarrow> byte option" where
  "rd m p = (case m p of Some (Some b) \<Rightarrow> Some b | _ \<Rightarrow> None)"

definition wr :: "bytemem \<Rightarrow> addr \<Rightarrow> byte \<Rightarrow> bytemem option" where
  "wr m p b = (if m p = None then None else Some (m(p \<mapsto> Some b)))"

text \<open>\<^verbatim>\<open>*(dst_cpy + i) = *(src_cpy + i)\<close> for \<open>i\<close> from 0. The source comes first.\<close>

function memcpy_loop :: "bytemem \<Rightarrow> addr \<Rightarrow> addr \<Rightarrow> nat \<Rightarrow> nat \<Rightarrow> bytemem option" where
  "memcpy_loop m src dst len i =
     (if i < len then do {
        b \<leftarrow> rd m (src + i);
        m' \<leftarrow> wr m (dst + i) b;
        memcpy_loop m' src dst len (i + 1)
      } else Some m)"
  by pat_completeness auto
termination
  by (relation "measure (\<lambda>(m, src, dst, len, i). len - i)") auto

declare memcpy_loop.simps [simp del]

definition memcpy :: "bytemem \<Rightarrow> addr \<Rightarrow> addr \<Rightarrow> nat \<Rightarrow> bytemem option" where
  "memcpy m src dst len = memcpy_loop m src dst len 0"

text \<open>
  The main program: two blocks of ten bytes, the source filled with 0 to 9, copied and printed.
  \<open>malloc\<close> is a parameter that gives the address of a new block or \<open>None\<close> for NULL.
\<close>

definition add_block :: "bytemem \<Rightarrow> addr \<Rightarrow> nat \<Rightarrow> bytemem" where
  "add_block m p n = (\<lambda>a. if p \<le> a \<and> a < p + n then Some None else m a)"

function fill :: "bytemem \<Rightarrow> addr \<Rightarrow> nat \<Rightarrow> nat \<Rightarrow> bytemem option" where
  "fill m src n i =
     (if i < n then do { m' \<leftarrow> wr m (src + i) (of_nat i); fill m' src n (i + 1) } else Some m)"
  by pat_completeness auto
termination
  by (relation "measure (\<lambda>(m, src, n, i). n - i)") auto

declare fill.simps [simp del]

definition memory_main :: "(bytemem \<Rightarrow> nat \<Rightarrow> addr option) \<Rightarrow> bytemem \<Rightarrow> byte list option" where
  "memory_main malloc m = do {
     src \<leftarrow> malloc m 10;
     let m = add_block m src 10;
     dst \<leftarrow> malloc m 10;
     let m = add_block m dst 10;
     m \<leftarrow> fill m src 10 0;
     m \<leftarrow> memcpy m src dst 10;
     those (map (\<lambda>i. rd m (dst + i)) [0..<10]) }"

section \<open>The loop\<close>

text \<open>
  \<open>f k\<close> is the byte that ends up in cell \<open>k\<close> of the destination. A source cell that lies in the
  part of the destination already written is read after it changed.
\<close>

lemma memcpy_loop_spec:
  assumes "\<forall>k<len. m (dst + k) \<noteq> None"
    and "\<forall>k<len. if src < dst \<and> dst \<le> src + k then f k = f (src + k - dst)
                 else m (src + k) = Some (Some (f k))"
    and "i \<le> len"
    and "\<forall>a. mi a = (if dst \<le> a \<and> a < dst + i then Some (Some (f (a - dst))) else m a)"
  shows "memcpy_loop mi src dst len i
           = Some (\<lambda>a. if dst \<le> a \<and> a < dst + len then Some (Some (f (a - dst))) else m a)"
  using assms(3,4)
proof (induction "len - i" arbitrary: i mi)
  case 0
  then have "mi = (\<lambda>a. if dst \<le> a \<and> a < dst + len then Some (Some (f (a - dst))) else m a)" by auto
  with 0 show ?case by (subst memcpy_loop.simps) simp
next
  case (Suc d)
  then have i: "i < len" by simp
  have r: "mi (src + i) = Some (Some (f i))"
    using assms(2)[rule_format, OF i] Suc.prems(2)[rule_format, of "src + i"]
    by (auto split: if_splits)
  have w: "mi (dst + i) \<noteq> None" using assms(1) i Suc.prems(2) by auto
  have "memcpy_loop (mi(dst + i \<mapsto> Some (f i))) src dst len (Suc i)
      = Some (\<lambda>a. if dst \<le> a \<and> a < dst + len then Some (Some (f (a - dst))) else m a)"
    by (rule Suc.hyps) (use Suc i in auto)
  with i r w show ?case by (subst memcpy_loop.simps) (simp add: rd_def wr_def)
qed

lemma memcpy_spec:
  assumes "\<forall>k<len. m (dst + k) \<noteq> None"
    and "\<forall>k<len. if src < dst \<and> dst \<le> src + k then f k = f (src + k - dst)
                 else m (src + k) = Some (Some (f k))"
  shows "memcpy m src dst len
           = Some (\<lambda>a. if dst \<le> a \<and> a < dst + len then Some (Some (f (a - dst))) else m a)"
  unfolding memcpy_def by (rule memcpy_loop_spec [OF assms]) auto

lemma fill_spec:
  assumes "\<forall>k<n. m (src + k) \<noteq> None" "i \<le> n"
  shows "fill m src n i
    = Some (\<lambda>a. if src + i \<le> a \<and> a < src + n then Some (Some (of_nat (a - src))) else m a)"
  using assms
proof (induction "n - i" arbitrary: i m)
  case 0
  then show ?case by (subst fill.simps) (auto simp: fun_eq_iff)
next
  case (Suc d)
  then have i: "i < n" "m (src + i) \<noteq> None" by auto
  have "fill (m(src + i \<mapsto> Some (of_nat i))) src n (Suc i)
    = Some (\<lambda>a. if src + Suc i \<le> a \<and> a < src + n then Some (Some (of_nat (a - src)))
                else (m(src + i \<mapsto> Some (of_nat i))) a)"
    by (rule Suc.hyps) (use Suc i in auto)
  moreover have "(\<lambda>a. if src + Suc i \<le> a \<and> a < src + n then Some (Some (of_nat (a - src)))
                else (m(src + i \<mapsto> Some (of_nat i))) a)
     = (\<lambda>a. if src + i \<le> a \<and> a < src + n then Some (Some (of_nat (a - src) :: byte)) else m a)"
    using i by (auto simp: fun_eq_iff le_less)
  ultimately show ?case using i by (subst fill.simps) (simp add: wr_def)
qed

section \<open>Properties\<close>

text \<open>A memory for the witnesses: three bytes at 0 and four indeterminate ones behind them.\<close>

definition demo_mem :: bytemem where
  "demo_mem a = (if a < 3 then Some (Some 5) else if a < 7 then Some None else None)"

text \<open>C40: the copy is exact when the destination starts at or before the source, or behind its
  end: every destination byte becomes the source byte from before the call, and no other byte
  of memory changes. Every access is inside the two ranges.\<close>

theorem memcpy_exact:
  assumes "\<forall>k<len. m (dst + k) \<noteq> None" and "\<forall>k<len. m (src + k) = Some (Some (g k))"
    and "dst \<le> src \<or> src + len \<le> dst"
  shows "\<exists>m'. memcpy m src dst len = Some m'
     \<and> (\<forall>k<len. m' (dst + k) = Some (Some (g k)))
     \<and> (\<forall>a. a < dst \<or> dst + len \<le> a \<longrightarrow> m' a = m a)"
proof -
  have "memcpy m src dst len
      = Some (\<lambda>a. if dst \<le> a \<and> a < dst + len then Some (Some (g (a - dst))) else m a)"
    by (rule memcpy_spec) (use assms in auto)
  then show ?thesis by auto
qed

theorem memcpy_exact_witness:
  "\<exists>m'. memcpy demo_mem 0 3 2 = Some m' \<and> m' 4 = Some (Some 5)"
proof -
  have "\<forall>k<2. demo_mem (3 + k) \<noteq> None" "\<forall>k<2. demo_mem (0 + k) = Some (Some 5)"
    by (auto simp: demo_mem_def)
  from memcpy_exact [OF this] obtain m' where m: "memcpy demo_mem 0 3 2 = Some m'"
    "\<forall>k<2. m' (3 + k) = Some (Some 5)" by fastforce
  from m(2)[rule_format, of 1] have "m' 4 = Some (Some 5)" by simp
  with m(1) show ?thesis by blast
qed

text \<open>when the destination starts inside the source, the ascending copy repeats the first
  \<open>dst - src\<close> bytes of the source over the whole destination, so the copy is not exact.\<close>

lemma memcpy_overlap_repeats:
  assumes "\<forall>k<len. m (dst + k) \<noteq> None" and "\<forall>k<len. m (src + k) = Some (Some (g k))"
    and "src < dst" "dst < src + len"
  shows "\<exists>m'. memcpy m src dst len = Some m'
     \<and> (\<forall>k<len. m' (dst + k) = Some (Some (g (k mod (dst - src)))))"
proof -
  let ?f = "\<lambda>k. g (k mod (dst - src))"
  have "memcpy m src dst len
      = Some (\<lambda>a. if dst \<le> a \<and> a < dst + len then Some (Some (?f (a - dst))) else m a)"
  proof (rule memcpy_spec [OF assms(1)], intro allI impI)
    fix k assume k: "k < len"
    show "if src < dst \<and> dst \<le> src + k then ?f k = ?f (src + k - dst)
          else m (src + k) = Some (Some (?f k))"
    proof (cases "dst \<le> src + k")
      case True
      then have "src + k - dst = k - (dst - src)" "dst - src \<le> k" using assms(3) by auto
      then show ?thesis using True assms(3) by (simp add: le_mod_geq)
    next
      case False
      then have "k < dst - src" using assms(3) by auto
      then show ?thesis using False assms(2) k by simp
    qed
  qed
  then show ?thesis by auto
qed

text \<open>The main program prints the numbers 0 to 9, whatever memory it starts with, as long as
  \<open>malloc\<close> gives it two blocks that do not overlap.\<close>

lemma memory_main_prints:
  assumes "malloc m 10 = Some src" "malloc (add_block m src 10) 10 = Some dst"
    and "dst + 10 \<le> src \<or> src + 10 \<le> dst"
  shows "memory_main malloc m = Some (map of_nat [0..<10])"
proof -
  let ?m = "add_block (add_block m src 10) dst 10"
  let ?f = "\<lambda>a. if src + 0 \<le> a \<and> a < src + 10 then Some (Some (of_nat (a - src))) else ?m a"
  have f: "fill ?m src 10 0 = Some ?f"
    by (rule fill_spec) (auto simp: add_block_def)
  have "memcpy ?f src dst 10
      = Some (\<lambda>a. if dst \<le> a \<and> a < dst + 10 then Some (Some (of_nat (a - dst))) else ?f a)" (is "_ = Some ?m'")
    by (rule memcpy_spec) (use assms(3) in \<open>auto simp: add_block_def\<close>)
  moreover have "map (\<lambda>i. rd ?m' (dst + i)) [0..<10] = map Some (map of_nat [0..<10])"
    unfolding map_map by (rule map_cong) (auto simp: rd_def)
  ultimately show ?thesis
    unfolding memory_main_def Let_def assms(1) bind.simps assms(2) f
    by (simp only: bind.simps those_map_Some)
qed

end
