(* ===== verification/FileIo.thy ===== *)
theory FileIo
  imports Prelude
begin

text \<open>
  The file IO program \<^verbatim>\<open>HW2_APES/PROBLEM2/src/myfileIO.c\<close>.

  \<open>main\<close> writes one character to a file, appends a line from the terminal, and reads both back.
  Parameters: which of the five \<^verbatim>\<open>fopen\<close> calls succeed, whether there is memory, what \<^verbatim>\<open>fflush\<close> and the
  \<^verbatim>\<open>fclose\<close> calls return, how much of the buffer one that fails has brought to the file, what a failed
  \<^verbatim>\<open>fflush\<close> leaves in the buffer, and the input. The library says nothing of the last: some implementations
  keep the rest of a failed flush for the next call, others drop it. \<open>None\<close>: the code uses a null file or array, reads an indeterminate
  byte, or writes outside its 20 bytes.
\<close>

section \<open>State\<close>

abbreviation NUL :: char where
  "NUL \<equiv> CHR 0x00"

datatype message =
    Banner | OpenFailed | AppendFailed | CloseFailed | FlushFailed | ArrayFailed | Prompt | ReadFailed | EndOfFile
  | Letter char | Line string

record io_api =
  opens :: "nat \<Rightarrow> bool"
  memory :: bool
  flush_status :: int
  flush_reaches :: nat
  flush_leaves :: "string \<Rightarrow> string"
  close_status :: "nat \<Rightarrow> int"
  close_reaches :: "nat \<Rightarrow> nat"

record io_state =
  content :: string
  buffer :: string
  console :: "message list"
  open_files :: nat
  blocks :: nat

definition say :: "bool \<Rightarrow> message \<Rightarrow> io_state \<Rightarrow> io_state" where
  "say b m s = (if b then s\<lparr>console := console s @ [m]\<rparr> else s)"

text \<open>The statuses are kept in a \<^verbatim>\<open>uint8_t\<close>.\<close>

definition failed :: "int \<Rightarrow> bool" where
  "failed status \<longleftrightarrow> (word_of_int status :: byte) \<noteq> 0"

section \<open>The array\<close>

fun store :: "nat \<Rightarrow> string \<Rightarrow> char cells \<Rightarrow> char cells option" where
  "store i [] a = awrite a i NUL"
| "store i (c # s) a = do { a \<leftarrow> awrite a i c; store (Suc i) s a }"

fun string_in :: "char cells \<Rightarrow> string option" where
  "string_in [] = None"
| "string_in (None # a) = None"
| "string_in (Some c # a) = (if c = NUL then Some [] else map_option ((#) c) (string_in a))"

text \<open>\<^verbatim>\<open>scanf("%[^\n]s")\<close>: an empty line leaves the array as it is.\<close>

definition scan_line :: "string \<Rightarrow> char cells \<Rightarrow> char cells option" where
  "scan_line stdin a =
    (let line = takeWhile (\<lambda>c. c \<noteq> CHR ''\<newline>'') stdin in if line = [] then Some a else store 0 line a)"

text \<open>\<^verbatim>\<open>fgets\<close> with size \<open>n\<close>: at most \<open>n - 1\<close> characters, up to and with a newline; nothing at the end of the
  file.\<close>

definition fgets :: "nat \<Rightarrow> string \<Rightarrow> string option" where
  "fgets n file =
    (if n = 0 then None
     else if n = 1 then Some []
     else if file = [] then None
     else Some (take (n - 1) (if CHR ''\<newline>'' \<in> set file then takeWhile (\<lambda>c. c \<noteq> CHR ''\<newline>'') file @ ''\<newline>'' else file)))"

section \<open>The program\<close>

text \<open>The three calls that open the file before anything is written; only the last handle is kept.\<close>

definition open_three :: "io_api \<Rightarrow> io_state \<Rightarrow> io_state" where
  "open_three k s =
    (let s = (if opens k 0 then s\<lparr>content := [], open_files := open_files s + 1\<rparr> else s);
         s = say (\<not> opens k 0) OpenFailed s;
         s = (if opens k 1 then s\<lparr>open_files := open_files s + 1\<rparr> else s);
         s = say (\<not> opens k 1) OpenFailed s;
         s = (if opens k 2 then s\<lparr>content := [], open_files := open_files s + 1\<rparr> else s)
     in say (\<not> opens k 2) OpenFailed s)"

text \<open>What was written to a stream waits in its buffer. A call that returns 0 has brought all of it to the
  file; one that fails has brought some first part of it there.\<close>

definition drain :: "bool \<Rightarrow> nat \<Rightarrow> string \<Rightarrow> io_state \<Rightarrow> io_state" where
  "drain ok n rest s = s\<lparr>content := content s @ (if ok then buffer s else take n (buffer s)), buffer := (if ok then [] else rest)\<rparr>"

definition fflush :: "io_api \<Rightarrow> io_state \<Rightarrow> io_state" where
  "fflush k s = say (failed (flush_status k)) FlushFailed
     (drain (flush_status k = 0) (flush_reaches k) (flush_leaves k (buffer s)) s)"

definition fclose :: "io_api \<Rightarrow> nat \<Rightarrow> io_state \<Rightarrow> io_state" where
  "fclose k i s = say (failed (close_status k i)) CloseFailed
     ((drain (close_status k i = 0) (close_reaches k i) [] s)\<lparr>open_files := open_files s - 1\<rparr>)"

text \<open>The part that writes the file: the array, the text in it and the state.\<close>

definition write_file :: "io_api \<Rightarrow> string \<Rightarrow> (char cells \<times> string \<times> io_state) option" where
  "write_file k stdin = do {
     let s = open_three k \<lparr>content = [], buffer = [], console = [Banner], open_files = 0, blocks = 0\<rparr>;
     s \<leftarrow> (if opens k 2 then Some (s\<lparr>buffer := buffer s @ ''v''\<rparr>) else None);
     let s = fclose k 0 s;
     let s = say (\<not> opens k 3) AppendFailed (if opens k 3 then s\<lparr>open_files := open_files s + 1\<rparr> else s);
     let s = (if memory k then s\<lparr>blocks := blocks s + 1\<rparr> else s\<lparr>console := console s @ [ArrayFailed]\<rparr>);
     let s = say True Prompt s;
     allocated_array \<leftarrow> (if memory k then scan_line stdin (uninit 20) else None);
     text \<leftarrow> string_in allocated_array;
     s \<leftarrow> (if opens k 3 then Some (s\<lparr>buffer := buffer s @ text\<rparr>) else None);
     let s = fflush k s;
     Some (allocated_array, text, fclose k 1 s)
   }"

text \<open>The part that reads it back, with the array and the text in it.\<close>

definition read_file :: "io_api \<Rightarrow> char cells \<Rightarrow> string \<Rightarrow> io_state \<Rightarrow> io_state option" where
  "read_file k allocated_array text s = do {
     let s = say (\<not> opens k 4) ReadFailed (if opens k 4 then s\<lparr>open_files := open_files s + 1\<rparr> else s);
     file \<leftarrow> (if opens k 4 then Some (content s) else None);
     let s = (case file of [] \<Rightarrow> say True EndOfFile s | c # rest \<Rightarrow> say True (Letter c) s);
     s \<leftarrow> (case fgets (length text + 1) (drop 1 file) of
            None \<Rightarrow> Some s
          | Some got \<Rightarrow> do {
              allocated_array \<leftarrow> store 0 got allocated_array;
              text \<leftarrow> string_in allocated_array;
              Some (say True (Line text) s)
            });
     let s = fclose k 2 s;
     Some (s\<lparr>blocks := blocks s - 1\<rparr>)
   }"

definition file_main :: "io_api \<Rightarrow> string \<Rightarrow> io_state option" where
  "file_main k stdin = do { (allocated_array, text, s) \<leftarrow> write_file k stdin; read_file k allocated_array text s }"

section \<open>The array holds what was read\<close>

lemma store_buf: "length xs + length s < n \<Longrightarrow> store (length xs) s (buf n xs) = Some (buf n (xs @ s @ [NUL]))"
proof (induction s arbitrary: xs)
  case Nil
  then show ?case by (simp add: awrite_buf)
next
  case (Cons c s)
  then show ?case using Cons.IH [of "xs @ [c]"] by (simp add: awrite_buf)
qed

lemma store_too_long: "n \<le> length xs + length s \<Longrightarrow> length xs \<le> n \<Longrightarrow> store (length xs) s (buf n xs) = None"
proof (induction s arbitrary: xs)
  case Nil
  then show ?case by (simp add: awrite_beyond)
next
  case (Cons c s)
  show ?case
  proof (cases "length xs < n")
    case True
    then show ?thesis using Cons.IH [of "xs @ [c]"] Cons.prems by (simp add: awrite_buf)
  next
    case False
    then show ?thesis using Cons.prems by (simp add: awrite_beyond)
  qed
qed

definition c_text :: "string \<Rightarrow> string" where
  "c_text s = takeWhile (\<lambda>c. c \<noteq> NUL) s"

lemma string_in_terminated: "string_in (map Some s @ Some NUL # a) = Some (c_text s)"
  by (induction s) (auto simp: c_text_def)

lemma string_in_buf: "string_in (buf n (s @ [NUL])) = Some (c_text s)"
  by (simp add: buf_def string_in_terminated)

lemma string_in_uninit: "string_in (uninit (Suc n)) = None"
  by simp

definition the_line :: "string \<Rightarrow> string" where
  "the_line stdin = takeWhile (\<lambda>c. c \<noteq> CHR ''\<newline>'') stdin"

lemma scan_line_result:
  "scan_line stdin (uninit 20) \<bind> string_in
    = (if the_line stdin = [] \<or> 20 \<le> length (the_line stdin) then None else Some (c_text (the_line stdin)))"
proof -
  have u: "uninit 20 = buf 20 ([] :: string)" by simp
  show ?thesis
  proof (cases "the_line stdin = []")
    case True
    then show ?thesis using string_in_uninit [of 19] by (simp add: scan_line_def the_line_def)
  next
    case False
    then show ?thesis
      using store_buf [of "[]" "the_line stdin" 20] store_too_long [of 20 "[]" "the_line stdin"]
      by (simp add: scan_line_def the_line_def [symmetric] string_in_buf flip: u)
  qed
qed

text \<open>Storing a string over another one that is at least as long.\<close>

lemma store_over:
  "i + length s < length a \<Longrightarrow> \<exists>b. store i s a = Some (take i a @ map Some s @ [Some NUL] @ b)"
proof (induction s arbitrary: i a)
  case Nil
  then show ?case by (auto simp: awrite_def upd_conv_take_nth_drop)
next
  case (Cons c s)
  let ?a = "a[i := Some c]"
  have "Suc i + length s < length ?a" using Cons.prems by simp
  then obtain b where "store (Suc i) s ?a = Some (take (Suc i) ?a @ map Some s @ [Some NUL] @ b)" using Cons.IH by blast
  moreover have "take (Suc i) ?a = take i a @ [Some c]" using Cons.prems by (simp add: take_Suc_conv_app_nth)
  ultimately show ?case using Cons.prems by (simp add: awrite_def)
qed

section \<open>What the program does\<close>

definition normal :: "message \<Rightarrow> bool" where
  "normal m \<longleftrightarrow> m \<notin> {OpenFailed, AppendFailed, CloseFailed, FlushFailed, ArrayFailed, ReadFailed}"

lemma say_simps [simp]:
  "content (say b m s) = content s" "buffer (say b m s) = buffer s" "open_files (say b m s) = open_files s" "blocks (say b m s) = blocks s"
  "filter normal (console (say b m s)) = filter normal (console s) @ (if b \<and> normal m then [m] else [])"
  by (simp_all add: say_def)

lemma fclose_simps [simp]:
  "buffer s = [] \<Longrightarrow> content (fclose k i s) = content s"
  "close_status k i = 0 \<Longrightarrow> content (fclose k i s) = content s @ buffer s"
  "buffer (fclose k i s) = []"
  "open_files (fclose k i s) = open_files s - 1" "blocks (fclose k i s) = blocks s"
  "filter normal (console (fclose k i s)) = filter normal (console s)"
  by (simp_all add: fclose_def drain_def Let_def normal_def)

lemma fflush_simps [simp]:
  "flush_status k = 0 \<Longrightarrow> content (fflush k s) = content s @ buffer s"
  "flush_status k = 0 \<Longrightarrow> buffer (fflush k s) = []"
  "open_files (fflush k s) = open_files s" "blocks (fflush k s) = blocks s"
  "filter normal (console (fflush k s)) = filter normal (console s)"
  by (simp_all add: fflush_def drain_def Let_def normal_def)

lemma open_three_simps:
  "opens k 2 \<Longrightarrow> open_files (open_three k s) = open_files s + of_bool (opens k 0) + of_bool (opens k 1) + 1"
  "blocks (open_three k s) = blocks s" "buffer (open_three k s) = buffer s"
  "opens k 2 \<Longrightarrow> content (open_three k s) = []" "filter normal (console (open_three k s)) = filter normal (console s)"
  by (simp_all add: open_three_def Let_def normal_def)

lemma fgets_short: "fgets n f = Some got \<Longrightarrow> length got \<le> n - 1"
  by (auto simp: fgets_def split: if_splits)

lemma store_readable:
  assumes "length s < length a"
  obtains b where "store 0 s a = Some b" "string_in b = Some (c_text s)"
  using store_over [of 0 s a] assms string_in_terminated [of s] by auto

lemma fgets_whole: "CHR ''\<newline>'' \<notin> set str \<Longrightarrow> fgets (Suc (length str)) str = Some str"
  by (simp add: fgets_def)

definition runs :: "io_api \<Rightarrow> string \<Rightarrow> bool" where
  "runs k stdin \<longleftrightarrow> opens k 2 \<and> opens k 3 \<and> opens k 4 \<and> memory k \<and> the_line stdin \<noteq> [] \<and> length (the_line stdin) < 20"

lemma scanned:
  assumes "runs k stdin"
  obtains a where "scan_line stdin (uninit 20) = Some a" "string_in a = Some (c_text (the_line stdin))"
    "length (c_text (the_line stdin)) < length a"
proof -
  let ?a = "buf 20 (the_line stdin @ [NUL])"
  have "scan_line stdin (uninit 20) = Some ?a"
    using assms store_buf [of "[]" "the_line stdin" 20] by (simp add: runs_def scan_line_def the_line_def [symmetric])
  moreover have "length (c_text (the_line stdin)) \<le> length (the_line stdin)" by (simp add: c_text_def length_takeWhile_le)
  ultimately show thesis using that [of ?a] assms by (simp add: runs_def string_in_buf)
qed

lemma write_runs:
  assumes "runs k stdin"
  obtains a s where "write_file k stdin = Some (a, c_text (the_line stdin), s)"
    "length (c_text (the_line stdin)) < length a" "buffer s = []"
    "close_status k 0 = 0 \<and> flush_status k = 0 \<longrightarrow> content s = CHR ''v'' # c_text (the_line stdin)"
    "filter normal (console s) = [Banner, Prompt]"
    "open_files s = of_bool (opens k 0) + of_bool (opens k 1)" "blocks s = 1"
proof -
  define u where "u = open_three k \<lparr>content = [], buffer = [], console = [Banner], open_files = 0, blocks = 0\<rparr>"
  have o: "opens k 2" "opens k 3" "memory k" using assms by (simp_all add: runs_def)
  have u: "content u = []" "buffer u = []" "open_files u = of_bool (opens k 0) + of_bool (opens k 1) + 1" "blocks u = 0"
    "filter normal (console u) = [Banner]"
    using o(1) by (simp_all add: u_def open_three_simps) (simp add: normal_def)
  obtain a where a: "scan_line stdin (uninit 20) = Some a" "string_in a = Some (c_text (the_line stdin))"
    "length (c_text (the_line stdin)) < length a"
    using scanned [OF assms] .
  show thesis
    by (rule that [OF _ a(3)], simp add: write_file_def Let_def o a u_def [symmetric] u)
      (simp_all add: o u, simp add: normal_def)
qed

lemma read_returns:
  assumes "opens k 4" "length text < length a"
  shows "read_file k a text s \<noteq> None"
proof -
  have st: "store 0 got a \<bind> (\<lambda>a. string_in a \<bind> F) = F (c_text got)"
    if "fgets (Suc (length text)) f = Some got" for f got and F :: "string \<Rightarrow> io_state option"
  proof -
    have "length got < length a" using fgets_short [OF that] assms(2) by simp
    then obtain b where "store 0 got a = Some b" "string_in b = Some (c_text got)" using store_readable by blast
    then show ?thesis by simp
  qed
  then show ?thesis using assms(1) by (simp add: read_file_def Let_def st split: option.split)
qed

lemma read_runs:
  assumes "opens k 4" "length text < length a" "buffer s = []" "content s = CHR ''v'' # text"
    and "CHR ''\<newline>'' \<notin> set text" "c_text text = text" "filter normal (console s) = [Banner, Prompt]" "blocks s = 1"
  shows "\<exists>t. read_file k a text s = Some t \<and> content t = content s \<and> open_files t = open_files s \<and> blocks t = 0
    \<and> filter normal (console t) = [Banner, Prompt, Letter CHR ''v'', Line text]"
proof -
  obtain b where b: "store 0 text a = Some b" "string_in b = Some (c_text text)" using store_readable [OF assms(2)] .
  show ?thesis
    using assms fgets_whole [OF assms(5)] by (simp add: read_file_def Let_def b) (simp add: normal_def)
qed

lemma c_text_of_line: "CHR ''\<newline>'' \<notin> set (c_text (the_line stdin))" "c_text (c_text xs) = c_text xs"
  by (auto simp: c_text_def the_line_def takeWhile_eq_all_conv dest!: set_takeWhileD)

lemma main_returns:
  assumes "runs k stdin"
  shows "file_main k stdin \<noteq> None"
proof -
  obtain a s where "write_file k stdin = Some (a, c_text (the_line stdin), s)" "length (c_text (the_line stdin)) < length a"
    using write_runs [OF assms] by metis
  then show ?thesis using read_returns [of k "c_text (the_line stdin)" a s] assms by (simp add: file_main_def runs_def)
qed

lemma main_runs:
  assumes "runs k stdin" "close_status k 0 = 0" "flush_status k = 0"
  shows "\<exists>s. file_main k stdin = Some s \<and> content s = CHR ''v'' # c_text (the_line stdin)
    \<and> filter normal (console s) = [Banner, Prompt, Letter CHR ''v'', Line (c_text (the_line stdin))]
    \<and> open_files s = of_bool (opens k 0) + of_bool (opens k 1) \<and> blocks s = 0"
proof -
  obtain a s where s: "write_file k stdin = Some (a, c_text (the_line stdin), s)"
    "length (c_text (the_line stdin)) < length a" "buffer s = []" "content s = CHR ''v'' # c_text (the_line stdin)"
    "filter normal (console s) = [Banner, Prompt]"
    "open_files s = of_bool (opens k 0) + of_bool (opens k 1)" "blocks s = 1"
    using write_runs [OF assms(1)] assms(2,3) by metis
  have "opens k 4" using assms(1) by (simp add: runs_def)
  from read_runs [OF this s(2-4) c_text_of_line s(5,7)] s show ?thesis by (auto simp: file_main_def)
qed

lemma main_stops:
  assumes "\<not> runs k stdin"
  shows "file_main k stdin = None"
proof (cases "opens k 2 \<and> memory k \<and> opens k 3 \<and> opens k 4")
  case True
  then have "the_line stdin = [] \<or> 20 \<le> length (the_line stdin)" using assms by (simp add: runs_def not_less)
  then have "scan_line stdin (uninit 20) \<bind> string_in = None" using scan_line_result [of stdin] by simp
  then have "scan_line stdin (uninit 20) = None \<or> (\<exists>a. scan_line stdin (uninit 20) = Some a \<and> string_in a = None)"
    by (cases "scan_line stdin (uninit 20)") auto
  with True show ?thesis by (auto simp: file_main_def write_file_def Let_def)
next
  case False
  then show ?thesis by (auto simp: file_main_def write_file_def read_file_def Let_def bind_eq_None_conv)
qed

text \<open>The program runs to its end exactly when the files it writes through can be opened, there is memory, and the line
  has 1 to 19 characters: an empty line leaves the array indeterminate, and a longer one overruns its 20
  bytes.\<close>

lemma file_main_defined:
  "file_main k stdin \<noteq> None \<longleftrightarrow>
     opens k 2 \<and> opens k 3 \<and> opens k 4 \<and> memory k \<and> the_line stdin \<noteq> [] \<and> length (the_line stdin) < 20"
proof -
  have "file_main k stdin \<noteq> None \<longleftrightarrow> runs k stdin"
    using main_returns [of k stdin] main_stops [of k stdin] by (cases "runs k stdin") auto
  then show ?thesis by (simp only: runs_def)
qed

text \<open>C22: When it runs, the line holds no NUL character, and the \<^verbatim>\<open>fflush\<close> and the two \<^verbatim>\<open>fclose\<close> calls after the
  writes succeed, the file holds the letter v and the line, both are printed back in that order, and the memory is freed; but the first
  two handles stay open.\<close>

theorem file_main_echo:
  assumes "file_main k stdin = Some s" "NUL \<notin> set (the_line stdin)"
    "close_status k 0 = 0" "flush_status k = 0" "close_status k 1 = 0"
  shows "content s = CHR ''v'' # the_line stdin
    \<and> filter normal (console s) = [Banner, Prompt, Letter CHR ''v'', Line (the_line stdin)]
    \<and> open_files s = of_bool (opens k 0) + of_bool (opens k 1) \<and> blocks s = 0"
proof -
  have "c_text (the_line stdin) = the_line stdin" using assms(2) by (auto simp: c_text_def takeWhile_eq_all_conv)
  moreover have "runs k stdin" using assms(1) main_stops [of k stdin] by (cases "runs k stdin") auto
  ultimately show ?thesis using main_runs [of k stdin] assms(1,3,4) by auto
qed

definition all_well :: io_api where
  "all_well = \<lparr>opens = (\<lambda>_. True), memory = True, flush_status = 0, flush_reaches = 0, flush_leaves = (\<lambda>s. s),
    close_status = (\<lambda>_. 0), close_reaches = (\<lambda>_. 0)\<rparr>"

theorem file_main_echo_witness:
  "\<exists>s. file_main all_well ''hello\<newline>'' = Some s \<and> content s = ''vhello'' \<and> open_files s = 2"
proof -
  have "runs all_well ''hello\<newline>''" by (simp add: runs_def all_well_def the_line_def)
  then obtain s where s: "file_main all_well ''hello\<newline>'' = Some s" using main_returns by blast
  then show ?thesis using file_main_echo [OF s] by (simp add: the_line_def all_well_def)
qed

end
