(* ===== verification/Ipc.thy ===== *)
theory Ipc
  imports Prelude
begin

text \<open>
  What the four inter-thread communication programs of \<^verbatim>\<open>HW4_APES/PROBLEM2\<close> share: the LED
  commands, the packet \<^verbatim>\<open>thread1_cmd_t\<close> / \<^verbatim>\<open>thread2_cmd_t\<close> (a 40 byte message, a command and
  the length of the message: 48 bytes), the way a thread fills its table of ten packets, the
  layout of a packet in memory (what \<open>write\<close> and \<open>send\<close> transfer), the entries of the log file.

  A field that the code never stores is indeterminate: \<open>None\<close>. Time stamps, thread ids and
  \<open>sleep\<close> are left out: nothing the threads exchange depends on them, and every interleaving of
  the two threads is allowed, whatever the sleeps are.
\<close>

section \<open>LED commands\<close>

datatype led_cmd = ON | OFF | TOGGLE | FAULT | WARNING | CRITICAL | SAFE | BLINK | DAMAGED | OUT_OF_RANGE

definition led_list :: "led_cmd list" where
  "led_list = [ON, OFF, TOGGLE, FAULT, WARNING, CRITICAL, SAFE, BLINK, DAMAGED, OUT_OF_RANGE]"

primrec led_num :: "led_cmd \<Rightarrow> nat" where
  "led_num ON = 0"
| "led_num OFF = 1"
| "led_num TOGGLE = 2"
| "led_num FAULT = 3"
| "led_num WARNING = 4"
| "led_num CRITICAL = 5"
| "led_num SAFE = 6"
| "led_num BLINK = 7"
| "led_num DAMAGED = 8"
| "led_num OUT_OF_RANGE = 9"

definition led_of :: "nat \<Rightarrow> led_cmd option" where
  "led_of n = (if n < length led_list then Some (led_list ! n) else None)"

lemma led_of_num [simp]: "led_of (led_num c) = Some c"
  by (cases c) (simp_all add: led_of_def led_list_def)

lemma led_num_inject: "led_num c \<le> led_num d \<Longrightarrow> led_num d \<le> led_num c \<Longrightarrow> c = d"
  using led_of_num [of c] led_of_num [of d] by (metis antisym option.inject)

lemma led_num_less: "led_num c < 10"
  by (cases c) simp_all

text \<open>The order of the commands is the order of their numbers in the enumeration.\<close>

instantiation led_cmd :: linorder
begin

definition less_eq_led_cmd :: "led_cmd \<Rightarrow> led_cmd \<Rightarrow> bool" where
  "c \<le> d \<longleftrightarrow> led_num c \<le> led_num d"

definition less_led_cmd :: "led_cmd \<Rightarrow> led_cmd \<Rightarrow> bool" where
  "c < d \<longleftrightarrow> led_num c < led_num d"

instance
proof
  fix c d e :: led_cmd
  show "c < d \<longleftrightarrow> c \<le> d \<and> \<not> d \<le> c" "c \<le> c" "c \<le> d \<or> d \<le> c"
    by (simp_all only: less_eq_led_cmd_def less_led_cmd_def) linarith+
  show "c \<le> d \<Longrightarrow> d \<le> e \<Longrightarrow> c \<le> e"
    by (simp only: less_eq_led_cmd_def)
  show "c \<le> d \<Longrightarrow> d \<le> c \<Longrightarrow> c = d"
    by (simp only: less_eq_led_cmd_def led_num_inject)
qed

end

section \<open>Packets\<close>

record packet =
  messages :: "string option"
  command :: "led_cmd option"
  string_len :: "int option"

definition blank :: packet where
  "blank = \<lparr>messages = None, command = None, string_len = None\<rparr>"

definition packet_of :: "string \<Rightarrow> led_cmd option \<Rightarrow> packet" where
  "packet_of m c = \<lparr>messages = Some m, command = c, string_len = Some (int (length m))\<rparr>"

text \<open>The three groups of stores that fill a table: \<open>strcpy\<close> into the 40 bytes of a message,
  commands, and the lengths of the stored messages.\<close>

fun store_messages :: "(nat \<times> string) list \<Rightarrow> packet list \<Rightarrow> packet list option" where
  "store_messages [] t = Some t"
| "store_messages ((i, m) # rest) t =
     (if i < length t \<and> length m < 40
      then store_messages rest (t[i := (t ! i)\<lparr>messages := Some m\<rparr>]) else None)"

fun store_commands :: "(nat \<times> led_cmd) list \<Rightarrow> packet list \<Rightarrow> packet list option" where
  "store_commands [] t = Some t"
| "store_commands ((i, c) # rest) t =
     (if i < length t then store_commands rest (t[i := (t ! i)\<lparr>command := Some c\<rparr>]) else None)"

fun store_lengths :: "nat list \<Rightarrow> packet list \<Rightarrow> packet list option" where
  "store_lengths [] t = Some t"
| "store_lengths (i # rest) t =
     (if i < length t then (case messages (t ! i) of
        Some m \<Rightarrow> store_lengths rest (t[i := (t ! i)\<lparr>string_len := Some (int (length m))\<rparr>])
      | None \<Rightarrow> None) else None)"

definition fill_table :: "(nat \<times> string) list \<Rightarrow> (nat \<times> led_cmd) list \<Rightarrow> nat list \<Rightarrow> packet list option" where
  "fill_table ms cs ls = do {
     t \<leftarrow> store_messages ms (replicate 10 blank);
     t \<leftarrow> store_commands cs t;
     store_lengths ls t
   }"

definition indexed :: "'a list \<Rightarrow> (nat \<times> 'a) list" where
  "indexed xs = zip [0..<length xs] xs"

definition messages1 :: "string list" where
  "messages1 =
    [''Thread1: Initialising communication'', ''Thread1: Opening gateway'',
     ''Thread1: Checking system status'', ''Thread1: Adding parity bits'',
     ''Thread1: Sending data'', ''Thread1: Extracting data'', ''Thread1: Extracting parity'',
     ''Thread1: Waiting for Acknowledgement'', ''Thread1: Closing the gateway'',
     ''Thread1: Closing the connection'']"

definition messages2 :: "string list" where
  "messages2 =
    [''Thread2: Communication initialised'', ''Thread2: Gateway opened'',
     ''Thread2: Status positive'', ''Thread2: Parity bits added successfull'',
     ''Thread2: Data sent'', ''Thread2: Data extracted'', ''Thread2: Parity extracted'',
     ''Thread2: Acknowledgement sent'', ''Thread2: Gateway closed'', ''Thread2: Connection closed'']"

definition packets1 :: "packet list" where
  "packets1 = map2 packet_of messages1 (map Some led_list)"

definition packets2 :: "packet list" where
  "packets2 = map2 packet_of messages2 (map Some led_list)"

lemmas table_defs = indexed_def led_list_def messages1_def messages2_def blank_def packet_of_def

lemma fill_table1: "fill_table (indexed messages1) (indexed led_list) [0..<10] = Some packets1"
  by (simp add: fill_table_def packets1_def table_defs upt_rec numeral_nat)

lemma fill_table2: "fill_table (indexed messages2) (indexed led_list) [0..<10] = Some packets2"
  by (simp add: fill_table_def packets2_def table_defs upt_rec numeral_nat)

lemma length_packets [simp]: "length packets1 = 10" "length packets2 = 10"
  by (simp_all add: packets1_def packets2_def messages1_def messages2_def led_list_def)

section \<open>The bytes of a packet\<close>

text \<open>A 32-bit value in memory, least significant byte first (both machines are little endian).\<close>

definition le32 :: "int32 \<Rightarrow> byte list" where
  "le32 w = [ucast w, ucast (drop_bit 8 w), ucast (drop_bit 16 w), ucast (drop_bit 24 w)]"

definition of_le32 :: "byte list \<Rightarrow> int32" where
  "of_le32 bs = (case bs of [a, b, c, d] \<Rightarrow>
     or (ucast a) (or (push_bit 8 (ucast b)) (or (push_bit 16 (ucast c)) (push_bit 24 (ucast d))))
   | _ \<Rightarrow> 0)"

lemma of_le32_le32 [simp]: "of_le32 (le32 w) = w"
proof (rule bit_word_eqI)
  fix n assume n: "n < LENGTH(32)"
  have "bit (of_le32 (le32 w)) n \<longleftrightarrow> bit w n \<and> n < 8 \<or> 8 \<le> n \<and> bit w n \<and> n < 16
      \<or> 16 \<le> n \<and> bit w n \<and> n < 24 \<or> 24 \<le> n \<and> bit w n"
    using n by (auto simp: of_le32_def le32_def bit_or_iff bit_push_bit_iff bit_ucast_iff bit_drop_bit_eq)
  with n show "bit (of_le32 (le32 w)) n = bit w n" by linarith
qed

lemma length_le32 [simp]: "length (le32 w) = 4"
  by (simp add: le32_def)

definition byte_of :: "char \<Rightarrow> byte" where
  "byte_of c = word_of_nat (of_char c)"

definition char_at :: "byte \<Rightarrow> char" where
  "char_at b = char_of (unat b)"

lemma char_at_byte_of [simp]: "char_at (byte_of c) = c"
proof -
  have "unat (word_of_nat (of_char c) :: byte) = of_char c"
    by (simp add: unat_of_nat take_bit_eq_mod)
  then show ?thesis by (simp add: char_at_def byte_of_def)
qed

text \<open>The members of a packet in the order of the structure; no padding is needed. What follows the
  message's terminating zero was never stored.\<close>

definition field_bytes :: "int32 option \<Rightarrow> byte cells" where
  "field_bytes w = (case w of None \<Rightarrow> uninit 4 | Some v \<Rightarrow> map Some (le32 v))"

definition message_bytes :: "string option \<Rightarrow> byte cells" where
  "message_bytes m = (case m of None \<Rightarrow> uninit 40 | Some s \<Rightarrow> buf 40 (map byte_of s @ [0]))"

definition packet_bytes :: "packet \<Rightarrow> byte cells" where
  "packet_bytes p = message_bytes (messages p)
     @ field_bytes (map_option (\<lambda>c. word_of_nat (led_num c)) (command p))
     @ field_bytes (map_option word_of_int (string_len p))"

text \<open>What \<open>printf\<close> makes of the bytes: \<open>%s\<close> up to the first zero, \<open>%d\<close> of the two numbers. An
  indeterminate byte on the way makes the field indeterminate.\<close>

fun c_string :: "byte cells \<Rightarrow> string option" where
  "c_string [] = None"
| "c_string (None # bs) = None"
| "c_string (Some b # bs) = (if b = 0 then Some [] else map_option ((#) (char_at b)) (c_string bs))"

definition field_of :: "byte cells \<Rightarrow> int32 option" where
  "field_of bs = map_option of_le32 (those bs)"

definition parse_packet :: "byte cells \<Rightarrow> packet" where
  "parse_packet bs = \<lparr>messages = c_string (take 40 bs),
     command = Option.bind (field_of (take 4 (drop 40 bs))) (\<lambda>w. led_of (unat w)),
     string_len = map_option sint (field_of (take 4 (drop 44 bs)))\<rparr>"

definition packet_size :: nat where
  "packet_size = 48"

text \<open>The packets that fit: at most 39 characters, none of them zero, and an \<open>int\<close> as the length.\<close>

definition wf_packet :: "packet \<Rightarrow> bool" where
  "wf_packet p \<longleftrightarrow> (case messages p of None \<Rightarrow> True | Some m \<Rightarrow> length m < 40 \<and> CHR 0x00 \<notin> set m)
     \<and> (case string_len p of None \<Rightarrow> True | Some n \<Rightarrow> - (2 ^ 31) \<le> n \<and> n < 2 ^ 31)"

lemma length_field_bytes [simp]: "length (field_bytes w) = 4"
  by (simp add: field_bytes_def split: option.split)

lemma length_message_bytes: "wf_packet p \<Longrightarrow> length (message_bytes (messages p)) = 40"
  by (auto simp: message_bytes_def wf_packet_def split: option.splits)

lemma length_packet_bytes: "wf_packet p \<Longrightarrow> length (packet_bytes p) = packet_size"
  by (simp add: packet_bytes_def length_message_bytes packet_size_def)

lemma field_of_bytes [simp]: "field_of (field_bytes w) = w"
proof (cases w)
  case None
  have "those (uninit 4 :: byte cells) = None" by (simp add: numeral_eq_Suc)
  with None show ?thesis by (simp add: field_of_def field_bytes_def)
qed (simp add: field_of_def field_bytes_def)

lemma byte_of_zero: "byte_of c = 0 \<Longrightarrow> c = CHR 0x00"
proof -
  assume zero: "byte_of c = 0"
  have "c = char_at (byte_of c)" by simp
  also have "\<dots> = CHR 0x00" by (simp only: zero) (simp add: char_at_def char_of_def)
  finally show ?thesis .
qed

lemma c_string_bytes:
  "CHR 0x00 \<notin> set s \<Longrightarrow> c_string (map (Some \<circ> byte_of) s @ Some 0 # bs) = Some s"
  by (induction s) (auto dest: byte_of_zero)

lemma c_string_message:
  "wf_packet p \<Longrightarrow> c_string (message_bytes (messages p)) = messages p"
proof (cases "messages p")
  case None
  then show ?thesis by (simp add: message_bytes_def numeral_eq_Suc)
next
  case (Some m)
  moreover assume "wf_packet p"
  ultimately show ?thesis
    by (simp add: message_bytes_def wf_packet_def buf_def c_string_bytes)
qed

lemma parse_packet_bytes: "wf_packet p \<Longrightarrow> parse_packet (packet_bytes p) = p"
proof -
  assume wf: "wf_packet p"
  have "Option.bind (map_option (\<lambda>c. word_of_nat (led_num c)) (command p))
      (\<lambda>w :: int32. led_of (unat w)) = command p"
  proof (cases "command p")
    case (Some c)
    then show ?thesis using led_num_less [of c] by (simp add: unat_of_nat take_bit_nat_eq_self)
  qed simp
  moreover have "map_option sint (map_option (word_of_int :: int \<Rightarrow> int32) (string_len p)) = string_len p"
  proof (cases "string_len p")
    case (Some n)
    with wf have "signed_take_bit 31 n = n"
      by (intro signed_take_bit_int_eq_self) (auto simp: wf_packet_def)
    with Some show ?thesis by (simp add: sint_sbintrunc')
  qed simp
  ultimately show ?thesis
    using length_message_bytes [OF wf] c_string_message [OF wf]
    by (simp add: parse_packet_def packet_bytes_def)
qed

lemma wf_tables: "p \<in> set packets1 \<Longrightarrow> wf_packet p" "p \<in> set packets2 \<Longrightarrow> wf_packet p"
  by (auto simp: packets1_def packets2_def messages1_def messages2_def led_list_def packet_of_def
      wf_packet_def)

section \<open>The log file and standard error\<close>

datatype who = Main | Thread1 | Thread2

text \<open>\<open>Entering\<close>, \<open>Exiting\<close> and \<open>Exiting ... due to kill signal\<close> lines, and the line a thread
  writes for a packet.\<close>

datatype entry = Entering who | Got who packet | Exiting who | Killed who

fun packet_entries :: "entry list \<Rightarrow> (who \<times> packet) list" where
  "packet_entries [] = []"
| "packet_entries (Got w p # es) = (w, p) # packet_entries es"
| "packet_entries (_ # es) = packet_entries es"

lemma packet_entries_append [simp]: "packet_entries (es @ fs) = packet_entries es @ packet_entries fs"
  by (induction es rule: packet_entries.induct) simp_all

text \<open>The packets one thread has logged.\<close>

definition got :: "who \<Rightarrow> entry list \<Rightarrow> packet list" where
  "got w es = map snd (filter (\<lambda>(v, _). v = w) (packet_entries es))"

lemma got_simps [simp]:
  "got w [] = []" "got w (es @ fs) = got w es @ got w fs"
  "got w (Got v p # es) = (if v = w then p # got w es else got w es)"
  "got w (Entering v # es) = got w es" "got w (Exiting v # es) = got w es"
  "got w (Killed v # es) = got w es"
  by (simp_all add: got_def)

section \<open>Threads\<close>

text \<open>
  Where a thread is: before its creation; at the start of its handler; at the top of its loop; at
  the send call, or blocked in it; at the receive call, or blocked in it; about to log what it
  received; ended. \<open>Stale\<close>: it prints through a \<open>FILE\<close> it has closed, which C leaves undefined, so
  the model does not follow it further.
\<close>

datatype pc = NotStarted | Start | Top | Sending | SendWaiting | Receiving | Waiting | Logging
  | Ended | Stale

text \<open>The local variables of a handler: \<open>i\<close>, the table and the receive buffer.\<close>

record 'b thread =
  pc :: pc
  idx :: nat
  tbl :: "packet list"
  rbuf :: 'b

definition new_thread :: "'b \<Rightarrow> 'b thread" where
  "new_thread b = \<lparr>pc = NotStarted, idx = 0, tbl = [], rbuf = b\<rparr>"

text \<open>A system call fails (it returns -1), blocks, or returns.\<close>

datatype 'a call = Fails | Blocks | Returns 'a

text \<open>Where \<open>main\<close> is: at its start, at the two creations, at the two joins, after them, ended.
  \<open>MLost\<close>: it has joined a thread that was never created, through a handle that nothing was stored
  in, which C leaves undefined, so the model does not follow it further.\<close>

datatype main_pc = MStart | MCreate1 | MCreate2 | MJoin1 | MJoin2 | MClose | MDone | MLost

text \<open>The number of steps a thread has left at most, from the number of iterations left and the
  place in the loop; thread 1 counts an iteration when it sends, thread 2 too, but its send is the
  last action of an iteration.\<close>

primrec rank1 :: "pc \<Rightarrow> nat" where
  "rank1 NotStarted = 9" | "rank1 Start = 8" | "rank1 Receiving = 7" | "rank1 Waiting = 6"
| "rank1 Logging = 5" | "rank1 Top = 4" | "rank1 Sending = 3" | "rank1 SendWaiting = 2"
| "rank1 Ended = 0" | "rank1 Stale = 0"

primrec rank2 :: "pc \<Rightarrow> nat" where
  "rank2 NotStarted = 9" | "rank2 Start = 8" | "rank2 Top = 7" | "rank2 Receiving = 6"
| "rank2 Waiting = 5" | "rank2 Logging = 4" | "rank2 Sending = 3" | "rank2 SendWaiting = 2"
| "rank2 Ended = 0" | "rank2 Stale = 0"

primrec main_rank :: "main_pc \<Rightarrow> nat" where
  "main_rank MStart = 6" | "main_rank MCreate1 = 5" | "main_rank MCreate2 = 4"
| "main_rank MJoin1 = 3" | "main_rank MJoin2 = 2" | "main_rank MClose = 1" | "main_rank MDone = 0"
| "main_rank MLost = 0"

definition left1 :: "'b thread \<Rightarrow> nat" where
  "left1 th = 8 * (10 - idx th) + rank1 (pc th)"

definition left2 :: "'b thread \<Rightarrow> nat" where
  "left2 th = 8 * (10 - idx th) + rank2 (pc th)"

text \<open>Which threads exist, when both could be created.\<close>

primrec started :: "main_pc \<Rightarrow> pc \<Rightarrow> pc \<Rightarrow> bool" where
  "started MStart p q = (p = NotStarted \<and> q = NotStarted)"
| "started MCreate1 p q = (p = NotStarted \<and> q = NotStarted)"
| "started MCreate2 p q = (p \<noteq> NotStarted \<and> q = NotStarted)"
| "started MJoin1 p q = (p \<noteq> NotStarted \<and> q \<noteq> NotStarted)"
| "started MJoin2 p q = (p \<noteq> NotStarted \<and> q \<noteq> NotStarted \<and> p = Ended)"
| "started MClose p q = (p = Ended \<and> q = Ended)"
| "started MDone p q = (p = Ended \<and> q = Ended)"
| "started MLost p q = False"

lemma started_pc1: "started m p q \<Longrightarrow> p \<noteq> NotStarted \<Longrightarrow> p \<noteq> Ended \<Longrightarrow> p' \<noteq> NotStarted \<Longrightarrow> started m p' q"
  by (cases m) auto

lemma started_pc2: "started m p q \<Longrightarrow> q \<noteq> NotStarted \<Longrightarrow> q \<noteq> Ended \<Longrightarrow> q' \<noteq> NotStarted \<Longrightarrow> started m p q'"
  by (cases m) auto

section \<open>Schedules\<close>

text \<open>A schedule says which thread moves, or which thread a SIGINT is delivered to.\<close>

datatype act = Run who | Interrupt who

primrec is_run :: "act \<Rightarrow> bool" where
  "is_run (Run w) = True"
| "is_run (Interrupt w) = False"

end
