(* ===== verification/Handshake.thy ===== *)
theory Handshake
  imports Ipc
begin

text \<open>
  The contract of the message queue and the socket program: two parties in strict alternation.
  Party 1 sends the next message of its list \<open>A\<close> and waits; party 2 takes it, logs it, answers with
  the next message of \<open>B\<close>; party 1 takes the answer, logs it and starts the next round.

  The abstract machine is \<open>hs_step\<close>. Its only run goes through the \<open>stage\<close>s of \<open>round_state\<close>, so
  what is logged is always a prefix of \<open>dialogue A B\<close>. The locale \<open>handshake_impl\<close> is the interface
  of a program that implements the machine: an abstraction function under which every step is a
  step of the machine or stutters. It gives the program the prefix property, completeness of its
  final states and a bound on the length of its runs.
\<close>

section \<open>The abstract machine\<close>

datatype 'm phase = Ready | Await | Holding 'm

record 'm hs =
  ph1 :: "'m phase"
  n1 :: nat
  ph2 :: "'m phase"
  n2 :: nat
  chan1 :: "'m list"
  chan2 :: "'m list"
  out :: "(who \<times> 'm) list"

definition hs_init :: "'m hs" where
  "hs_init = \<lparr>ph1 = Ready, n1 = 0, ph2 = Await, n2 = 0, chan1 = [], chan2 = [], out = []\<rparr>"

inductive hs_step :: "'m list \<Rightarrow> 'm list \<Rightarrow> 'm hs \<Rightarrow> 'm hs \<Rightarrow> bool" for A B where
  send1: "ph1 s = Ready \<Longrightarrow> n1 s < length A \<Longrightarrow>
    hs_step A B s (s\<lparr>ph1 := Await, n1 := Suc (n1 s), chan1 := chan1 s @ [A ! n1 s]\<rparr>)"
| recv1: "ph1 s = Await \<Longrightarrow> chan2 s = m # ms \<Longrightarrow> hs_step A B s (s\<lparr>ph1 := Holding m, chan2 := ms\<rparr>)"
| note1: "ph1 s = Holding m \<Longrightarrow> hs_step A B s (s\<lparr>ph1 := Ready, out := out s @ [(Thread1, m)]\<rparr>)"
| recv2: "ph2 s = Await \<Longrightarrow> n2 s < length B \<Longrightarrow> chan1 s = m # ms \<Longrightarrow>
    hs_step A B s (s\<lparr>ph2 := Holding m, chan1 := ms\<rparr>)"
| note2: "ph2 s = Holding m \<Longrightarrow> hs_step A B s (s\<lparr>ph2 := Ready, out := out s @ [(Thread2, m)]\<rparr>)"
| send2: "ph2 s = Ready \<Longrightarrow> n2 s < length B \<Longrightarrow>
    hs_step A B s (s\<lparr>ph2 := Await, n2 := Suc (n2 s), chan2 := chan2 s @ [B ! n2 s]\<rparr>)"

inductive_cases hs_stepE: "hs_step A B s t"

text \<open>The rules with the new state as an equation, to be applied to the states of a program.\<close>

lemma hs_send1I: "ph1 s = Ready \<Longrightarrow> n1 s < length A \<Longrightarrow>
    t = s\<lparr>ph1 := Await, n1 := Suc (n1 s), chan1 := chan1 s @ [A ! n1 s]\<rparr> \<Longrightarrow> hs_step A B s t"
  by (simp add: hs_step.send1)

lemma hs_recv1I: "ph1 s = Await \<Longrightarrow> chan2 s = m # ms \<Longrightarrow>
    t = s\<lparr>ph1 := Holding m, chan2 := ms\<rparr> \<Longrightarrow> hs_step A B s t"
  by (simp add: hs_step.recv1)

lemma hs_note1I: "ph1 s = Holding m \<Longrightarrow>
    t = s\<lparr>ph1 := Ready, out := out s @ [(Thread1, m)]\<rparr> \<Longrightarrow> hs_step A B s t"
  by (simp add: hs_step.note1)

lemma hs_recv2I: "ph2 s = Await \<Longrightarrow> n2 s < length B \<Longrightarrow> chan1 s = m # ms \<Longrightarrow>
    t = s\<lparr>ph2 := Holding m, chan1 := ms\<rparr> \<Longrightarrow> hs_step A B s t"
  by (simp add: hs_step.recv2)

lemma hs_note2I: "ph2 s = Holding m \<Longrightarrow>
    t = s\<lparr>ph2 := Ready, out := out s @ [(Thread2, m)]\<rparr> \<Longrightarrow> hs_step A B s t"
  by (simp add: hs_step.note2)

lemma hs_send2I: "ph2 s = Ready \<Longrightarrow> n2 s < length B \<Longrightarrow>
    t = s\<lparr>ph2 := Await, n2 := Suc (n2 s), chan2 := chan2 s @ [B ! n2 s]\<rparr> \<Longrightarrow> hs_step A B s t"
  by (simp add: hs_step.send2)

lemmas hs_stepI = hs_send1I hs_recv1I hs_note1I hs_recv2I hs_note2I hs_send2I

text \<open>The phase of a thread by its place in its loop; \<open>f\<close> reads the packet in its buffer.\<close>

primrec phase1_at :: "pc \<Rightarrow> 'm \<Rightarrow> 'm phase" where
  "phase1_at NotStarted m = Ready" | "phase1_at Start m = Ready" | "phase1_at Top m = Ready"
| "phase1_at Sending m = Ready" | "phase1_at SendWaiting m = Ready"
| "phase1_at Receiving m = Await" | "phase1_at Waiting m = Await"
| "phase1_at Logging m = Holding m"
| "phase1_at Ended m = Ready" | "phase1_at Stale m = Ready"

primrec phase2_at :: "pc \<Rightarrow> 'm \<Rightarrow> 'm phase" where
  "phase2_at NotStarted m = Await" | "phase2_at Start m = Await" | "phase2_at Top m = Await"
| "phase2_at Receiving m = Await" | "phase2_at Waiting m = Await"
| "phase2_at Logging m = Holding m"
| "phase2_at Sending m = Ready" | "phase2_at SendWaiting m = Ready"
| "phase2_at Ended m = Await" | "phase2_at Stale m = Await"

definition phase1 :: "('b \<Rightarrow> 'm) \<Rightarrow> 'b thread \<Rightarrow> 'm phase" where
  "phase1 f th = phase1_at (pc th) (f (rbuf th))"

definition phase2 :: "('b \<Rightarrow> 'm) \<Rightarrow> 'b thread \<Rightarrow> 'm phase" where
  "phase2 f th = phase2_at (pc th) (f (rbuf th))"

section \<open>Its run\<close>

text \<open>What the two parties log, in order.\<close>

fun dialogue :: "'m list \<Rightarrow> 'm list \<Rightarrow> (who \<times> 'm) list" where
  "dialogue (a # as) (b # bs) = (Thread2, a) # (Thread1, b) # dialogue as bs"
| "dialogue _ _ = []"

lemma length_dialogue [simp]: "length as = length bs \<Longrightarrow> length (dialogue as bs) = 2 * length bs"
  by (induction as bs rule: dialogue.induct) auto

lemma dialogue_nth:
  "length as = length bs \<Longrightarrow> k < length bs \<Longrightarrow>
     dialogue as bs ! (2 * k) = (Thread2, as ! k) \<and> dialogue as bs ! Suc (2 * k) = (Thread1, bs ! k)"
proof (induction as bs arbitrary: k rule: dialogue.induct)
  case (1 a as b bs)
  then show ?case by (cases k) auto
qed auto

lemma take_dialogue:
  assumes "length as = length bs" "k < length bs"
  shows "take (Suc (2 * k)) (dialogue as bs) = take (2 * k) (dialogue as bs) @ [(Thread2, as ! k)]"
    and "take (Suc (Suc (2 * k))) (dialogue as bs)
      = take (Suc (2 * k)) (dialogue as bs) @ [(Thread1, bs ! k)]"
  using assms dialogue_nth [OF assms] by (simp_all add: take_Suc_conv_app_nth)

datatype stage = Idle | Sent | Taken | Noted | Answered | Returned

primrec round_state :: "'m list \<Rightarrow> 'm list \<Rightarrow> nat \<Rightarrow> stage \<Rightarrow> 'm hs" where
  "round_state A B k Idle = \<lparr>ph1 = Ready, n1 = k, ph2 = Await, n2 = k, chan1 = [], chan2 = [],
     out = take (2 * k) (dialogue A B)\<rparr>"
| "round_state A B k Sent = \<lparr>ph1 = Await, n1 = Suc k, ph2 = Await, n2 = k, chan1 = [A ! k], chan2 = [],
     out = take (2 * k) (dialogue A B)\<rparr>"
| "round_state A B k Taken = \<lparr>ph1 = Await, n1 = Suc k, ph2 = Holding (A ! k), n2 = k, chan1 = [],
     chan2 = [], out = take (2 * k) (dialogue A B)\<rparr>"
| "round_state A B k Noted = \<lparr>ph1 = Await, n1 = Suc k, ph2 = Ready, n2 = k, chan1 = [], chan2 = [],
     out = take (Suc (2 * k)) (dialogue A B)\<rparr>"
| "round_state A B k Answered = \<lparr>ph1 = Await, n1 = Suc k, ph2 = Await, n2 = Suc k, chan1 = [],
     chan2 = [B ! k], out = take (Suc (2 * k)) (dialogue A B)\<rparr>"
| "round_state A B k Returned = \<lparr>ph1 = Holding (B ! k), n1 = Suc k, ph2 = Await, n2 = Suc k, chan1 = [],
     chan2 = [], out = take (Suc (2 * k)) (dialogue A B)\<rparr>"

primrec next_round :: "nat \<Rightarrow> stage \<Rightarrow> nat \<times> stage" where
  "next_round k Idle = (k, Sent)" | "next_round k Sent = (k, Taken)"
| "next_round k Taken = (k, Noted)" | "next_round k Noted = (k, Answered)"
| "next_round k Answered = (k, Returned)" | "next_round k Returned = (Suc k, Idle)"

definition hs_inv :: "'m list \<Rightarrow> 'm list \<Rightarrow> 'm hs \<Rightarrow> bool" where
  "hs_inv A B s \<longleftrightarrow> length A = length B \<and>
     ((\<exists>k g. k < length A \<and> s = round_state A B k g) \<or> s = round_state A B (length A) Idle)"

lemma hs_inv_init: "length A = length B \<Longrightarrow> hs_inv A B hs_init"
proof -
  assume "length A = length B"
  moreover have "round_state A B 0 Idle = hs_init" by (simp add: hs_init_def)
  ultimately show ?thesis unfolding hs_inv_def by (cases "length A") (auto simp del: round_state.simps, metis zero_less_Suc)
qed

lemma hs_step_round:
  assumes "length A = length B" "k < length A" "hs_step A B (round_state A B k g) t"
  shows "t = (\<lambda>(k', g'). round_state A B k' g') (next_round k g)"
  using assms by (cases g) (auto elim!: hs_stepE simp: take_dialogue)

lemma hs_step_end: "\<not> hs_step A B (round_state A B (length A) Idle) t" if "length A = length B"
  using that by (auto elim: hs_stepE)

lemma hs_inv_step: "hs_inv A B s \<Longrightarrow> hs_step A B s t \<Longrightarrow> hs_inv A B t"
proof -
  assume inv: "hs_inv A B s" and st: "hs_step A B s t"
  then have len: "length A = length B" by (simp add: hs_inv_def)
  with inv st hs_step_end [OF len] obtain k g where k: "k < length A" and s: "s = round_state A B k g"
    unfolding hs_inv_def by blast
  have t: "t = (\<lambda>(k', g'). round_state A B k' g') (next_round k g)"
    using hs_step_round [OF len k] st s by blast
  show ?thesis
  proof (cases "g = Returned")
    case True
    then have "t = round_state A B (Suc k) Idle" using t by simp
    then show ?thesis using len k unfolding hs_inv_def by (metis Suc_lessI)
  next
    case False
    then obtain g' where "next_round k g = (k, g')" by (cases g) auto
    then have "t = round_state A B k g'" using t by simp
    then show ?thesis using len k unfolding hs_inv_def by blast
  qed
qed

lemma hs_inv_bounds:
  assumes "hs_inv A B s"
  shows "n1 s \<le> length A \<and> n2 s \<le> length B \<and> length (chan1 s) \<le> 1 \<and> length (chan2 s) \<le> 1"
proof -
  from assms obtain k g where s: "s = round_state A B k g" and k: "k < length A \<or> k = length A \<and> g = Idle"
    and len: "length A = length B" unfolding hs_inv_def by blast
  show ?thesis using k len unfolding s by (cases g) auto
qed

lemma hs_step_exists:
  "length A = length B \<Longrightarrow> k < length A \<Longrightarrow> \<exists>t. hs_step A B (round_state A B k g) t"
  by (cases g) (auto intro!: exI intro: hs_step.intros)

section \<open>What holds of a thread at each place\<close>

primrec ok1_at :: "pc \<Rightarrow> packet list \<Rightarrow> 'b thread \<Rightarrow> bool" where
  "ok1_at NotStarted A th = True"
| "ok1_at Start A th = True"
| "ok1_at Top A th = (tbl th = A)"
| "ok1_at Sending A th = (tbl th = A \<and> idx th < 10)"
| "ok1_at SendWaiting A th = (tbl th = A \<and> idx th < 10)"
| "ok1_at Receiving A th = (tbl th = A)"
| "ok1_at Waiting A th = (tbl th = A)"
| "ok1_at Logging A th = (tbl th = A)"
| "ok1_at Ended A th = (idx th = 10)"
| "ok1_at Stale A th = False"

text \<open>How the second thread of a program ends after its ten rounds: \<open>Ended\<close> or \<open>Stale\<close>.\<close>

primrec ok2_at :: "pc \<Rightarrow> pc \<Rightarrow> packet list \<Rightarrow> 'b thread \<Rightarrow> bool" where
  "ok2_at NotStarted e B th = True"
| "ok2_at Start e B th = True"
| "ok2_at Top e B th = (tbl th = B)"
| "ok2_at Sending e B th = (tbl th = B \<and> idx th < 10)"
| "ok2_at SendWaiting e B th = (tbl th = B \<and> idx th < 10)"
| "ok2_at Receiving e B th = (tbl th = B \<and> idx th < 10)"
| "ok2_at Waiting e B th = (tbl th = B \<and> idx th < 10)"
| "ok2_at Logging e B th = (tbl th = B \<and> idx th < 10)"
| "ok2_at Ended e B th = (e = Ended \<and> idx th = 10)"
| "ok2_at Stale e B th = (e = Stale \<and> idx th = 10)"

definition ok1 :: "packet list \<Rightarrow> 'b thread \<Rightarrow> bool" where
  "ok1 A th = ok1_at (pc th) A th"

definition ok2 :: "pc \<Rightarrow> packet list \<Rightarrow> 'b thread \<Rightarrow> bool" where
  "ok2 e B th = ok2_at (pc th) e B th"

section \<open>Programs that implement it\<close>

locale handshake_impl =
  fixes step :: "'s \<Rightarrow> 's \<Rightarrow> bool"
    and start :: 's
    and abs_state :: "'s \<Rightarrow> 'm hs"
    and good :: "'s \<Rightarrow> bool"
    and work :: "'s \<Rightarrow> nat"
    and A B :: "'m list"
  assumes lengths: "length A = length B"
    and good_start: "good start" and abs_start: "abs_state start = hs_init"
    and sim: "good s \<Longrightarrow> hs_inv A B (abs_state s) \<Longrightarrow> step s t \<Longrightarrow>
      good t \<and> (abs_state t = abs_state s \<or> hs_step A B (abs_state s) (abs_state t))"
    and work: "good s \<Longrightarrow> hs_inv A B (abs_state s) \<Longrightarrow> step s t \<Longrightarrow> work t < work s"
    and live: "good s \<Longrightarrow> hs_inv A B (abs_state s) \<Longrightarrow> hs_step A B (abs_state s) u \<Longrightarrow> \<exists>t. step s t"
begin

lemma reach: "step\<^sup>*\<^sup>* start s \<Longrightarrow> good s \<and> hs_inv A B (abs_state s)"
proof (induction rule: rtranclp_induct)
  case base
  show ?case using good_start abs_start hs_inv_init [OF lengths] by simp
next
  case (step s t)
  then show ?case using sim [of s t] hs_inv_step by metis
qed

lemma prefix: "step\<^sup>*\<^sup>* start s \<Longrightarrow> out (abs_state s) = take (length (out (abs_state s))) (dialogue A B)"
proof -
  assume "step\<^sup>*\<^sup>* start s"
  then have inv: "hs_inv A B (abs_state s)" using reach by blast
  have "out (round_state A B k g) = take (length (out (round_state A B k g))) (dialogue A B)" for k g
    by (cases g) (auto simp: min_def)
  with inv show ?thesis unfolding hs_inv_def by metis
qed

lemma channels: "step\<^sup>*\<^sup>* start s \<Longrightarrow> length (chan1 (abs_state s)) + length (chan2 (abs_state s)) \<le> 1"
proof -
  assume "step\<^sup>*\<^sup>* start s"
  then have inv: "hs_inv A B (abs_state s)" using reach by blast
  have "length (chan1 (round_state A B k g)) + length (chan2 (round_state A B k g)) \<le> 1" for k g
    by (cases g) auto
  with inv show ?thesis unfolding hs_inv_def by metis
qed

lemma complete:
  assumes "step\<^sup>*\<^sup>* start s" "\<And>t. \<not> step s t"
  shows "abs_state s = round_state A B (length A) Idle"
proof (rule ccontr)
  have inv: "good s" "hs_inv A B (abs_state s)" using reach [OF assms(1)] by auto
  assume "abs_state s \<noteq> round_state A B (length A) Idle"
  with inv(2) obtain k g where "k < length A" "abs_state s = round_state A B k g"
    unfolding hs_inv_def by blast
  with hs_step_exists [OF lengths] obtain u where "hs_step A B (abs_state s) u" by metis
  with live [OF inv] assms(2) show False by blast
qed

lemma reaches_end: "\<exists>s. step\<^sup>*\<^sup>* start s \<and> (\<forall>t. \<not> step s t)"
proof -
  obtain s where s: "step\<^sup>*\<^sup>* start s" and least: "\<And>t. step\<^sup>*\<^sup>* start t \<Longrightarrow> work s \<le> work t"
    using ex_has_least_nat [of "step\<^sup>*\<^sup>* start" start work] by blast
  have "\<not> step s t" for t
  proof
    assume st: "step s t"
    then have "work t < work s" using reach [OF s] work by blast
    moreover have "work s \<le> work t" using least [of t] s st by (simp add: rtranclp.rtrancl_into_rtrancl)
    ultimately show False by simp
  qed
  with s show ?thesis by blast
qed

lemma bounded: "(step ^^ n) start s \<Longrightarrow> n + work s \<le> work start"
proof (induction n arbitrary: s)
  case (Suc n)
  then obtain t where t: "(step ^^ n) start t" "step t s" by auto
  then have "step\<^sup>*\<^sup>* start t" by (simp add: relpowp_imp_rtranclp)
  with reach work t(2) have "work s < work t" by blast
  with Suc.IH [OF t(1)] show ?case by simp
qed simp

end

end
