(* ===== verification/Creation.thy ===== *)
theory Creation
  imports Ipc
begin

text \<open>
  How the thread programs of \<^verbatim>\<open>HW4_APES\<close> create and join their two threads. A creation that fails is
  reported and the program goes on: the thread never starts, and \<open>main\<close> comes to join it through a
  handle that nothing was stored in. What \<^verbatim>\<open>pthread_join\<close> does with such a handle is not defined, so it is a
  parameter: it returns some status, which \<open>main\<close> tests and reports as any other, or the program goes where C
  no longer says anything (\<open>MLost\<close>).

  \<open>main_moves\<close> is what all programs have in common, the locale \<open>main_joins\<close> the interface: how a
  step of the program moves \<open>main\<close>, which the programs interpret with their step relations.
\<close>

definition crlf :: string where
  "crlf = [CHR 0x0A, CHR 0x0D]"

text \<open>What a \<^verbatim>\<open>pthread_create\<close> call will do, and, when it fails, what \<^verbatim>\<open>pthread_join\<close> will return for its handle.\<close>

datatype birth = Made | Refused "int option"

text \<open>Where the next statement of \<open>main\<close> leads to.\<close>

definition after_join :: "birth \<Rightarrow> main_pc \<Rightarrow> main_pc" where
  "after_join b m = (if b = Refused None then MLost else m)"

primrec main_moves :: "birth \<times> birth \<Rightarrow> main_pc \<Rightarrow> main_pc set" where
  "main_moves c MStart = {MCreate1}"
| "main_moves c MCreate1 = {MCreate2}"
| "main_moves c MCreate2 = {MJoin1}"
| "main_moves c MJoin1 = {after_join (fst c) MJoin2}"
| "main_moves c MJoin2 = {after_join (snd c) MClose}"
| "main_moves c MClose = {MDone}"
| "main_moves c MDone = {}"
| "main_moves c MLost = {}"

text \<open>How far \<open>main\<close> is; \<open>MLost\<close> lies behind both creations.\<close>

primrec stage :: "main_pc \<Rightarrow> nat" where
  "stage MStart = 0" | "stage MCreate1 = 1" | "stage MCreate2 = 2" | "stage MJoin1 = 3" | "stage MLost = 3"
| "stage MJoin2 = 4" | "stage MClose = 5" | "stage MDone = 6"

text \<open>Whether the call at a place fails: a creation that is refused, a join that returns something else than 0.\<close>

definition bad_join :: "birth \<Rightarrow> bool" where
  "bad_join b = (case b of Made \<Rightarrow> False | Refused r \<Rightarrow> (case r of None \<Rightarrow> False | Some status \<Rightarrow> status \<noteq> 0))"

primrec fails_at :: "birth \<times> birth \<Rightarrow> main_pc \<Rightarrow> bool" where
  "fails_at c MStart = False"
| "fails_at c MCreate1 = (fst c \<noteq> Made)"
| "fails_at c MCreate2 = (snd c \<noteq> Made)"
| "fails_at c MJoin1 = bad_join (fst c)"
| "fails_at c MJoin2 = bad_join (snd c)"
| "fails_at c MClose = False"
| "fails_at c MDone = False"
| "fails_at c MLost = False"

text \<open>The reports of the four programs of \<^verbatim>\<open>PROBLEM2\<close>.\<close>

primrec complaint :: "main_pc \<Rightarrow> string" where
  "complaint MStart = []"
| "complaint MCreate1 = crlf @ ''Thread 1 creation failed: ''"
| "complaint MCreate2 = crlf @ ''Thread 2 creation failed: ''"
| "complaint MJoin1 = crlf @ ''Thread 1 join unsuccessfull''"
| "complaint MJoin2 = crlf @ ''Thread 2 join unsuccessfull''"
| "complaint MClose = []"
| "complaint MDone = []"
| "complaint MLost = []"

text \<open>What \<open>main\<close> owes its threads, at the place \<open>m\<close>: a thread that was not created has not run; \<open>main\<close> is behind the
  join of a thread only when the thread has ended or was never created; every call behind it that failed has
  been reported; it has logged its end only at its end; and it is lost only by an undefined join.\<close>

definition accounted ::
  "birth \<times> birth \<Rightarrow> main_pc \<Rightarrow> bool \<times> bool \<Rightarrow> bool \<times> bool \<Rightarrow> bool \<Rightarrow> (main_pc \<Rightarrow> bool) \<Rightarrow> bool" where
  "accounted c m new ended over told \<longleftrightarrow>
     (fst c \<noteq> Made \<longrightarrow> fst new) \<and> (snd c \<noteq> Made \<longrightarrow> snd new)
     \<and> (stage MJoin1 < stage m \<longrightarrow> (if fst c = Made then fst ended else fst c \<noteq> Refused None))
     \<and> (stage MJoin2 < stage m \<longrightarrow> (if snd c = Made then snd ended else snd c \<noteq> Refused None))
     \<and> (\<forall>p. stage p < stage m \<and> fails_at c p \<longrightarrow> told p)
     \<and> (over \<longrightarrow> m = MDone)
     \<and> (m = MLost \<longrightarrow> fst c = Refused None \<or> snd c = Refused None)"

text \<open>Before its creation a thread has not started.\<close>

primrec not_yet :: "main_pc \<Rightarrow> pc \<Rightarrow> pc \<Rightarrow> bool" where
  "not_yet MStart p q = (p = NotStarted \<and> q = NotStarted)"
| "not_yet MCreate1 p q = (p = NotStarted \<and> q = NotStarted)"
| "not_yet MCreate2 p q = (q = NotStarted)"
| "not_yet MJoin1 p q = True"
| "not_yet MJoin2 p q = True"
| "not_yet MClose p q = True"
| "not_yet MDone p q = True"
| "not_yet MLost p q = True"

lemma not_yet_pc1: "not_yet m p q \<Longrightarrow> p \<noteq> NotStarted \<Longrightarrow> not_yet m p' q"
  by (cases m) auto

lemma not_yet_pc2: "not_yet m p q \<Longrightarrow> q \<noteq> NotStarted \<Longrightarrow> not_yet m p q'"
  by (cases m) auto

lemma stage_back:
  "m' \<in> main_moves c m \<Longrightarrow> stage p < stage m' \<Longrightarrow> fails_at c p \<Longrightarrow> p = m \<or> stage p < stage m"
  by (cases m; cases p) (auto simp: after_join_def bad_join_def split: if_splits)

lemma accounted_mono:
  assumes "accounted c m (n1, n2) (e1, e2) v q"
    and "fst c \<noteq> Made \<longrightarrow> n1 \<longrightarrow> n1'" "snd c \<noteq> Made \<longrightarrow> n2 \<longrightarrow> n2'" "stage MJoin1 < stage m \<longrightarrow> e1 \<longrightarrow> e1'" "stage MJoin2 < stage m \<longrightarrow> e2 \<longrightarrow> e2'"
    and "v' \<longrightarrow> v \<or> m = MDone" "\<And>p. q p \<Longrightarrow> q' p"
  shows "accounted c m (n1', n2') (e1', e2') v' q'"
proof -
  have "\<forall>p. stage p < stage m \<and> fails_at c p \<longrightarrow> q' p" using assms(1,7) by (simp add: accounted_def)
  moreover have "v' \<longrightarrow> m = MDone" using assms(1,6) by (auto simp: accounted_def)
  ultimately show ?thesis
    using assms(1-5) by (cases "fst c = Made"; cases "snd c = Made"; simp add: accounted_def)
qed

text \<open>\<open>new1\<close>, \<open>new2\<close>: the thread has not started; \<open>ended1\<close>, \<open>ended2\<close>: it has ended; \<open>over\<close>: \<open>main\<close> has
  logged its end; \<open>told p\<close>: the failure of the call at the place \<open>p\<close> has been reported. A step of the
  process is one of \<open>main\<close>, of a thread, or the handling of a signal.\<close>

locale main_joins =
  fixes step :: "'s \<Rightarrow> 's \<Rightarrow> bool"
    and main_step thread1_step thread2_step :: "'s \<Rightarrow> 's option"
    and handle :: "'w \<Rightarrow> 's \<Rightarrow> 's"
    and place :: "'s \<Rightarrow> main_pc"
    and created :: "'s \<Rightarrow> birth \<times> birth"
    and new1 new2 ended1 ended2 over :: "'s \<Rightarrow> bool"
    and told :: "main_pc \<Rightarrow> 's \<Rightarrow> bool"
  assumes step: "step s t \<Longrightarrow> main_step s = Some t \<or> thread1_step s = Some t \<or> thread2_step s = Some t
      \<or> (\<exists>w. t = handle w s)"
    and main: "main_step s = Some t \<Longrightarrow> created t = created s
      \<and> (place t = place s \<or> place t \<in> main_moves (created s) (place s))
      \<and> (fst (created s) = Made \<or> new1 t = new1 s) \<and> (snd (created s) = Made \<or> new2 t = new2 s)
      \<and> (stage MJoin1 < stage (place s) \<and> ended1 s \<longrightarrow> ended1 t) \<and> (stage MJoin2 < stage (place s) \<and> ended2 s \<longrightarrow> ended2 t)
      \<and> (over t \<longrightarrow> over s \<or> place t = MDone)
      \<and> (told p s \<longrightarrow> told p t)"
    and passed: "main_step s = Some t \<Longrightarrow> place t \<noteq> place s \<Longrightarrow>
      (place s = MJoin1 \<and> fst (created s) = Made \<longrightarrow> ended1 t)
      \<and> (place s = MJoin2 \<and> snd (created s) = Made \<longrightarrow> ended2 t)
      \<and> (fails_at (created s) (place s) \<longrightarrow> told (place s) t)"
    and thread1: "thread1_step s = Some t \<Longrightarrow> created t = created s \<and> place t = place s \<and> \<not> new1 s
      \<and> \<not> ended1 s \<and> new2 t = new2 s \<and> ended2 t = ended2 s \<and> over t = over s \<and> (told p s \<longrightarrow> told p t)"
    and thread2: "thread2_step s = Some t \<Longrightarrow> created t = created s \<and> place t = place s \<and> \<not> new2 s
      \<and> \<not> ended2 s \<and> new1 t = new1 s \<and> ended1 t = ended1 s \<and> over t = over s \<and> (told p s \<longrightarrow> told p t)"
    and handle: "created (handle w s) = created s \<and> place (handle w s) = place s
      \<and> (new1 s \<longrightarrow> new1 (handle w s)) \<and> (new2 s \<longrightarrow> new2 (handle w s))
      \<and> (ended1 s \<longrightarrow> ended1 (handle w s)) \<and> (ended2 s \<longrightarrow> ended2 (handle w s))
      \<and> over (handle w s) = over s \<and> (told p s \<longrightarrow> told p (handle w s))"
begin

definition sound :: "'s \<Rightarrow> bool" where
  "sound s \<longleftrightarrow> accounted (created s) (place s) (new1 s, new2 s) (ended1 s, ended2 s) (over s) (\<lambda>p. told p s)"

text \<open>A step that leaves \<open>main\<close> where it is.\<close>

lemma sound_frame:
  assumes "sound s" "created t = created s" "place t = place s" "over t \<longrightarrow> over s \<or> place s = MDone"
    and "fst (created s) \<noteq> Made \<longrightarrow> new1 s \<longrightarrow> new1 t" "snd (created s) \<noteq> Made \<longrightarrow> new2 s \<longrightarrow> new2 t"
    and "stage MJoin1 < stage (place s) \<longrightarrow> ended1 s \<longrightarrow> ended1 t"
    and "stage MJoin2 < stage (place s) \<longrightarrow> ended2 s \<longrightarrow> ended2 t" "\<forall>p. told p s \<longrightarrow> told p t"
  shows "sound t"
  using assms(1) unfolding sound_def assms(2,3) by (rule accounted_mono) (use assms(3-) in blast)+

lemma sound_moves:
  assumes "sound s" "main_step s = Some t" "place t \<in> main_moves (created s) (place s)" "place t \<noteq> place s"
  shows "sound t"
proof -
  note m = main [OF assms(2)] and p = passed [OF assms(2,4)]
  have "told p t" if "stage p < stage (place t)" "fails_at (created s) p" for p
    using stage_back [OF assms(3) that]
  proof
    assume "p = place s"
    with p that(2) show ?thesis by blast
  next
    assume "stage p < stage (place s)"
    with assms(1) that(2) have "told p s" by (simp add: sound_def accounted_def)
    with m [of p] show ?thesis by blast
  qed
  moreover have "stage MJoin1 < stage (place t) \<longrightarrow> (if fst (created s) = Made then ended1 t else fst (created s) \<noteq> Refused None)"
    "stage MJoin2 < stage (place t) \<longrightarrow> (if snd (created s) = Made then ended2 t else snd (created s) \<noteq> Refused None)"
    "over t \<longrightarrow> place t = MDone" "place t = MLost \<longrightarrow> fst (created s) = Refused None \<or> snd (created s) = Refused None"
    using m [of MStart] p assms(1,3)
    by (cases "place s"; simp add: sound_def accounted_def after_join_def split: if_splits)+
  moreover have "fst (created s) \<noteq> Made \<longrightarrow> new1 t" "snd (created s) \<noteq> Made \<longrightarrow> new2 t" "created t = created s"
    using m [of MStart] assms(1) by (auto simp: sound_def accounted_def)
  ultimately show ?thesis by (simp add: sound_def accounted_def)
qed

lemma sound_step:
  assumes "sound s" "step s t"
  shows "sound t"
  using step [OF assms(2)]
proof (elim disjE exE)
  assume m: "main_step s = Some t"
  show ?thesis
  proof (cases "place t = place s")
    case True
    then show ?thesis using main [OF m] by (intro sound_frame [OF assms(1)]) auto
  next
    case False
    then show ?thesis using main [OF m] sound_moves [OF assms(1) m] by blast
  qed
next
  assume "thread1_step s = Some t"
  from thread1 [OF this] show ?thesis
    using assms(1) by (intro sound_frame [OF assms(1)]) (auto simp: sound_def accounted_def)
next
  assume "thread2_step s = Some t"
  from thread2 [OF this] show ?thesis
    using assms(1) by (intro sound_frame [OF assms(1)]) (auto simp: sound_def accounted_def)
next
  fix w assume "t = handle w s"
  with handle [of w s] show ?thesis by (intro sound_frame [OF assms(1)]) auto
qed

lemma created_step: "step s t \<Longrightarrow> created t = created s"
  using step [of s t] main [of s t] thread1 [of s t] thread2 [of s t] handle [of _ s] by auto

text \<open>In every run \<open>main\<close> accounts for its threads.\<close>

lemma accounts:
  assumes "step\<^sup>*\<^sup>* s t" "place s = MStart" "new1 s" "new2 s" "\<not> over s"
  shows "accounted (created s) (place t) (new1 t, new2 t) (ended1 t, ended2 t) (over t) (\<lambda>p. told p t)"
proof -
  have "sound t \<and> created t = created s"
    using assms(1)
  proof (induction rule: rtranclp_induct)
    case base
    show ?case using assms(2-5) by (simp add: sound_def accounted_def)
  next
    case (step t u)
    then show ?case using sound_step [of t u] created_step [of t u] by simp
  qed
  then show ?thesis by (metis sound_def)
qed

text \<open>When both creations succeed, \<open>main\<close> is never lost.\<close>

lemma never_lost:
  assumes "step\<^sup>*\<^sup>* s t" "place s = MStart" "new1 s" "new2 s" "\<not> over s" "created s = (Made, Made)"
  shows "place t \<noteq> MLost"
  using accounts [OF assms(1-5)] assms(6) by (auto simp: accounted_def)

end

end
