(* ===== verification/Queues.thy ===== *)
theory Queues
  imports Handshake Creation
begin

text \<open>
  \<^verbatim>\<open>HW4_APES/PROBLEM2/ipc_queues_thread/queues.c\<close>: two threads that exchange ten packets each
  way over two POSIX message queues.

  A message queue is the list of its messages, oldest first (all have priority 0, so
  \<open>mq_receive\<close> returns the oldest), at most \<open>mq_maxmsg\<close> of them. The descriptors \<open>mqdes1\<close>,
  \<open>mqdes2\<close> are global: once one thread closes one, calls of the other on it fail, but a call that
  was already blocked stays blocked. SIGINT can arrive at any moment, in any thread (\<open>interrupt\<close>);
  since the handler is installed without SA_RESTART, a blocked call then fails.
\<close>

section \<open>State\<close>

record queues =
  flag :: bool
  th1 :: "packet thread"
  th2 :: "packet thread"
  mq1 :: "packet list"
  mq2 :: "packet list"
  des1 :: bool
  des2 :: bool
  name1 :: bool
  name2 :: bool
  can_open :: "bool \<times> bool"
  created :: "birth \<times> birth"
  log :: "entry list"
  console :: "string list"
  err :: "string list"
  mpc :: main_pc

text \<open>\<open>des1\<close>: \<open>mqdes1\<close> is an open descriptor; \<open>name1\<close>: the name \<open>/msgqueue1\<close> is linked;
  \<open>can_open\<close>: what the two \<open>mq_open\<close> calls will do; \<open>created\<close>: the two \<open>pthread_create\<close> calls. Messages
  that an earlier run left in a queue of that name are in \<open>mq1\<close>, \<open>mq2\<close> from the start. \<open>console\<close> and
  \<open>err\<close>: what goes to the standard output and to the standard error.\<close>

definition queues_init ::
  "packet list \<Rightarrow> packet list \<Rightarrow> bool \<times> bool \<Rightarrow> birth \<times> birth \<Rightarrow> queues" where
  "queues_init q1 q2 ok c = \<lparr>flag = False, th1 = new_thread blank, th2 = new_thread blank,
     mq1 = q1, mq2 = q2, des1 = False, des2 = False, name1 = False, name2 = False, can_open = ok,
     created = c, log = [], console = [], err = [], mpc = MStart\<rparr>"

definition log_line :: "entry \<Rightarrow> queues \<Rightarrow> queues" where
  "log_line e s = s\<lparr>log := log s @ [e]\<rparr>"

definition perror :: "string \<Rightarrow> queues \<Rightarrow> queues" where
  "perror m s = s\<lparr>err := err s @ [m]\<rparr>"

definition printf :: "string \<Rightarrow> queues \<Rightarrow> queues" where
  "printf m s = s\<lparr>console := console s @ [m]\<rparr>"

definition max_msg :: nat where
  "max_msg = 10"

definition mq_send :: "bool \<Rightarrow> packet list \<Rightarrow> packet \<Rightarrow> packet list call" where
  "mq_send des q m = (if \<not> des then Fails else if max_msg \<le> length q then Blocks else Returns (q @ [m]))"

definition mq_receive :: "bool \<Rightarrow> packet list \<Rightarrow> (packet \<times> packet list) call" where
  "mq_receive des q =
     (if \<not> des then Fails else case q of [] \<Rightarrow> Blocks | m # ms \<Rightarrow> Returns (m, ms))"

section \<open>The first thread\<close>

text \<open>After the send, whatever its result, \<open>i\<close> is incremented and the thread turns to its receive.\<close>

definition sent1 :: "queues \<Rightarrow> queues" where
  "sent1 s = s\<lparr>th1 := (th1 s)\<lparr>idx := idx (th1 s) + 1, pc := Receiving\<rparr>\<rparr>"

definition received1 :: "queues \<Rightarrow> packet \<times> packet list \<Rightarrow> queues" where
  "received1 s = (\<lambda>(m, q). s\<lparr>mq2 := q, th1 := (th1 s)\<lparr>rbuf := m, pc := Logging\<rparr>\<rparr>)"

definition goto1 :: "pc \<Rightarrow> queues \<Rightarrow> queues" where
  "goto1 p s = s\<lparr>th1 := (th1 s)\<lparr>pc := p\<rparr>\<rparr>"

primrec thread1_at :: "pc \<Rightarrow> queues \<Rightarrow> queues option" where
  "thread1_at NotStarted s = None"
| "thread1_at Start s = do {
     t \<leftarrow> fill_table (indexed messages1) (indexed led_list) [0..<10];
     Some (log_line (Entering Thread1) (s\<lparr>th1 := (th1 s)\<lparr>tbl := t, pc := Top\<rparr>\<rparr>))
   }"
| "thread1_at Top s = Some
     (if flag s then (log_line (Killed Thread1) (goto1 Ended s))\<lparr>des1 := False, name1 := False\<rparr>
      else if idx (th1 s) = 10 then log_line (Exiting Thread1) (goto1 Ended s)
      else goto1 Sending s)"
| "thread1_at Sending s = do {
     m \<leftarrow> nth_opt (tbl (th1 s)) (idx (th1 s));
     let s = printf (crlf @ ''t1.message'') s;
     Some (case mq_send (des1 s) (mq1 s) m of
       Fails \<Rightarrow> sent1 (perror ''Send unsuccessfull 1'' s)
     | Blocks \<Rightarrow> goto1 SendWaiting s
     | Returns q \<Rightarrow> sent1 (s\<lparr>mq1 := q\<rparr>))
   }"
| "thread1_at SendWaiting s = do {
     m \<leftarrow> nth_opt (tbl (th1 s)) (idx (th1 s));
     case mq_send True (mq1 s) m of
       Returns q \<Rightarrow> Some (sent1 (s\<lparr>mq1 := q\<rparr>))
     | _ \<Rightarrow> None
   }"
| "thread1_at Receiving s = (let s = printf (crlf @ ''t1.read_message'') s in
     Some (case mq_receive (des2 s) (mq2 s) of
       Fails \<Rightarrow> goto1 Logging (perror ''Receive unsuccessfull 1'' s)
     | Blocks \<Rightarrow> goto1 Waiting s
     | Returns mq \<Rightarrow> received1 s mq))"
| "thread1_at Waiting s = (case mq_receive True (mq2 s) of
     Returns mq \<Rightarrow> Some (received1 s mq)
   | _ \<Rightarrow> None)"
| "thread1_at Logging s = Some (log_line (Got Thread1 (rbuf (th1 s))) (goto1 Top s))"
| "thread1_at Ended s = None"
| "thread1_at Stale s = None"

definition thread1_step :: "queues \<Rightarrow> queues option" where
  "thread1_step s = thread1_at (pc (th1 s)) s"

section \<open>The second thread\<close>

definition goto2 :: "pc \<Rightarrow> queues \<Rightarrow> queues" where
  "goto2 p s = s\<lparr>th2 := (th2 s)\<lparr>pc := p\<rparr>\<rparr>"

definition sent2 :: "queues \<Rightarrow> queues" where
  "sent2 s = s\<lparr>th2 := (th2 s)\<lparr>idx := idx (th2 s) + 1, pc := Top\<rparr>\<rparr>"

definition received2 :: "queues \<Rightarrow> packet \<times> packet list \<Rightarrow> queues" where
  "received2 s = (\<lambda>(m, q). s\<lparr>mq1 := q, th2 := (th2 s)\<lparr>rbuf := m, pc := Logging\<rparr>\<rparr>)"

text \<open>After ten rounds the thread opens the log, drops the stream it gets and prints its last line
  through \<open>fptr\<close>, which it closed after logging its last packet: \<open>Stale\<close>.\<close>

primrec thread2_at :: "pc \<Rightarrow> queues \<Rightarrow> queues option" where
  "thread2_at NotStarted s = None"
| "thread2_at Start s = do {
     t \<leftarrow> fill_table (indexed messages2) (indexed led_list) [0..<10];
     Some (log_line (Entering Thread2) (s\<lparr>th2 := (th2 s)\<lparr>tbl := t, pc := Top\<rparr>\<rparr>))
   }"
| "thread2_at Top s = Some
     (if flag s then (log_line (Killed Thread2) (goto2 Ended s))\<lparr>des2 := False, name2 := False\<rparr>
      else if idx (th2 s) = 10 then goto2 Stale s
      else goto2 Receiving s)"
| "thread2_at Receiving s = (let s = printf (crlf @ ''t2.read_message'') s in
     Some (case mq_receive (des1 s) (mq1 s) of
       Fails \<Rightarrow> goto2 Logging (perror ''Receive unsuccessfull 2'' s)
     | Blocks \<Rightarrow> goto2 Waiting s
     | Returns mq \<Rightarrow> received2 s mq))"
| "thread2_at Waiting s = (case mq_receive True (mq1 s) of
     Returns mq \<Rightarrow> Some (received2 s mq)
   | _ \<Rightarrow> None)"
| "thread2_at Logging s = Some (log_line (Got Thread2 (rbuf (th2 s))) (goto2 Sending s))"
| "thread2_at Sending s = do {
     m \<leftarrow> nth_opt (tbl (th2 s)) (idx (th2 s));
     let s = printf (crlf @ ''t2.send_message'') s;
     Some (case mq_send (des2 s) (mq2 s) m of
       Fails \<Rightarrow> sent2 (perror ''Write unsuccessfull 2'' s)
     | Blocks \<Rightarrow> goto2 SendWaiting s
     | Returns q \<Rightarrow> sent2 (s\<lparr>mq2 := q\<rparr>))
   }"
| "thread2_at SendWaiting s = do {
     m \<leftarrow> nth_opt (tbl (th2 s)) (idx (th2 s));
     case mq_send True (mq2 s) m of
       Returns q \<Rightarrow> Some (sent2 (s\<lparr>mq2 := q\<rparr>))
     | _ \<Rightarrow> None
   }"
| "thread2_at Ended s = None"
| "thread2_at Stale s = None"

definition thread2_step :: "queues \<Rightarrow> queues option" where
  "thread2_step s = thread2_at (pc (th2 s)) s"

section \<open>The main thread and the signal\<close>

definition open_queues :: "queues \<Rightarrow> queues" where
  "open_queues s = (let
     s = (if fst (can_open s) then s\<lparr>des1 := True, name1 := True\<rparr>
          else perror (crlf @ ''Failed to open message queue 1 '') s)
   in if snd (can_open s) then s\<lparr>des2 := True, name2 := True\<rparr>
      else perror (crlf @ ''Failed to open message queue 2 '') s)"

definition close_queues :: "queues \<Rightarrow> queues" where
  "close_queues s = (let
     s = (if des1 s then s\<lparr>des1 := False\<rparr> else perror ''message queue 1 not closed by main thread'' s);
     s = (if name1 s then s\<lparr>name1 := False\<rparr> else perror ''Message queue 1 unlinked'' s);
     s = (if des2 s then s\<lparr>des2 := False\<rparr> else perror ''message queue 2 not closed by main thread'' s)
   in if name2 s then s\<lparr>name2 := False\<rparr> else perror ''Message queue 2 unlinked'' s)"

primrec main_at :: "main_pc \<Rightarrow> queues \<Rightarrow> queues option" where
  "main_at MStart s = Some (open_queues (log_line (Entering Main) s)\<lparr>mpc := MCreate1\<rparr>)"
| "main_at MCreate1 s = Some ((if fst (created s) = Made then goto1 Start s
     else perror (crlf @ ''Thread 1 creation failed: '') s)\<lparr>mpc := MCreate2\<rparr>)"
| "main_at MCreate2 s = Some ((if snd (created s) = Made then goto2 Start s
     else perror (crlf @ ''Thread 2 creation failed: '') s)\<lparr>mpc := MJoin1\<rparr>)"
| "main_at MJoin1 s = (case fst (created s) of
       Made \<Rightarrow> if pc (th1 s) = Ended then Some (s\<lparr>mpc := MJoin2\<rparr>) else None
     | Refused None \<Rightarrow> Some (s\<lparr>mpc := MLost\<rparr>)
     | Refused (Some status) \<Rightarrow> Some ((if status \<noteq> 0 then perror (crlf @ ''Thread 1 join unsuccessfull'') s else s)\<lparr>mpc := MJoin2\<rparr>))"
| "main_at MJoin2 s = (case snd (created s) of
       Made \<Rightarrow> if pc (th2 s) = Ended then Some (s\<lparr>mpc := MClose\<rparr>) else None
     | Refused None \<Rightarrow> Some (s\<lparr>mpc := MLost\<rparr>)
     | Refused (Some status) \<Rightarrow> Some ((if status \<noteq> 0 then perror (crlf @ ''Thread 2 join unsuccessfull'') s else s)\<lparr>mpc := MClose\<rparr>))"
| "main_at MClose s = Some (close_queues (log_line (Exiting Main) s)\<lparr>mpc := MDone\<rparr>)"
| "main_at MDone s = None"
| "main_at MLost s = None"

definition main_step :: "queues \<Rightarrow> queues option" where
  "main_step s = main_at (mpc s) s"

definition SIGINT :: int where
  "SIGINT = 2"

definition kill_thread_handler :: "int \<Rightarrow> queues \<Rightarrow> queues" where
  "kill_thread_handler num s = (if num = SIGINT then (printf (crlf @ ''USR2 triggered'') s)\<lparr>flag := True\<rparr> else s)"

text \<open>The blocked call of the thread that takes the signal fails with EINTR.\<close>

fun interrupt :: "who \<Rightarrow> queues \<Rightarrow> queues" where
  "interrupt Main s = s"
| "interrupt Thread1 s =
     (if pc (th1 s) = Waiting \<and> mq2 s = [] then goto1 Logging (perror ''Receive unsuccessfull 1'' s)
      else if pc (th1 s) = SendWaiting \<and> max_msg \<le> length (mq1 s) then sent1 (perror ''Send unsuccessfull 1'' s)
      else s)"
| "interrupt Thread2 s =
     (if pc (th2 s) = Waiting \<and> mq1 s = [] then goto2 Logging (perror ''Receive unsuccessfull 2'' s)
      else if pc (th2 s) = SendWaiting \<and> max_msg \<le> length (mq2 s) then sent2 (perror ''Write unsuccessfull 2'' s)
      else s)"

text \<open>A step of one of the three threads, and a step of the process, which can also be the arrival
  of a SIGINT.\<close>

inductive quiet_step :: "queues \<Rightarrow> queues \<Rightarrow> bool" where
  by_main: "main_step s = Some t \<Longrightarrow> quiet_step s t"
| by_thread1: "thread1_step s = Some t \<Longrightarrow> quiet_step s t"
| by_thread2: "thread2_step s = Some t \<Longrightarrow> quiet_step s t"

inductive step :: "queues \<Rightarrow> queues \<Rightarrow> bool" where
  by_thread: "quiet_step s t \<Longrightarrow> step s t"
| signal: "step s (kill_thread_handler SIGINT (interrupt w s))"

inductive_cases quiet_stepE: "quiet_step s t"
inductive_cases stepE: "step s t"

section \<open>Without a signal the program implements the handshake\<close>

definition abs_queues :: "queues \<Rightarrow> packet hs" where
  "abs_queues s = \<lparr>ph1 = phase1 id (th1 s), n1 = idx (th1 s), ph2 = phase2 id (th2 s),
     n2 = idx (th2 s), chan1 = mq1 s, chan2 = mq2 s, out = packet_entries (log s)\<rparr>"

text \<open>What holds in every state before a signal, when the queues could be opened and were empty.\<close>

definition good :: "queues \<Rightarrow> bool" where
  "good s \<longleftrightarrow> \<not> flag s \<and> can_open s = (True, True) \<and> created s = (Made, Made)
     \<and> (mpc s \<noteq> MStart \<and> mpc s \<noteq> MClose \<and> mpc s \<noteq> MDone \<longrightarrow> des1 s \<and> des2 s)
     \<and> started (mpc s) (pc (th1 s)) (pc (th2 s))
     \<and> ok1 packets1 (th1 s) \<and> ok2 Stale packets2 (th2 s)"

definition work :: "queues \<Rightarrow> nat" where
  "work s = main_rank (mpc s) + left1 (th1 s) + left2 (th2 s)"

lemmas queue_ops = log_line_def perror_def printf_def goto1_def goto2_def sent1_def sent2_def received1_def
  received2_def mq_send_def mq_receive_def max_msg_def open_queues_def close_queues_def Let_def

lemma good_open: "good s \<Longrightarrow> pc (th1 s) \<notin> {NotStarted, Ended} \<or> pc (th2 s) \<notin> {NotStarted, Ended} \<Longrightarrow> des1 s \<and> des2 s"
  by (cases "mpc s") (auto simp: good_def)

lemma good_thread1:
  assumes "good s" "idx (th1 s) \<le> 10" "thread1_step s = Some t"
  shows "good t \<and> work t < work s"
  using assms good_open [OF assms(1)]
  by (cases "pc (th1 s)")
     (auto simp: thread1_step_def good_def work_def left1_def queue_ops ok1_def fill_table1
        split: if_splits list.splits elim!: started_pc1)

lemma good_thread2:
  assumes "good s" "idx (th2 s) \<le> 10" "thread2_step s = Some t"
  shows "good t \<and> work t < work s"
  using assms good_open [OF assms(1)]
  by (cases "pc (th2 s)")
     (auto simp: thread2_step_def good_def work_def left2_def queue_ops ok2_def fill_table2
        split: if_splits list.splits elim!: started_pc2)

lemma not_closing: "good s \<Longrightarrow> mpc s \<noteq> MClose"
  by (auto simp: good_def ok2_def)

lemma good_main: "good s \<Longrightarrow> main_step s = Some t \<Longrightarrow> good t \<and> work t < work s"
  using not_closing [of s]
  by (cases "mpc s")
     (auto simp: main_step_def good_def work_def left1_def left2_def log_line_def perror_def open_queues_def
        goto1_def goto2_def ok1_def ok2_def split: if_splits)

text \<open>Every step is a step of the handshake or leaves its state alone.\<close>

lemma abs_thread1:
  assumes "good s" "length (mq1 s) \<le> 1" "thread1_step s = Some t"
  shows "abs_queues t = abs_queues s \<or> hs_step packets1 packets2 (abs_queues s) (abs_queues t)"
  using assms good_open [OF assms(1)]
  by (cases "pc (th1 s)")
     (auto simp: thread1_step_def good_def queue_ops ok1_def fill_table1 abs_queues_def phase1_def
        split: if_splits list.splits intro: hs_stepI)

lemma abs_thread2:
  assumes "good s" "length (mq2 s) \<le> 1" "thread2_step s = Some t"
  shows "abs_queues t = abs_queues s \<or> hs_step packets1 packets2 (abs_queues s) (abs_queues t)"
  using assms good_open [OF assms(1)]
  by (cases "pc (th2 s)")
     (auto simp: thread2_step_def good_def queue_ops ok2_def fill_table2 abs_queues_def phase2_def
        split: if_splits list.splits intro: hs_stepI)

lemma abs_main:
  assumes "good s" "main_step s = Some t"
  shows "abs_queues t = abs_queues s"
  using assms not_closing [OF assms(1)]
  by (cases "mpc s")
     (auto simp: main_step_def good_def log_line_def perror_def open_queues_def goto1_def goto2_def
        abs_queues_def phase1_def phase2_def split: if_splits)

lemma quiet_sim:
  assumes "good s" "hs_inv packets1 packets2 (abs_queues s)" "quiet_step s t"
  shows "good t \<and> work t < work s
    \<and> (abs_queues t = abs_queues s \<or> hs_step packets1 packets2 (abs_queues s) (abs_queues t))"
proof -
  have b: "idx (th1 s) \<le> 10" "idx (th2 s) \<le> 10" "length (mq1 s) \<le> 1" "length (mq2 s) \<le> 1"
    using hs_inv_bounds [OF assms(2)] by (simp_all add: abs_queues_def)
  from assms(3) show ?thesis
  proof cases
    case by_main
    then show ?thesis using good_main [OF assms(1)] abs_main [OF assms(1)] by simp
  next
    case by_thread1
    then show ?thesis using good_thread1 [OF assms(1) b(1)] abs_thread1 [OF assms(1) b(3)] by simp
  next
    case by_thread2
    then show ?thesis using good_thread2 [OF assms(1) b(2)] abs_thread2 [OF assms(1) b(4)] by simp
  qed
qed

text \<open>A thread that the handshake lets proceed is not blocked; before its creation, \<open>main\<close> is not.\<close>

lemma main_ready: "good s \<Longrightarrow> pc (th1 s) = NotStarted \<or> pc (th2 s) = NotStarted \<Longrightarrow> \<exists>t. quiet_step s t"
  by (rule exI [where x = "the (main_step s)"], rule quiet_step.by_main, cases "mpc s")
     (auto simp: good_def main_step_def)

lemma quiet_live:
  assumes "good s" "hs_inv packets1 packets2 (abs_queues s)"
    and "hs_step packets1 packets2 (abs_queues s) u"
  shows "\<exists>t. quiet_step s t"
proof (cases "pc (th1 s) = NotStarted \<or> pc (th2 s) = NotStarted")
  case True
  with assms(1) show ?thesis by (rule main_ready)
next
  case False
  have b: "length (mq1 s) \<le> 1" "length (mq2 s) \<le> 1"
    using hs_inv_bounds [OF assms(2)] by (simp_all add: abs_queues_def)
  have "thread1_step s \<noteq> None \<or> thread2_step s \<noteq> None"
    using assms(3)
  proof cases
    case send1
    then show ?thesis using False assms(1) b
      by (cases "pc (th1 s)")
         (auto simp: abs_queues_def phase1_def thread1_step_def good_def ok1_def fill_table1 queue_ops)
  next
    case (recv1 m ms)
    then show ?thesis
      by (cases "pc (th1 s)") (auto simp: abs_queues_def phase1_def thread1_step_def mq_receive_def Let_def)
  next
    case (note1 m)
    then show ?thesis
      by (cases "pc (th1 s)") (auto simp: abs_queues_def phase1_def thread1_step_def)
  next
    case (recv2 m ms)
    then show ?thesis using False assms(1)
      by (cases "pc (th2 s)")
         (auto simp: abs_queues_def phase2_def thread2_step_def good_def ok2_def fill_table2 mq_receive_def Let_def)
  next
    case (note2 m)
    then show ?thesis
      by (cases "pc (th2 s)") (auto simp: abs_queues_def phase2_def thread2_step_def)
  next
    case send2
    then show ?thesis using assms(1) b
      by (cases "pc (th2 s)")
         (auto simp: abs_queues_def phase2_def thread2_step_def good_def ok2_def queue_ops)
  qed
  then show ?thesis by (auto intro: quiet_step.intros)
qed

definition queues_start :: queues where
  "queues_start = queues_init [] [] (True, True) (Made, Made)"

interpretation hq: handshake_impl quiet_step queues_start abs_queues good work packets1 packets2
proof
  show "good queues_start" "abs_queues queues_start = hs_init"
    by (simp_all add: queues_start_def queues_init_def good_def abs_queues_def hs_init_def
        phase1_def phase2_def new_thread_def ok1_def ok2_def)
qed (use quiet_sim quiet_live in auto)

lemma quiet_final:
  assumes "quiet_step\<^sup>*\<^sup>* queues_start s" "\<forall>t. \<not> quiet_step s t"
  shows "packet_entries (log s) = dialogue packets1 packets2 \<and> pc (th1 s) = Ended \<and> pc (th2 s) = Stale"
proof -
  have g: "good s" using hq.reach [OF assms(1)] by simp
  have "abs_queues s = round_state packets1 packets2 10 Idle"
    using hq.complete [OF assms(1)] assms(2) by simp
  then have out: "packet_entries (log s) = dialogue packets1 packets2"
    and p: "phase1 id (th1 s) = Ready" "idx (th1 s) = 10" "phase2 id (th2 s) = Await" "idx (th2 s) = 10"
    by (simp_all add: abs_queues_def)
  have stuck: "thread1_step s = None" "thread2_step s = None"
    using assms(2) by (meson not_None_eq quiet_step.intros)+
  have started: "pc (th1 s) \<noteq> NotStarted" "pc (th2 s) \<noteq> NotStarted"
    using main_ready [OF g] assms(2) by blast+
  have "pc (th1 s) = Ended"
    using stuck(1) p(1,2) started(1) g
    by (cases "pc (th1 s)") (auto simp: thread1_step_def phase1_def good_def ok1_def fill_table1)
  moreover have "pc (th2 s) = Stale"
    using stuck(2) p(3,4) started(2) g
    by (cases "pc (th2 s)") (auto simp: thread2_step_def phase2_def good_def ok2_def fill_table2)
  ultimately show ?thesis using out by simp
qed

section \<open>Joining the threads\<close>

lemma qjoins_main:
  "main_step s = Some t \<Longrightarrow> created t = created s \<and> mpc t \<in> main_moves (created s) (mpc s)
     \<and> (fst (created s) = Made \<or> th1 t = th1 s) \<and> (snd (created s) = Made \<or> th2 t = th2 s)
     \<and> (stage MJoin1 < stage (mpc s) \<longrightarrow> th1 t = th1 s) \<and> (stage MJoin2 < stage (mpc s) \<longrightarrow> th2 t = th2 s)
     \<and> (Exiting Main \<in> set (log t) \<longrightarrow> Exiting Main \<in> set (log s) \<or> mpc t = MDone) \<and> set (err s) \<subseteq> set (err t)"
  by (cases "mpc s")
     (auto simp: main_step_def queue_ops after_join_def split: if_splits birth.splits option.splits)

lemma qjoins_passed:
  "main_step s = Some t \<Longrightarrow> (mpc s = MJoin1 \<and> fst (created s) = Made \<longrightarrow> pc (th1 t) = Ended)
     \<and> (mpc s = MJoin2 \<and> snd (created s) = Made \<longrightarrow> pc (th2 t) = Ended)
     \<and> (fails_at (created s) (mpc s) \<longrightarrow> complaint (mpc s) \<in> set (err t))"
  by (cases "mpc s")
     (auto simp: main_step_def queue_ops bad_join_def split: if_splits birth.splits option.splits)

lemma qjoins_thread1:
  "thread1_step s = Some t \<Longrightarrow> created t = created s \<and> mpc t = mpc s \<and> pc (th1 s) \<noteq> NotStarted
     \<and> pc (th1 s) \<noteq> Ended \<and> th2 t = th2 s
     \<and> (Exiting Main \<in> set (log t)) = (Exiting Main \<in> set (log s)) \<and> set (err s) \<subseteq> set (err t)"
  by (cases "pc (th1 s)")
     (auto simp: thread1_step_def queue_ops bind_eq_Some_conv split: if_splits list.splits call.splits)

lemma qjoins_thread2:
  "thread2_step s = Some t \<Longrightarrow> created t = created s \<and> mpc t = mpc s \<and> pc (th2 s) \<noteq> NotStarted
     \<and> pc (th2 s) \<noteq> Ended \<and> th1 t = th1 s
     \<and> (Exiting Main \<in> set (log t)) = (Exiting Main \<in> set (log s)) \<and> set (err s) \<subseteq> set (err t)"
  by (cases "pc (th2 s)")
     (auto simp: thread2_step_def queue_ops bind_eq_Some_conv split: if_splits list.splits call.splits)

lemma step_elim:
  assumes "step s t"
  obtains "main_step s = Some t" | "thread1_step s = Some t" | "thread2_step s = Some t"
    | w where "t = kill_thread_handler SIGINT (interrupt w s)"
  using assms by (auto elim!: stepE quiet_stepE)

interpretation qjoin: main_joins step main_step thread1_step thread2_step
  "\<lambda>w s. kill_thread_handler SIGINT (interrupt w s)" mpc created
  "\<lambda>s. pc (th1 s) = NotStarted" "\<lambda>s. pc (th2 s) = NotStarted" "\<lambda>s. pc (th1 s) = Ended" "\<lambda>s. pc (th2 s) = Ended"
  "\<lambda>s. Exiting Main \<in> set (log s)" "\<lambda>p s. complaint p \<in> set (err s)"
proof
  fix s t w p
  show "main_step s = Some t \<or> thread1_step s = Some t \<or> thread2_step s = Some t
    \<or> (\<exists>w. t = kill_thread_handler SIGINT (interrupt w s))" if "step s t"
    using that by (auto elim!: stepE quiet_stepE)
  let ?t = "kill_thread_handler SIGINT (interrupt w s)"
  show "created ?t = created s \<and> mpc ?t = mpc s \<and> (pc (th1 s) = NotStarted \<longrightarrow> pc (th1 ?t) = NotStarted)
    \<and> (pc (th2 s) = NotStarted \<longrightarrow> pc (th2 ?t) = NotStarted)
    \<and> (pc (th1 s) = Ended \<longrightarrow> pc (th1 ?t) = Ended) \<and> (pc (th2 s) = Ended \<longrightarrow> pc (th2 ?t) = Ended)
    \<and> (Exiting Main \<in> set (log ?t)) = (Exiting Main \<in> set (log s))
    \<and> (complaint p \<in> set (err s) \<longrightarrow> complaint p \<in> set (err ?t))"
    by (cases w) (auto simp: kill_thread_handler_def queue_ops)
qed ((drule qjoins_main, fastforce)[1], (drule qjoins_passed, fastforce)[1],
    (drule qjoins_thread1, fastforce)[1], (drule qjoins_thread2, fastforce)[1])

section \<open>Only packets that were sent\<close>

text \<open>Where the packets in queues, buffers and log come from, and where the tables are read: \<open>P\<close> are
  the packets of thread 1, \<open>Q\<close> those of thread 2. Signals and failing calls are included.\<close>

definition typed_queue :: "packet set \<Rightarrow> packet list \<Rightarrow> bool" where
  "typed_queue P q \<longleftrightarrow> set q \<subseteq> P \<and> length q \<le> max_msg"

definition typed_buf :: "packet set \<Rightarrow> packet \<Rightarrow> bool" where
  "typed_buf P p \<longleftrightarrow> p = blank \<or> p \<in> P"

definition typed_log :: "packet set \<Rightarrow> packet set \<Rightarrow> entry list \<Rightarrow> bool" where
  "typed_log P Q l \<longleftrightarrow> set (got Thread1 l) \<subseteq> insert blank Q \<and> set (got Thread2 l) \<subseteq> insert blank P"

primrec typed1_at :: "pc \<Rightarrow> 'b thread \<Rightarrow> bool" where
  "typed1_at NotStarted th = (idx th = 0)"
| "typed1_at Start th = (idx th = 0)"
| "typed1_at Top th = (tbl th = packets1 \<and> idx th \<le> 10)"
| "typed1_at Sending th = (tbl th = packets1 \<and> idx th < 10)"
| "typed1_at SendWaiting th = (tbl th = packets1 \<and> idx th < 10)"
| "typed1_at Receiving th = (tbl th = packets1 \<and> idx th \<le> 10)"
| "typed1_at Waiting th = (tbl th = packets1 \<and> idx th \<le> 10)"
| "typed1_at Logging th = (tbl th = packets1 \<and> idx th \<le> 10)"
| "typed1_at Ended th = True"
| "typed1_at Stale th = True"

primrec typed2_at :: "pc \<Rightarrow> 'b thread \<Rightarrow> bool" where
  "typed2_at NotStarted th = (idx th = 0)"
| "typed2_at Start th = (idx th = 0)"
| "typed2_at Top th = (tbl th = packets2 \<and> idx th \<le> 10)"
| "typed2_at Sending th = (tbl th = packets2 \<and> idx th < 10)"
| "typed2_at SendWaiting th = (tbl th = packets2 \<and> idx th < 10)"
| "typed2_at Receiving th = (tbl th = packets2 \<and> idx th < 10)"
| "typed2_at Waiting th = (tbl th = packets2 \<and> idx th < 10)"
| "typed2_at Logging th = (tbl th = packets2 \<and> idx th < 10)"
| "typed2_at Ended th = True"
| "typed2_at Stale th = True"

definition typed :: "packet set \<Rightarrow> packet set \<Rightarrow> queues \<Rightarrow> bool" where
  "typed P Q s \<longleftrightarrow> typed_queue P (mq1 s) \<and> typed_queue Q (mq2 s) \<and> typed_log P Q (log s)
     \<and> typed_buf Q (rbuf (th1 s)) \<and> typed_buf P (rbuf (th2 s))
     \<and> typed1_at (pc (th1 s)) (th1 s) \<and> typed2_at (pc (th2 s)) (th2 s)
     \<and> not_yet (mpc s) (pc (th1 s)) (pc (th2 s))"

lemma typed_queue_Cons: "typed_queue P (m # q) \<Longrightarrow> m \<in> P \<and> typed_queue P q"
  by (simp add: typed_queue_def)

lemma typed_queue_snoc: "typed_queue P q \<Longrightarrow> length q < max_msg \<Longrightarrow> m \<in> P \<Longrightarrow> typed_queue P (q @ [m])"
  by (simp add: typed_queue_def)

lemma typed_log_snoc [simp]:
  "typed_log P Q (l @ [Entering w]) = typed_log P Q l" "typed_log P Q (l @ [Exiting w]) = typed_log P Q l"
  "typed_log P Q (l @ [Killed w]) = typed_log P Q l"
  "typed_log P Q (l @ [Got Thread1 p]) = (typed_buf Q p \<and> typed_log P Q l)"
  "typed_log P Q (l @ [Got Thread2 p]) = (typed_buf P p \<and> typed_log P Q l)"
  by (auto simp: typed_log_def typed_buf_def)

lemmas queue_steps = log_line_def perror_def printf_def goto1_def goto2_def sent1_def sent2_def
  received1_def received2_def Let_def

lemma typed_main: "typed P Q s \<Longrightarrow> main_step s = Some t \<Longrightarrow> typed P Q t"
  by (cases "mpc s")
     (auto simp: main_step_def typed_def log_line_def perror_def goto1_def goto2_def open_queues_def
        close_queues_def Let_def split: if_splits birth.splits option.splits)

lemma typed_receive:
  "typed_queue P q \<Longrightarrow> mq_receive d q = Returns r \<Longrightarrow> typed_buf P (fst r) \<and> typed_queue P (snd r)"
  by (auto simp: mq_receive_def typed_buf_def dest: typed_queue_Cons split: if_splits list.splits)

lemma typed_send:
  "mq_send d q m = Returns r \<Longrightarrow> typed_queue P q \<Longrightarrow> m \<in> P \<Longrightarrow> typed_queue P r"
  by (auto simp: mq_send_def intro: typed_queue_snoc split: if_splits)

lemma packet_in1: "set packets1 \<subseteq> P \<Longrightarrow> i < 10 \<Longrightarrow> packets1 ! i \<in> P"
  and packet_in2: "set packets2 \<subseteq> Q \<Longrightarrow> i < 10 \<Longrightarrow> packets2 ! i \<in> Q"
  by (auto simp: subset_iff)

lemma typed_thread1:
  assumes "set packets1 \<subseteq> P" "typed P Q s" "thread1_step s = Some t"
  shows "typed P Q t"
  using assms(2,3) packet_in1 [OF assms(1)]
  by (cases "pc (th1 s)")
     (auto simp: thread1_step_def typed_def queue_steps fill_table1
        dest: typed_receive intro: typed_send elim: not_yet_pc1 not_yet_pc2 split: if_splits call.splits)

lemma typed_thread2:
  assumes "set packets2 \<subseteq> Q" "typed P Q s" "thread2_step s = Some t"
  shows "typed P Q t"
  using assms(2,3) packet_in2 [OF assms(1)]
  by (cases "pc (th2 s)")
     (auto simp: thread2_step_def typed_def queue_steps fill_table2
        dest: typed_receive intro: typed_send elim: not_yet_pc1 not_yet_pc2 split: if_splits call.splits)

lemma typed_signal: "typed P Q s \<Longrightarrow> typed P Q (kill_thread_handler n (interrupt w s))"
  by (cases w) (auto simp: kill_thread_handler_def typed_def queue_steps elim: not_yet_pc1 not_yet_pc2)

lemma typed_step:
  assumes "set packets1 \<subseteq> P" "set packets2 \<subseteq> Q" "typed P Q s" "step s t"
  shows "typed P Q t"
  using assms(4)
proof (cases rule: step_elim)
  case 1
  with assms(3) show ?thesis by (rule typed_main)
next
  case 2
  with assms(1,3) show ?thesis by (rule typed_thread1)
next
  case 3
  with assms(2,3) show ?thesis by (rule typed_thread2)
next
  case (4 w)
  with typed_signal [OF assms(3)] show ?thesis by simp
qed

lemma typed_reach:
  assumes "step\<^sup>*\<^sup>* (queues_init q1 q2 ok c) s" "length q1 \<le> max_msg" "length q2 \<le> max_msg"
  shows "typed (set q1 \<union> set packets1) (set q2 \<union> set packets2) s"
  using assms(1)
proof (induction rule: rtranclp_induct)
  case base
  show ?case using assms(2,3)
    by (simp add: typed_def queues_init_def new_thread_def typed_queue_def typed_log_def typed_buf_def)
next
  case (step s t)
  show ?case by (rule typed_step [OF _ _ step.IH step.hyps(2)]) simp_all
qed

section \<open>Schedules\<close>

primrec queues_act :: "act \<Rightarrow> queues \<Rightarrow> queues option" where
  "queues_act (Run w) s = (case w of Main \<Rightarrow> main_step s | Thread1 \<Rightarrow> thread1_step s | Thread2 \<Rightarrow> thread2_step s)"
| "queues_act (Interrupt w) s = Some (kill_thread_handler SIGINT (interrupt w s))"

lemma queues_act_step: "queues_act a s = Some t \<Longrightarrow> step s t"
  by (cases a) (auto split: who.splits intro: step.intros quiet_step.intros)

definition quiet_act :: "who \<Rightarrow> queues \<Rightarrow> queues option" where
  "quiet_act w = queues_act (Run w)"

lemma quiet_act_step: "quiet_act w s = Some t \<Longrightarrow> quiet_step s t"
  by (auto simp: quiet_act_def split: who.splits intro: quiet_step.intros)

lemmas queues_run = queues_start_def queues_init_def quiet_act_def main_step_def thread1_step_def
  thread2_step_def new_thread_def fill_table1 fill_table2 kill_thread_handler_def SIGINT_def

section \<open>Properties\<close>

text \<open>C8: as long as no SIGINT arrives, and the queues were empty at the start, the packets in the
  log are at every moment a prefix of the intended conversation (thread 2 logs \<open>t1[k]\<close>, then thread
  1 logs the answer \<open>t2[k]\<close>), and there is never more than one message in the two queues together.\<close>

theorem queues_dialogue:
  assumes "quiet_step\<^sup>*\<^sup>* queues_start s"
  shows "packet_entries (log s)
       = take (length (packet_entries (log s))) (dialogue packets1 packets2)
     \<and> length (mq1 s) + length (mq2 s) \<le> 1"
  using hq.prefix [OF assms] hq.channels [OF assms] by (simp add: abs_queues_def)

theorem queues_dialogue_witness:
  "\<exists>s. quiet_step\<^sup>*\<^sup>* queues_start s \<and> packet_entries (log s) = [(Thread2, packets1 ! 0)]
     \<and> length (mq1 s) + length (mq2 s) \<le> 1"
proof -
  let ?r = "run quiet_act [Main, Main, Main, Thread1, Thread1, Thread1, Thread2, Thread2, Thread2, Thread2] queues_start"
  obtain s where s: "?r = Some s" and p: "packet_entries (log s) = [(Thread2, packets1 ! 0)]"
    by (simp add: queues_run queue_ops)
  from run_reaches [of quiet_act quiet_step, OF quiet_act_step s] have "quiet_step\<^sup>*\<^sup>* queues_start s" .
  with queues_dialogue [OF this] p show ?thesis by blast
qed

text \<open>C10: without a signal the program does its work: every run has at most 184 steps, and when no
  thread can go on the whole conversation of twenty packets is in the log.\<close>

theorem queues_complete:
  assumes "(quiet_step ^^ n) queues_start s"
  shows "n \<le> 184 \<and> ((\<forall>t. \<not> quiet_step s t) \<longrightarrow>
     packet_entries (log s) = dialogue packets1 packets2 \<and> pc (th1 s) = Ended \<and> pc (th2 s) = Stale)"
proof (intro conjI impI)
  have "work queues_start = 184"
    by (simp add: work_def queues_start_def queues_init_def left1_def left2_def new_thread_def)
  with hq.bounded [OF assms] show "n \<le> 184" by simp
  assume "\<forall>t. \<not> quiet_step s t"
  with quiet_final relpowp_imp_rtranclp [OF assms]
  show "packet_entries (log s) = dialogue packets1 packets2" "pc (th1 s) = Ended" "pc (th2 s) = Stale"
    by blast+
qed

theorem queues_complete_witness:
  "\<exists>s n. n \<le> 184 \<and> (quiet_step ^^ n) queues_start s \<and> packet_entries (log s) = dialogue packets1 packets2"
proof -
  obtain s where s: "quiet_step\<^sup>*\<^sup>* queues_start s" "\<forall>t. \<not> quiet_step s t"
    using hq.reaches_end by blast
  then obtain n where "(quiet_step ^^ n) queues_start s" using rtranclp_imp_relpowp by metis
  with queues_complete [OF this] s(2) show ?thesis by blast
qed

text \<open>A SIGINT can leave the program hanging: when it arrives while thread 2 waits in
  \<open>mq_receive\<close> and thread 1 is about to check \<open>flag\<close>, thread 1 ends without sending, thread 2 stays
  blocked on the empty queue, \<open>main\<close> on its join, and no thread can move.\<close>

lemma queues_deadlock:
  "\<exists>s. step\<^sup>*\<^sup>* queues_start s \<and> flag s \<and> pc (th1 s) = Ended \<and> pc (th2 s) = Waiting \<and> mpc s = MJoin2
     \<and> (\<forall>t. \<not> quiet_step s t)"
proof -
  let ?r = "run queues_act (map Run [Main, Main, Main, Thread1, Thread2, Thread2, Thread2]
     @ [Interrupt Main, Run Thread1, Run Main]) queues_start"
  obtain s where s: "?r = Some s" and p: "flag s" "pc (th1 s) = Ended" "pc (th2 s) = Waiting"
    "mpc s = MJoin2" "mq1 s = []" "created s = (Made, Made)"
    by (simp add: queues_run queue_ops)
  from run_reaches [of queues_act step, OF queues_act_step s] have "step\<^sup>*\<^sup>* queues_start s" .
  moreover have "\<not> quiet_step s t" for t
    using p by (auto elim!: quiet_stepE simp: main_step_def thread1_step_def thread2_step_def mq_receive_def)
  ultimately show ?thesis using p by blast
qed

text \<open>C11: types are kept in every run, whatever SIGINTs arrive, whichever queues or threads cannot be
  made, and with messages of an earlier run in the queues: what a thread logs is a packet of the other
  thread's table, a message of the queue it found, or its receive buffer as it was before the first
  successful receive, uninitialised (\<open>blank\<close>): a failed receive is logged like any other. No queue
  holds more than ten messages, and no send reads outside its table.\<close>

theorem queues_typed:
  assumes "step\<^sup>*\<^sup>* (queues_init q1 q2 ok c) s" "length q1 \<le> max_msg" "length q2 \<le> max_msg"
  shows "set (got Thread2 (log s)) \<subseteq> insert blank (set q1 \<union> set packets1)
     \<and> set (got Thread1 (log s)) \<subseteq> insert blank (set q2 \<union> set packets2)
     \<and> length (mq1 s) \<le> max_msg \<and> length (mq2 s) \<le> max_msg
     \<and> (pc (th1 s) \<noteq> Sending \<or> thread1_step s \<noteq> None) \<and> (pc (th2 s) \<noteq> Sending \<or> thread2_step s \<noteq> None)"
proof (intro conjI)
  note t = typed_reach [OF assms]
  show "set (got Thread2 (log s)) \<subseteq> insert blank (set q1 \<union> set packets1)"
    "set (got Thread1 (log s)) \<subseteq> insert blank (set q2 \<union> set packets2)"
    "length (mq1 s) \<le> max_msg" "length (mq2 s) \<le> max_msg"
    using t by (simp_all add: typed_def typed_queue_def typed_log_def)
  show "pc (th1 s) \<noteq> Sending \<or> thread1_step s \<noteq> None" "pc (th2 s) \<noteq> Sending \<or> thread2_step s \<noteq> None"
    using t by (auto simp: typed_def thread1_step_def thread2_step_def Let_def)
qed

theorem queues_typed_witness:
  "\<exists>s. step\<^sup>*\<^sup>* (queues_init [blank] [] (True, False) (Made, Made)) s \<and> flag s
     \<and> err s = [crlf @ ''Failed to open message queue 2 '', ''Receive unsuccessfull 1'']
     \<and> set (got Thread1 (log s)) \<subseteq> insert blank (set packets2) \<and> length (mq1 s) \<le> max_msg"
proof -
  let ?r = "run queues_act (map Run [Main, Main, Thread1, Thread1, Thread1, Thread1, Thread1] @ [Interrupt Main])
     (queues_init [blank] [] (True, False) (Made, Made))"
  obtain s where s: "?r = Some s" and p: "flag s"
    "err s = [crlf @ ''Failed to open message queue 2 '', ''Receive unsuccessfull 1'']"
    by (simp add: queues_run queue_ops)
  from run_reaches [of queues_act step, OF queues_act_step s]
  have r: "step\<^sup>*\<^sup>* (queues_init [blank] [] (True, False) (Made, Made)) s" .
  have "set (got Thread1 (log s)) \<subseteq> insert blank (set packets2)" "length (mq1 s) \<le> max_msg"
    using queues_typed [OF r] by (simp_all add: max_msg_def)
  with r p show ?thesis by blast
qed

end
