(* ===== verification/Pipes.thy ===== *)
theory Pipes
  imports Creation
begin

text \<open>
  \<^verbatim>\<open>HW4_APES/PROBLEM2/ipc_pipes_thread/pipes.c\<close>: the exchange over two pipes.

  A pipe is the list of the bytes in it, of which some can be unknown. Both ends of both pipes are
  open in the process until thread 1 closes the two ends of the first, or thread 2 those of the
  second. The threads write \<open>sizeof(t1)\<close> bytes, the size of the whole table (480 bytes), starting
  at the packet \<open>t1[i]\<close>: from the second write on, the bytes behind the table go along. What is in
  memory there is a parameter (\<open>beyond1\<close>, \<open>beyond2\<close>: the byte at each offset behind the table, for
  each value of \<open>i\<close>).

  Reads take up to 48 bytes. A read fails when its pipe was closed before the call, returns 0 bytes
  when the pipe was closed while it was blocked, and fails with EINTR when a SIGINT is delivered to
  the blocked thread; the thread then logs what its buffer held before.
\<close>

section \<open>State\<close>

record pipes =
  flag :: bool
  th1 :: "byte cells thread"
  th2 :: "byte cells thread"
  fd1 :: "byte cells"
  fd2 :: "byte cells"
  open1 :: bool
  open2 :: bool
  beyond1 :: "nat \<Rightarrow> nat \<Rightarrow> byte option"
  beyond2 :: "nat \<Rightarrow> nat \<Rightarrow> byte option"
  can_pipe :: "bool \<times> bool"
  created :: "birth \<times> birth"
  log :: "entry list"
  console :: "string list"
  err :: "string list"
  mpc :: main_pc

text \<open>\<open>can_pipe\<close>, \<open>created\<close>: what the two \<open>pipe\<close> and the two \<open>pthread_create\<close> calls will do.\<close>

definition pipes_init ::
  "(nat \<Rightarrow> nat \<Rightarrow> byte option) \<Rightarrow> (nat \<Rightarrow> nat \<Rightarrow> byte option) \<Rightarrow> bool \<times> bool \<Rightarrow> birth \<times> birth \<Rightarrow> pipes" where
  "pipes_init b1 b2 ok c = \<lparr>flag = False, th1 = new_thread (uninit packet_size),
     th2 = new_thread (uninit packet_size), fd1 = [], fd2 = [], open1 = False, open2 = False,
     beyond1 = b1, beyond2 = b2, can_pipe = ok, created = c, log = [], console = [], err = [], mpc = MStart\<rparr>"

definition pipes_start ::
  "(nat \<Rightarrow> nat \<Rightarrow> byte option) \<Rightarrow> (nat \<Rightarrow> nat \<Rightarrow> byte option) \<Rightarrow> pipes" where
  "pipes_start b1 b2 = pipes_init b1 b2 (True, True) (Made, Made)"

definition log_line :: "entry \<Rightarrow> pipes \<Rightarrow> pipes" where
  "log_line e s = s\<lparr>log := log s @ [e]\<rparr>"

definition perror :: "string \<Rightarrow> pipes \<Rightarrow> pipes" where
  "perror m s = s\<lparr>err := err s @ [m]\<rparr>"

definition printf :: "string \<Rightarrow> pipes \<Rightarrow> pipes" where
  "printf m s = s\<lparr>console := console s @ [m]\<rparr>"

section \<open>The two calls\<close>

definition table_size :: nat where
  "table_size = 480"

text \<open>A pipe holds 65536 bytes; a write of at most 4096 bytes is written whole or blocks.\<close>

definition pipe_capacity :: nat where
  "pipe_capacity = 65536"

definition table_bytes :: "packet list \<Rightarrow> byte cells" where
  "table_bytes t = concat (map packet_bytes t)"

text \<open>The \<open>sizeof(t1)\<close> bytes from \<open>&t1[i]\<close>.\<close>

definition bytes_from :: "packet list \<Rightarrow> (nat \<Rightarrow> byte option) \<Rightarrow> nat \<Rightarrow> byte cells" where
  "bytes_from t beyond i = drop (packet_size * i) (table_bytes t) @ map beyond [0..<packet_size * i]"

definition pipe_write :: "bool \<Rightarrow> byte cells \<Rightarrow> byte cells \<Rightarrow> byte cells call" where
  "pipe_write isopen q bs = (if \<not> isopen then Fails
     else if pipe_capacity < length q + length bs then Blocks else Returns (q @ bs))"

text \<open>\<open>read\<close> of \<open>packet_size\<close> bytes into the buffer \<open>b\<close>: the new buffer, and what stays in the pipe.\<close>

definition pipe_read :: "bool \<Rightarrow> byte cells \<Rightarrow> byte cells \<Rightarrow> (byte cells \<times> byte cells) call" where
  "pipe_read isopen q b = (if \<not> isopen then Fails else if q = [] then Blocks
     else Returns (put b 0 (take packet_size q), drop packet_size q))"

text \<open>Closing both ends drops what is in the pipe, unless a reader that was blocked still has to take
  it.\<close>

definition close1 :: "pipes \<Rightarrow> pipes" where
  "close1 s = s\<lparr>open1 := False, fd1 := (if pc (th2 s) = Waiting then fd1 s else [])\<rparr>"

definition close2 :: "pipes \<Rightarrow> pipes" where
  "close2 s = s\<lparr>open2 := False, fd2 := (if pc (th1 s) = Waiting then fd2 s else [])\<rparr>"

section \<open>The first thread\<close>

text \<open>When a \<open>pipe\<close> call has failed, its two descriptors are 0 (they are global), so the threads would
  read and write the standard input: that is not followed (\<open>Stale\<close>).\<close>

definition goto1 :: "pc \<Rightarrow> pipes \<Rightarrow> pipes" where
  "goto1 p s = s\<lparr>th1 := (th1 s)\<lparr>pc := p\<rparr>\<rparr>"

definition sent1 :: "pipes \<Rightarrow> pipes" where
  "sent1 s = s\<lparr>th1 := (th1 s)\<lparr>idx := idx (th1 s) + 1, pc := Receiving\<rparr>\<rparr>"

text \<open>A read of fewer than 48 bytes is reported too.\<close>

definition received1 :: "pipes \<Rightarrow> byte cells \<times> byte cells \<Rightarrow> pipes" where
  "received1 s = (\<lambda>(b, q). let s' = s\<lparr>fd2 := q, th1 := (th1 s)\<lparr>rbuf := b, pc := Logging\<rparr>\<rparr>
     in if length (fd2 s) < packet_size then perror ''Read unsuccessfull 1'' s' else s')"

primrec thread1_at :: "pc \<Rightarrow> pipes \<Rightarrow> pipes option" where
  "thread1_at NotStarted s = None"
| "thread1_at Start s = do {
     t \<leftarrow> fill_table (indexed messages1) (indexed led_list) [0..<10];
     Some (log_line (Entering Thread1) (s\<lparr>th1 := (th1 s)\<lparr>tbl := t, pc := Top\<rparr>\<rparr>))
   }"
| "thread1_at Top s = Some
     (if flag s then close1 (log_line (Killed Thread1) (goto1 Ended s))
      else if idx (th1 s) = 10 then log_line (Exiting Thread1) (goto1 Ended s)
      else goto1 Sending s)"
| "thread1_at Sending s = Some
     (if \<not> fst (can_pipe s) then goto1 Stale s else case pipe_write (open1 s) (fd1 s) (bytes_from (tbl (th1 s)) (beyond1 s (idx (th1 s))) (idx (th1 s))) of
       Fails \<Rightarrow> sent1 (perror ''Write unsuccessfull 1'' s)
     | Blocks \<Rightarrow> goto1 SendWaiting s
     | Returns q \<Rightarrow> sent1 (s\<lparr>fd1 := q\<rparr>))"
| "thread1_at SendWaiting s =
     (case pipe_write True (fd1 s) (bytes_from (tbl (th1 s)) (beyond1 s (idx (th1 s))) (idx (th1 s))) of
       Returns q \<Rightarrow> Some (sent1 (s\<lparr>fd1 := q\<rparr>))
     | _ \<Rightarrow> None)"
| "thread1_at Receiving s = Some (if \<not> snd (can_pipe s) then goto1 Stale s else case pipe_read (open2 s) (fd2 s) (rbuf (th1 s)) of
     Fails \<Rightarrow> goto1 Logging (perror ''Read unsuccessfull 1'' s)
   | Blocks \<Rightarrow> goto1 Waiting s
   | Returns bq \<Rightarrow> received1 s bq)"
| "thread1_at Waiting s = (case pipe_read True (fd2 s) (rbuf (th1 s)) of
     Returns bq \<Rightarrow> Some (received1 s bq)
   | _ \<Rightarrow> if open2 s then None else Some (goto1 Logging (perror ''Read unsuccessfull 1'' s)))"
| "thread1_at Logging s = Some (log_line (Got Thread1 (parse_packet (rbuf (th1 s)))) (goto1 Top s))"
| "thread1_at Ended s = None"
| "thread1_at Stale s = None"

definition thread1_step :: "pipes \<Rightarrow> pipes option" where
  "thread1_step s = thread1_at (pc (th1 s)) s"

section \<open>The second thread\<close>

definition goto2 :: "pc \<Rightarrow> pipes \<Rightarrow> pipes" where
  "goto2 p s = s\<lparr>th2 := (th2 s)\<lparr>pc := p\<rparr>\<rparr>"

definition sent2 :: "pipes \<Rightarrow> pipes" where
  "sent2 s = s\<lparr>th2 := (th2 s)\<lparr>idx := idx (th2 s) + 1, pc := Top\<rparr>\<rparr>"

definition received2 :: "pipes \<Rightarrow> byte cells \<times> byte cells \<Rightarrow> pipes" where
  "received2 s = (\<lambda>(b, q). let s' = s\<lparr>fd1 := q, th2 := (th2 s)\<lparr>rbuf := b, pc := Logging\<rparr>\<rparr>
     in if length (fd1 s) < packet_size then perror ''Read unsuccessfull 2'' s' else s')"

text \<open>The last line of the thread goes through the closed \<open>fptr\<close>, too: \<open>Stale\<close>.\<close>

primrec thread2_at :: "pc \<Rightarrow> pipes \<Rightarrow> pipes option" where
  "thread2_at NotStarted s = None"
| "thread2_at Start s = do {
     t \<leftarrow> fill_table (indexed messages2) (indexed led_list) [0..<10];
     Some (log_line (Entering Thread2) (s\<lparr>th2 := (th2 s)\<lparr>tbl := t, pc := Top\<rparr>\<rparr>))
   }"
| "thread2_at Top s = Some
     (if flag s then close2 (log_line (Killed Thread2) (goto2 Ended s))
      else if idx (th2 s) = 10 then goto2 Stale s
      else goto2 Receiving s)"
| "thread2_at Receiving s = Some (if \<not> fst (can_pipe s) then goto2 Stale s else case pipe_read (open1 s) (fd1 s) (rbuf (th2 s)) of
     Fails \<Rightarrow> goto2 Logging (perror ''Read unsuccessfull 2'' s)
   | Blocks \<Rightarrow> goto2 Waiting s
   | Returns bq \<Rightarrow> received2 s bq)"
| "thread2_at Waiting s = (case pipe_read True (fd1 s) (rbuf (th2 s)) of
     Returns bq \<Rightarrow> Some (received2 s bq)
   | _ \<Rightarrow> if open1 s then None else Some (goto2 Logging (perror ''Read unsuccessfull 2'' s)))"
| "thread2_at Logging s = Some (log_line (Got Thread2 (parse_packet (rbuf (th2 s)))) (goto2 Sending s))"
| "thread2_at Sending s = Some
     (if \<not> snd (can_pipe s) then goto2 Stale s else case pipe_write (open2 s) (fd2 s) (bytes_from (tbl (th2 s)) (beyond2 s (idx (th2 s))) (idx (th2 s))) of
       Fails \<Rightarrow> sent2 (perror ''Write unsuccessfull 2'' s)
     | Blocks \<Rightarrow> goto2 SendWaiting s
     | Returns q \<Rightarrow> sent2 (s\<lparr>fd2 := q\<rparr>))"
| "thread2_at SendWaiting s =
     (case pipe_write True (fd2 s) (bytes_from (tbl (th2 s)) (beyond2 s (idx (th2 s))) (idx (th2 s))) of
       Returns q \<Rightarrow> Some (sent2 (s\<lparr>fd2 := q\<rparr>))
     | _ \<Rightarrow> None)"
| "thread2_at Ended s = None"
| "thread2_at Stale s = None"

definition thread2_step :: "pipes \<Rightarrow> pipes option" where
  "thread2_step s = thread2_at (pc (th2 s)) s"

section \<open>The main thread and the signal\<close>

text \<open>\<open>main\<close> creates the pipes and the threads and waits for both.\<close>

definition make_pipes :: "pipes \<Rightarrow> pipes" where
  "make_pipes s = (let
     s = (if fst (can_pipe s) then s\<lparr>open1 := True\<rparr> else perror ''Pipe1 creation unsuccessfull'' s)
   in if snd (can_pipe s) then s\<lparr>open2 := True\<rparr> else perror ''Pipe 2 creation unsuccessfull'' s)"

primrec main_at :: "main_pc \<Rightarrow> pipes \<Rightarrow> pipes option" where
  "main_at MStart s = Some (make_pipes (log_line (Entering Main) s)\<lparr>mpc := MCreate1\<rparr>)"
| "main_at MCreate1 s = Some ((if fst (created s) = Made then goto1 Start s
     else perror (crlf @ ''Thread 1 creation failed: '') s)\<lparr>mpc := MCreate2\<rparr>)"
| "main_at MCreate2 s = Some ((if snd (created s) = Made then goto2 Start s
     else perror (crlf @ ''Thread 2 creation failed: '') s)\<lparr>mpc := MJoin1\<rparr>)"
| "main_at MJoin1 s = (case fst (created s) of
       Made \<Rightarrow> if pc (th1 s) = Ended then Some (s\<lparr>mpc := MJoin2\<rparr>) else None
     | Refused None \<Rightarrow> Some (s\<lparr>mpc := MLost\<rparr>)
     | Refused (Some status) \<Rightarrow> Some ((if status \<noteq> 0 then perror (crlf @ ''Thread 1 join unsuccessfull'') s else s)\<lparr>mpc := MJoin2\<rparr>))"
| "main_at MJoin2 s = (case snd (created s) of
       Made \<Rightarrow> if pc (th2 s) = Ended then Some (s\<lparr>mpc := MClose\<rparr>) else None
     | Refused None \<Rightarrow> Some (s\<lparr>mpc := MLost\<rparr>)
     | Refused (Some status) \<Rightarrow> Some ((if status \<noteq> 0 then perror (crlf @ ''Thread 2 join unsuccessfull'') s else s)\<lparr>mpc := MClose\<rparr>))"
| "main_at MClose s = Some ((log_line (Exiting Main) s)\<lparr>mpc := MDone\<rparr>)"
| "main_at MDone s = None"
| "main_at MLost s = None"

definition main_step :: "pipes \<Rightarrow> pipes option" where
  "main_step s = main_at (mpc s) s"

definition SIGINT :: int where
  "SIGINT = 2"

definition kill_thread_handler :: "int \<Rightarrow> pipes \<Rightarrow> pipes" where
  "kill_thread_handler num s = (if num = SIGINT then (printf (crlf @ ''USR2 triggered'') s)\<lparr>flag := True\<rparr> else s)"

text \<open>The call in which the thread that takes the signal is blocked fails.\<close>

definition full1 :: "pipes \<Rightarrow> bool" where
  "full1 s \<longleftrightarrow> pipe_capacity < length (fd1 s) + table_size"

definition full2 :: "pipes \<Rightarrow> bool" where
  "full2 s \<longleftrightarrow> pipe_capacity < length (fd2 s) + table_size"

fun interrupt :: "who \<Rightarrow> pipes \<Rightarrow> pipes" where
  "interrupt Main s = s"
| "interrupt Thread1 s =
     (if pc (th1 s) = Waiting \<and> fd2 s = [] then goto1 Logging (perror ''Read unsuccessfull 1'' s)
      else if pc (th1 s) = SendWaiting \<and> full1 s then sent1 (perror ''Write unsuccessfull 1'' s)
      else s)"
| "interrupt Thread2 s =
     (if pc (th2 s) = Waiting \<and> fd1 s = [] then goto2 Logging (perror ''Read unsuccessfull 2'' s)
      else if pc (th2 s) = SendWaiting \<and> full2 s then sent2 (perror ''Write unsuccessfull 2'' s)
      else s)"

inductive quiet_step :: "pipes \<Rightarrow> pipes \<Rightarrow> bool" where
  by_main: "main_step s = Some t \<Longrightarrow> quiet_step s t"
| by_thread1: "thread1_step s = Some t \<Longrightarrow> quiet_step s t"
| by_thread2: "thread2_step s = Some t \<Longrightarrow> quiet_step s t"

inductive step :: "pipes \<Rightarrow> pipes \<Rightarrow> bool" where
  by_thread: "quiet_step s t \<Longrightarrow> step s t"
| signal: "step s (kill_thread_handler SIGINT (interrupt w s))"

inductive_cases quiet_stepE: "quiet_step s t"
inductive_cases stepE: "step s t"

primrec pipes_act :: "act \<Rightarrow> pipes \<Rightarrow> pipes option" where
  "pipes_act (Run w) s = (case w of Main \<Rightarrow> main_step s | Thread1 \<Rightarrow> thread1_step s | Thread2 \<Rightarrow> thread2_step s)"
| "pipes_act (Interrupt w) s = Some (kill_thread_handler SIGINT (interrupt w s))"

lemma pipes_act_step: "pipes_act a s = Some t \<Longrightarrow> step s t"
  by (cases a) (auto split: who.splits intro: step.intros quiet_step.intros)

section \<open>What the threads have written and read\<close>

definition sent_bytes :: "packet list \<Rightarrow> (nat \<Rightarrow> nat \<Rightarrow> byte option) \<Rightarrow> nat \<Rightarrow> byte cells" where
  "sent_bytes t beyond n = concat (map (\<lambda>i. bytes_from t (beyond i) i) [0..<n])"

text \<open>How many reads a thread has behind it.\<close>

primrec reads1_at :: "pc \<Rightarrow> nat \<Rightarrow> nat" where
  "reads1_at NotStarted n = n" | "reads1_at Start n = n" | "reads1_at Top n = n"
| "reads1_at Sending n = n" | "reads1_at SendWaiting n = n"
| "reads1_at Receiving n = n - 1" | "reads1_at Waiting n = n - 1"
| "reads1_at Logging n = n" | "reads1_at Ended n = n" | "reads1_at Stale n = n"

primrec reads2_at :: "pc \<Rightarrow> nat \<Rightarrow> nat" where
  "reads2_at NotStarted n = n" | "reads2_at Start n = n" | "reads2_at Top n = n"
| "reads2_at Receiving n = n" | "reads2_at Waiting n = n"
| "reads2_at Logging n = Suc n" | "reads2_at Sending n = Suc n" | "reads2_at SendWaiting n = Suc n"
| "reads2_at Ended n = n" | "reads2_at Stale n = n"

definition reads1 :: "byte cells thread \<Rightarrow> nat" where
  "reads1 th = reads1_at (pc th) (idx th)"

definition reads2 :: "byte cells thread \<Rightarrow> nat" where
  "reads2 th = reads2_at (pc th) (idx th)"

lemma length_table_bytes:
  "(\<And>p. p \<in> set t \<Longrightarrow> wf_packet p) \<Longrightarrow> length (table_bytes t) = packet_size * length t"
  by (induction t) (simp_all add: table_bytes_def length_packet_bytes)

lemma length_bytes_from:
  "length (table_bytes t) = 480 \<Longrightarrow> i \<le> 10 \<Longrightarrow> length (bytes_from t b i) = 480"
  by (simp add: bytes_from_def packet_size_def)

lemma length_sent_bytes:
  "length (table_bytes t) = 480 \<Longrightarrow> n \<le> 10 \<Longrightarrow> length (sent_bytes t b n) = 480 * n"
  by (induction n) (simp_all add: sent_bytes_def length_bytes_from)

lemma sent_bytes_Suc: "sent_bytes t b (Suc n) = sent_bytes t b n @ bytes_from t (b n) n"
  by (simp add: sent_bytes_def)

lemma sent_bytes_first: "0 < n \<Longrightarrow> \<exists>rest. sent_bytes t b n = table_bytes t @ rest"
  by (cases n) (simp_all add: sent_bytes_def bytes_from_def upt_conv_Cons del: upt_Suc)

lemma table_bytes_nth:
  assumes "\<And>p. p \<in> set t \<Longrightarrow> wf_packet p" "k < length t"
  shows "take packet_size (drop (packet_size * k) (table_bytes t @ rest)) = packet_bytes (t ! k)"
  using assms
proof (induction t arbitrary: k)
  case (Cons p t)
  then have p: "length (packet_bytes p) = packet_size" by (simp add: length_packet_bytes)
  show ?case
  proof (cases k)
    case 0
    then show ?thesis using p by (simp add: table_bytes_def)
  next
    case (Suc j)
    have "drop (packet_size * k) (table_bytes (p # t) @ rest) = drop (packet_size * j) (table_bytes t @ rest)"
      using p Suc by (simp add: table_bytes_def)
    then show ?thesis using Cons.IH [of j] Cons.prems Suc by simp
  qed
qed simp

text \<open>The packet with number \<open>k\<close> in the stream of everything a thread has written is the packet
  with number \<open>k\<close> of its table, whatever lies behind the table.\<close>

lemma sent_bytes_packet:
  "(\<And>p. p \<in> set t \<Longrightarrow> wf_packet p) \<Longrightarrow> k < length t \<Longrightarrow> 0 < n \<Longrightarrow>
     take packet_size (drop (packet_size * k) (sent_bytes t b n)) = packet_bytes (t ! k)"
  using sent_bytes_first [of n t b] table_bytes_nth [of t k] by metis

lemma table_sizes [simp]: "length (table_bytes packets1) = 480" "length (table_bytes packets2) = 480"
  using length_table_bytes [of packets1] length_table_bytes [of packets2] wf_tables
  by (simp_all add: packet_size_def)

section \<open>What holds of every run\<close>

text \<open>\<open>q\<close> is what is left of \<open>n\<close> writes after at most \<open>m\<close> reads took a packet each.\<close>

definition behind :: "packet list \<Rightarrow> (nat \<Rightarrow> nat \<Rightarrow> byte option) \<Rightarrow> nat \<Rightarrow> nat \<Rightarrow> byte cells \<Rightarrow> bool" where
  "behind t b n m q \<longleftrightarrow> (\<exists>r \<le> m. r \<le> 10 * n \<and> q = drop (packet_size * r) (sent_bytes t b n))"

lemma behind_start: "behind t b 0 m []"
  unfolding behind_def by (rule exI [of _ 0]) (simp add: sent_bytes_def)

lemma behind_more: "behind t b n m q \<Longrightarrow> m \<le> m' \<Longrightarrow> behind t b n m' q"
  unfolding behind_def by (blast intro: le_trans)

lemma behind_write:
  "behind t b n m q \<Longrightarrow> length (table_bytes t) = 480 \<Longrightarrow> n \<le> 10 \<Longrightarrow>
     behind t b (Suc n) m (q @ bytes_from t (b n) n)"
  unfolding behind_def
  by (elim exE conjE, rule exI, intro conjI)
     (auto simp: sent_bytes_Suc length_sent_bytes packet_size_def)

lemma behind_read:
  assumes "behind t b n m q" "q \<noteq> []" "length (table_bytes t) = 480" "n \<le> 10"
  shows "behind t b n (Suc m) (drop packet_size q)"
proof -
  from assms(1) obtain r where r: "r \<le> m" "r \<le> 10 * n" "q = drop (packet_size * r) (sent_bytes t b n)"
    unfolding behind_def by blast
  with assms(2-4) have "r < 10 * n" by (auto simp: length_sent_bytes packet_size_def)
  with r show ?thesis unfolding behind_def
    by (intro exI [of _ "Suc r"]) (simp add: add.commute)
qed

lemma behind_room: "behind t b n m q \<Longrightarrow> length (table_bytes t) = 480 \<Longrightarrow> n \<le> 10 \<Longrightarrow> length q \<le> 4800"
  by (auto simp: behind_def length_sent_bytes)

lemma behind_nonempty:
  "behind t b n m q \<Longrightarrow> length (table_bytes t) = 480 \<Longrightarrow> n \<le> 10 \<Longrightarrow> 0 < n \<Longrightarrow> m < 10 \<Longrightarrow> q \<noteq> []"
  by (auto simp: behind_def length_sent_bytes packet_size_def)

text \<open>What holds of a thread at each place, signals included; \<open>op\<close>: its own pipe is open.\<close>

primrec safe1_at :: "pc \<Rightarrow> bool \<Rightarrow> 'b thread \<Rightarrow> bool" where
  "safe1_at NotStarted op th = (idx th = 0)"
| "safe1_at Start op th = (idx th = 0)"
| "safe1_at Top op th = (tbl th = packets1 \<and> idx th \<le> 10)"
| "safe1_at Sending op th = (tbl th = packets1 \<and> idx th < 10)"
| "safe1_at SendWaiting op th = (tbl th = packets1 \<and> idx th < 10)"
| "safe1_at Receiving op th = (tbl th = packets1 \<and> 0 < idx th \<and> idx th \<le> 10)"
| "safe1_at Waiting op th = (tbl th = packets1 \<and> 0 < idx th \<and> idx th \<le> 10)"
| "safe1_at Logging op th = (tbl th = packets1 \<and> 0 < idx th \<and> idx th \<le> 10)"
| "safe1_at Ended op th = (idx th = 10 \<or> \<not> op \<and> idx th \<le> 10)"
| "safe1_at Stale op th = False"

primrec safe2_at :: "pc \<Rightarrow> bool \<Rightarrow> 'b thread \<Rightarrow> bool" where
  "safe2_at NotStarted op th = (idx th = 0)"
| "safe2_at Start op th = (idx th = 0)"
| "safe2_at Top op th = (tbl th = packets2 \<and> idx th \<le> 10)"
| "safe2_at Sending op th = (tbl th = packets2 \<and> idx th < 10)"
| "safe2_at SendWaiting op th = (tbl th = packets2 \<and> idx th < 10)"
| "safe2_at Receiving op th = (tbl th = packets2 \<and> idx th < 10)"
| "safe2_at Waiting op th = (tbl th = packets2 \<and> idx th < 10)"
| "safe2_at Logging op th = (tbl th = packets2 \<and> idx th < 10)"
| "safe2_at Ended op th = (\<not> op \<and> idx th \<le> 10)"
| "safe2_at Stale op th = (idx th = 10)"

definition threads_ok :: "pipes \<Rightarrow> bool" where
  "threads_ok s \<longleftrightarrow> can_pipe s = (True, True) \<and> created s = (Made, Made) \<and> started (mpc s) (pc (th1 s)) (pc (th2 s))
     \<and> safe1_at (pc (th1 s)) (open1 s) (th1 s) \<and> safe2_at (pc (th2 s)) (open2 s) (th2 s)"

definition opened1 :: "pipes \<Rightarrow> bool" where
  "opened1 s \<longleftrightarrow> (if mpc s = MStart then fd1 s = [] else pc (th1 s) = Ended \<or> open1 s)"

definition opened2 :: "pipes \<Rightarrow> bool" where
  "opened2 s \<longleftrightarrow> (if mpc s = MStart then fd2 s = [] else pc (th2 s) = Ended \<or> open2 s)"

definition flow1 :: "pipes \<Rightarrow> bool" where
  "flow1 s \<longleftrightarrow> (open1 s \<longrightarrow> behind packets1 (beyond1 s) (idx (th1 s)) (reads2 (th2 s)) (fd1 s))"

definition flow2 :: "pipes \<Rightarrow> bool" where
  "flow2 s \<longleftrightarrow> (open2 s \<longrightarrow> behind packets2 (beyond2 s) (idx (th2 s)) (reads1 (th1 s)) (fd2 s))"

definition sound :: "pipes \<Rightarrow> bool" where
  "sound s \<longleftrightarrow> threads_ok s \<and> opened1 s \<and> opened2 s \<and> flow1 s \<and> flow2 s"

definition work :: "pipes \<Rightarrow> nat" where
  "work s = main_rank (mpc s) + left1 (th1 s) + left2 (th2 s)"

lemmas pipe_ops = make_pipes_def log_line_def perror_def printf_def goto1_def goto2_def sent1_def sent2_def received1_def
  received2_def pipe_write_def pipe_read_def close1_def close2_def Let_def

lemma idx1_le: "safe1_at (pc th) op th \<Longrightarrow> idx th \<le> 10"
  by (cases "pc th") auto

lemma idx2_le: "safe2_at (pc th) op th \<Longrightarrow> idx th \<le> 10"
  by (cases "pc th") auto

text \<open>Before the end of \<open>MStart\<close> no thread moves.\<close>

lemma not_start1: "threads_ok s \<Longrightarrow> thread1_step s = Some t \<Longrightarrow> mpc s \<noteq> MStart"
  by (auto simp: threads_ok_def thread1_step_def)

lemma not_start2: "threads_ok s \<Longrightarrow> thread2_step s = Some t \<Longrightarrow> mpc s \<noteq> MStart"
  by (auto simp: threads_ok_def thread2_step_def)

lemma threads_ok_thread1:
  "threads_ok s \<Longrightarrow> thread1_step s = Some t \<Longrightarrow> threads_ok t"
  using started_pc1 [of "mpc s" "pc (th1 s)" "pc (th2 s)"]
  by (cases "pc (th1 s)")
     (auto simp: thread1_step_def threads_ok_def pipe_ops fill_table1 split: if_splits)

lemma threads_ok_thread2:
  "threads_ok s \<Longrightarrow> thread2_step s = Some t \<Longrightarrow> threads_ok t"
  using started_pc2 [of "mpc s" "pc (th1 s)" "pc (th2 s)"]
  by (cases "pc (th2 s)")
     (auto simp: thread2_step_def threads_ok_def pipe_ops fill_table2 split: if_splits)

text \<open>What a step of one thread leaves alone.\<close>

lemma frame_thread1:
  assumes "thread1_step s = Some t"
  shows "mpc t = mpc s \<and> th2 t = th2 s \<and> open2 t = open2 s \<and> beyond1 t = beyond1 s \<and> beyond2 t = beyond2 s
     \<and> (open1 t = open1 s \<or> \<not> open1 t \<and> pc (th1 t) = Ended) \<and> pc (th1 s) \<noteq> Ended"
  using assms
  by (cases "pc (th1 s)")
     (auto simp: thread1_step_def pipe_ops fill_table1 split: if_splits)

lemma frame_thread2:
  assumes "thread2_step s = Some t"
  shows "mpc t = mpc s \<and> th1 t = th1 s \<and> open1 t = open1 s \<and> beyond1 t = beyond1 s \<and> beyond2 t = beyond2 s
     \<and> (open2 t = open2 s \<or> \<not> open2 t \<and> pc (th2 t) = Ended) \<and> pc (th2 s) \<noteq> Ended"
  using assms
  by (cases "pc (th2 s)")
     (auto simp: thread2_step_def pipe_ops fill_table2 split: if_splits)

lemma opened_thread1:
  assumes "threads_ok s" "opened1 s" "opened2 s" "thread1_step s = Some t"
  shows "opened1 t \<and> opened2 t"
  using assms(2,3) not_start1 [OF assms(1,4)] frame_thread1 [OF assms(4)]
  by (auto simp: opened1_def opened2_def)

lemma opened_thread2:
  assumes "threads_ok s" "opened1 s" "opened2 s" "thread2_step s = Some t"
  shows "opened1 t \<and> opened2 t"
  using assms(2,3) not_start2 [OF assms(1,4)] frame_thread2 [OF assms(4)]
  by (auto simp: opened1_def opened2_def)

text \<open>How a step changes what is in the pipes.\<close>

lemma flow1_thread1:
  assumes "idx (th1 s) \<le> 10" "safe1_at (pc (th1 s)) (open1 s) (th1 s)" "flow1 s" "thread1_step s = Some t"
  shows "flow1 t"
  using assms behind_write [of packets1 "beyond1 s" "idx (th1 s)" "reads2 (th2 s)" "fd1 s"]
  by (cases "pc (th1 s)")
     (auto simp: thread1_step_def flow1_def pipe_ops fill_table1 split: if_splits)

lemma flow2_thread1:
  assumes "idx (th2 s) \<le> 10" "safe1_at (pc (th1 s)) (open1 s) (th1 s)" "flow2 s" "thread1_step s = Some t"
  shows "flow2 t"
  using assms behind_read [of packets2 "beyond2 s" "idx (th2 s)" "reads1 (th1 s)" "fd2 s"]
    behind_more [of packets2 "beyond2 s" "idx (th2 s)" "reads1 (th1 s)" "fd2 s" "Suc (reads1 (th1 s))"]
  by (cases "pc (th1 s)")
     (auto simp: thread1_step_def flow2_def pipe_ops fill_table1 reads1_def split: if_splits)

lemma flow2_thread2:
  assumes "idx (th2 s) \<le> 10" "safe2_at (pc (th2 s)) (open2 s) (th2 s)" "flow2 s" "thread2_step s = Some t"
  shows "flow2 t"
  using assms behind_write [of packets2 "beyond2 s" "idx (th2 s)" "reads1 (th1 s)" "fd2 s"]
  by (cases "pc (th2 s)")
     (auto simp: thread2_step_def flow2_def pipe_ops fill_table2 split: if_splits)

lemma flow1_thread2:
  assumes "can_pipe s = (True, True)" "idx (th1 s) \<le> 10" "safe2_at (pc (th2 s)) (open2 s) (th2 s)" "flow1 s" "thread2_step s = Some t"
  shows "flow1 t"
  using assms behind_read [of packets1 "beyond1 s" "idx (th1 s)" "reads2 (th2 s)" "fd1 s"]
    behind_more [of packets1 "beyond1 s" "idx (th1 s)" "reads2 (th2 s)" "fd1 s" "Suc (reads2 (th2 s))"]
  by (cases "pc (th2 s)")
     (auto simp: thread2_step_def flow1_def pipe_ops fill_table2 reads2_def split: if_splits)

lemma sound_idx: "sound s \<Longrightarrow> idx (th1 s) \<le> 10 \<and> idx (th2 s) \<le> 10"
  unfolding sound_def threads_ok_def using idx1_le idx2_le by blast

lemma sound_thread1: "sound s \<Longrightarrow> thread1_step s = Some t \<Longrightarrow> sound t"
  using sound_idx [of s] threads_ok_thread1 [of s t] opened_thread1 [of s t] flow1_thread1 [of s t]
    flow2_thread1 [of s t]
  by (simp add: sound_def threads_ok_def)

lemma sound_thread2: "sound s \<Longrightarrow> thread2_step s = Some t \<Longrightarrow> sound t"
  using sound_idx [of s] threads_ok_thread2 [of s t] opened_thread2 [of s t] flow1_thread2 [of s t]
    flow2_thread2 [of s t]
  by (simp add: sound_def threads_ok_def)

lemma work_main: "main_step s = Some t \<Longrightarrow> started (mpc s) (pc (th1 s)) (pc (th2 s)) \<Longrightarrow> work t < work s"
  by (cases "mpc s")
     (auto simp: main_step_def work_def left1_def left2_def pipe_ops split: if_splits birth.splits option.splits)

lemma threads_ok_main: "threads_ok s \<Longrightarrow> main_step s = Some t \<Longrightarrow> threads_ok t"
  by (cases "mpc s")
     (auto simp: main_step_def threads_ok_def pipe_ops split: if_splits)

lemma opened_main:
  "threads_ok s \<Longrightarrow> opened1 s \<Longrightarrow> opened2 s \<Longrightarrow> main_step s = Some t \<Longrightarrow>
     opened1 t \<and> opened2 t"
  by (cases "mpc s")
     (auto simp: main_step_def threads_ok_def opened1_def opened2_def pipe_ops split: if_splits)

lemma flow_main:
  assumes "threads_ok s" "opened1 s" "opened2 s" "flow1 s" "flow2 s" "main_step s = Some t"
  shows "flow1 t \<and> flow2 t"
  using assms behind_start
  by (cases "mpc s")
     (auto simp: main_step_def threads_ok_def opened1_def opened2_def flow1_def flow2_def pipe_ops
        reads1_def reads2_def split: if_splits)

lemma sound_main: "sound s \<Longrightarrow> main_step s = Some t \<Longrightarrow> sound t"
  using threads_ok_main [of s t] opened_main [of s t] flow_main [of s t]
  by (simp add: sound_def threads_ok_def)

lemma work_thread1: "sound s \<Longrightarrow> thread1_step s = Some t \<Longrightarrow> work t < work s"
  by (cases "pc (th1 s)")
     (auto simp: sound_def threads_ok_def thread1_step_def work_def left1_def pipe_ops fill_table1
        split: if_splits)

lemma work_thread2: "sound s \<Longrightarrow> thread2_step s = Some t \<Longrightarrow> work t < work s"
  by (cases "pc (th2 s)")
     (auto simp: sound_def threads_ok_def thread2_step_def work_def left2_def pipe_ops fill_table2
        split: if_splits)

lemma sound_quiet:
  assumes "sound s" "quiet_step s t"
  shows "sound t \<and> work t < work s"
  using assms(2)
proof cases
  case by_main
  moreover have "started (mpc s) (pc (th1 s)) (pc (th2 s))"
    using assms(1) by (simp add: sound_def threads_ok_def)
  ultimately show ?thesis using sound_main [OF assms(1)] work_main by blast
next
  case by_thread1
  then show ?thesis using sound_thread1 [OF assms(1)] work_thread1 [OF assms(1)] by blast
next
  case by_thread2
  then show ?thesis using sound_thread2 [OF assms(1)] work_thread2 [OF assms(1)] by blast
qed

text \<open>No pipe is ever full, so no write blocks.\<close>

lemma not_full:
  assumes "sound s"
  shows "pc (th1 s) = SendWaiting \<Longrightarrow> \<not> full1 s" and "pc (th2 s) = SendWaiting \<Longrightarrow> \<not> full2 s"
proof -
  note i = sound_idx [OF assms]
  show "\<not> full1 s" if w: "pc (th1 s) = SendWaiting"
  proof -
    have "mpc s \<noteq> MStart" using assms w by (auto simp: sound_def threads_ok_def)
    with assms w have "flow1 s" "open1 s" by (simp_all add: sound_def opened1_def)
    then have "length (fd1 s) \<le> 4800"
      using i by (auto simp: flow1_def intro: behind_room)
    then show ?thesis by (simp add: full1_def pipe_capacity_def table_size_def)
  qed
  show "\<not> full2 s" if w: "pc (th2 s) = SendWaiting"
  proof -
    have "mpc s \<noteq> MStart" using assms w by (auto simp: sound_def threads_ok_def)
    with assms w have "flow2 s" "open2 s" by (simp_all add: sound_def opened2_def)
    then have "length (fd2 s) \<le> 4800"
      using i by (auto simp: flow2_def intro: behind_room)
    then show ?thesis by (simp add: full2_def pipe_capacity_def table_size_def)
  qed
qed

lemma sound_failed1:
  "sound s \<Longrightarrow> pc (th1 s) = Waiting \<Longrightarrow> sound (goto1 Logging (perror m s))"
  using started_pc1 [of "mpc s" "pc (th1 s)" "pc (th2 s)"]
    behind_more [of packets2 "beyond2 s" "idx (th2 s)" "reads1 (th1 s)" "fd2 s" "Suc (reads1 (th1 s))"]
  by (auto simp: sound_def threads_ok_def opened1_def opened2_def flow1_def flow2_def pipe_ops reads1_def)

lemma sound_failed2:
  "sound s \<Longrightarrow> pc (th2 s) = Waiting \<Longrightarrow> sound (goto2 Logging (perror m s))"
  using started_pc2 [of "mpc s" "pc (th1 s)" "pc (th2 s)"]
    behind_more [of packets1 "beyond1 s" "idx (th1 s)" "reads2 (th2 s)" "fd1 s" "Suc (reads2 (th2 s))"]
  by (auto simp: sound_def threads_ok_def opened1_def opened2_def flow1_def flow2_def pipe_ops reads2_def)

lemma sound_interrupt: "sound s \<Longrightarrow> sound (interrupt w s)"
  using not_full [of s] sound_failed1 [of s] sound_failed2 [of s] by (cases w) auto

lemma work_interrupt: "sound s \<Longrightarrow> work (interrupt w s) \<le> work s"
  using not_full [of s]
  by (cases w) (auto simp: work_def left1_def left2_def pipe_ops)

lemma sound_flag: "sound ((printf m s)\<lparr>flag := f\<rparr>) = sound s" and work_flag: "work ((printf m s)\<lparr>flag := f\<rparr>) = work s"
  by (simp_all add: printf_def sound_def threads_ok_def opened1_def opened2_def flow1_def flow2_def work_def)

lemma sound_signal:
  "sound s \<Longrightarrow> sound (kill_thread_handler SIGINT (interrupt w s))
     \<and> work (kill_thread_handler SIGINT (interrupt w s)) \<le> work s"
  using sound_interrupt [of s w] work_interrupt [of s w]
  by (simp add: kill_thread_handler_def sound_flag work_flag)

lemma sound_act:
  "sound s \<Longrightarrow> pipes_act a s = Some t \<Longrightarrow>
     sound t \<and> (case a of Run w \<Rightarrow> work t < work s | Interrupt w \<Rightarrow> work t \<le> work s)"
  using sound_signal [of s] sound_quiet [of s t]
  by (cases a) (auto split: who.splits intro: quiet_step.intros)

section \<open>No deadlock\<close>

lemma pipes_live:
  assumes "sound s" "mpc s \<noteq> MDone" "pc (th2 s) \<noteq> Stale"
  shows "\<exists>t. quiet_step s t"
proof (rule ccontr)
  assume "\<nexists>t. quiet_step s t"
  then have stuck: "main_step s = None" "thread1_step s = None" "thread2_step s = None"
    by (meson not_None_eq quiet_step.intros)+
  have ok: "threads_ok s" and f: "flow1 s" "flow2 s" using assms(1) by (simp_all add: sound_def)
  note i = sound_idx [OF assms(1)]
  have join: "mpc s = MJoin1 \<and> pc (th1 s) \<noteq> Ended \<or> mpc s = MJoin2 \<and> pc (th1 s) = Ended \<and> pc (th2 s) \<noteq> Ended"
    using stuck(1) assms(2) ok
    by (cases "mpc s") (auto simp: main_step_def threads_ok_def split: if_splits)
  then have started: "pc (th1 s) \<noteq> NotStarted" "pc (th2 s) \<noteq> NotStarted"
    using ok by (auto simp: threads_ok_def)
  have one: "pc (th1 s) = Ended \<or> pc (th1 s) = Waiting \<and> fd2 s = [] \<and> open2 s"
    using stuck(2) started(1) ok not_full(1) [OF assms(1)]
    by (cases "pc (th1 s)")
       (auto simp: thread1_step_def threads_ok_def fill_table1 pipe_read_def pipe_write_def full1_def
          table_size_def length_bytes_from split: if_splits)
  have two: "pc (th2 s) = Ended \<or> pc (th2 s) = Waiting \<and> fd1 s = [] \<and> open1 s"
    using stuck(3) started(2) ok assms(3) not_full(2) [OF assms(1)]
    by (cases "pc (th2 s)")
       (auto simp: thread2_step_def threads_ok_def fill_table2 pipe_read_def pipe_write_def full2_def
          table_size_def length_bytes_from split: if_splits)
  have first: "idx (th1 s) = 0" if "pc (th2 s) = Waiting" "fd1 s = []" "open1 s"
    using that f(1) i ok behind_nonempty [of packets1 "beyond1 s" "idx (th1 s)" "reads2 (th2 s)" "[]"]
    by (auto simp: flow1_def reads2_def threads_ok_def)
  have second: "idx (th2 s) = 0" if "pc (th1 s) = Waiting" "fd2 s = []" "open2 s"
  proof -
    have "0 < idx (th1 s)" using that(1) ok by (simp add: threads_ok_def)
    then have "reads1 (th1 s) < 10" using i that(1) unfolding reads1_def by simp linarith
    then show ?thesis
      using that f(2) i behind_nonempty [of packets2 "beyond2 s" "idx (th2 s)" "reads1 (th1 s)" "[]"]
      by (auto simp: flow2_def)
  qed
  from join one two first second ok show False
    by (auto simp: threads_ok_def)
qed

lemma sound_init: "sound (pipes_start b1 b2)"
  by (simp add: sound_def pipes_start_def pipes_init_def threads_ok_def opened1_def opened2_def flow1_def flow2_def
      new_thread_def)

lemma sound_run:
  "sound s \<Longrightarrow> run pipes_act as s = Some t \<Longrightarrow>
     sound t \<and> length (filter is_run as) + work t \<le> work s"
proof (induction as arbitrary: s)
  case (Cons a as)
  then obtain u where u: "pipes_act a s = Some u" "run pipes_act as u = Some t"
    by (auto split: option.splits)
  then show ?case
    using sound_act [OF Cons.prems(1) u(1)] Cons.IH [of u] by (cases a) auto
qed simp

section \<open>Which packets are logged\<close>

primrec logged1_at :: "pc \<Rightarrow> nat \<Rightarrow> nat" where
  "logged1_at NotStarted n = n" | "logged1_at Start n = n" | "logged1_at Top n = n"
| "logged1_at Sending n = n" | "logged1_at SendWaiting n = n"
| "logged1_at Receiving n = n - 1" | "logged1_at Waiting n = n - 1"
| "logged1_at Logging n = n - 1" | "logged1_at Ended n = n" | "logged1_at Stale n = n"

primrec logged2_at :: "pc \<Rightarrow> nat \<Rightarrow> nat" where
  "logged2_at NotStarted n = n" | "logged2_at Start n = n" | "logged2_at Top n = n"
| "logged2_at Receiving n = n" | "logged2_at Waiting n = n" | "logged2_at Logging n = n"
| "logged2_at Sending n = Suc n" | "logged2_at SendWaiting n = Suc n"
| "logged2_at Ended n = n" | "logged2_at Stale n = n"

text \<open>Without a signal a pipe holds everything written and not yet read, a thread that is about to
  log holds the next packet of the other's table, and has logged those before.\<close>

definition exact1 :: "pipes \<Rightarrow> bool" where
  "exact1 s \<longleftrightarrow> reads2 (th2 s) \<le> 10 * idx (th1 s)
     \<and> fd1 s = drop (packet_size * reads2 (th2 s)) (sent_bytes packets1 (beyond1 s) (idx (th1 s)))
     \<and> length (rbuf (th2 s)) = packet_size
     \<and> (pc (th2 s) = Logging \<longrightarrow> rbuf (th2 s) = packet_bytes (packets1 ! idx (th2 s)))
     \<and> got Thread2 (log s) = take (logged2_at (pc (th2 s)) (idx (th2 s))) packets1"

definition exact2 :: "pipes \<Rightarrow> bool" where
  "exact2 s \<longleftrightarrow> reads1 (th1 s) \<le> 10 * idx (th2 s)
     \<and> fd2 s = drop (packet_size * reads1 (th1 s)) (sent_bytes packets2 (beyond2 s) (idx (th2 s)))
     \<and> length (rbuf (th1 s)) = packet_size
     \<and> (pc (th1 s) = Logging \<longrightarrow> rbuf (th1 s) = packet_bytes (packets2 ! (idx (th1 s) - 1)))
     \<and> got Thread1 (log s) = take (logged1_at (pc (th1 s)) (idx (th1 s))) packets2"

text \<open>A read takes the packet whose number is the number of reads before it.\<close>

lemma read_packet:
  assumes "\<And>p. p \<in> set t \<Longrightarrow> wf_packet p" "k < length t" "k \<le> 10 * n" "n \<le> 10" "length t = 10"
    and "q = drop (packet_size * k) (sent_bytes t b n)" "q \<noteq> []" "length r = packet_size"
  shows "put r 0 (take packet_size q) = packet_bytes (t ! k) \<and> packet_size \<le> length q \<and> Suc k \<le> 10 * n"
proof -
  have len: "length (sent_bytes t b n) = 480 * n"
    using length_table_bytes [of t] assms(1,4,5) by (intro length_sent_bytes) (auto simp: packet_size_def)
  with assms(6,7) have "packet_size * k < 480 * n" by auto
  then have k: "k < 10 * n" by (simp add: packet_size_def)
  then have "take packet_size q = packet_bytes (t ! k)"
    using assms(1,2,6) by (auto intro!: sent_bytes_packet)
  moreover have "packet_size \<le> length q" using k len assms(6) by (simp add: packet_size_def)
  ultimately show ?thesis using k assms(1,2,8) by (simp add: put_def length_packet_bytes)
qed

lemma exact1_thread1:
  assumes safe: "safe1_at (pc (th1 s)) (open1 s) (th1 s)" and op: "open1 s"
    and i: "idx (th1 s) \<le> 10" and nf: "\<not> flag s" and ex: "exact1 s" and st: "thread1_step s = Some t"
  shows "exact1 t"
proof -
  have fr: "th2 t = th2 s" "beyond1 t = beyond1 s" "got Thread2 (log t) = got Thread2 (log s)"
    using st by (cases "pc (th1 s)"; auto simp: thread1_step_def pipe_ops fill_table1 split: if_splits)+
  have "idx (th1 t) = idx (th1 s) \<and> fd1 t = fd1 s
    \<or> idx (th1 t) = Suc (idx (th1 s))
      \<and> fd1 t = fd1 s @ bytes_from packets1 (beyond1 s (idx (th1 s))) (idx (th1 s))"
    using st safe nf op
    by (cases "pc (th1 s)") (auto simp: thread1_step_def pipe_ops fill_table1 split: if_splits)
  then show ?thesis
  proof
    assume "idx (th1 t) = idx (th1 s) \<and> fd1 t = fd1 s"
    with ex fr show ?thesis by (simp add: exact1_def)
  next
    assume "idx (th1 t) = Suc (idx (th1 s))
      \<and> fd1 t = fd1 s @ bytes_from packets1 (beyond1 s (idx (th1 s))) (idx (th1 s))"
    with ex fr i show ?thesis
      by (simp add: exact1_def sent_bytes_Suc length_sent_bytes packet_size_def)
  qed
qed

lemma exact2_received1:
  assumes "pc (th1 s) = Receiving \<or> pc (th1 s) = Waiting" "0 < idx (th1 s)" "idx (th1 s) \<le> 10"
    and "idx (th2 s) \<le> 10" "exact2 s" "fd2 s \<noteq> []"
  shows "exact2 (received1 s (put (rbuf (th1 s)) 0 (take packet_size (fd2 s)), drop packet_size (fd2 s)))"
proof -
  have r: "reads1 (th1 s) = idx (th1 s) - 1" using assms(1) by (auto simp: reads1_def)
  have "put (rbuf (th1 s)) 0 (take packet_size (fd2 s)) = packet_bytes (packets2 ! (idx (th1 s) - 1))
      \<and> packet_size \<le> length (fd2 s) \<and> Suc (idx (th1 s) - 1) \<le> 10 * idx (th2 s)"
    using assms r wf_tables(2)
    by (intro read_packet [where b = "beyond2 s"]) (auto simp: exact2_def)
  moreover obtain n where "idx (th1 s) = Suc n" using assms(2) by (cases "idx (th1 s)") auto
  ultimately show ?thesis
    using assms(1,5) r length_packet_bytes [of "packets2 ! n"] wf_tables(2) [of "packets2 ! n"] assms(3)
    by (auto simp: exact2_def received1_def perror_def Let_def reads1_def)
qed

lemma exact2_thread1:
  assumes safe: "safe1_at (pc (th1 s)) (open1 s) (th1 s)" and op: "open2 s" "can_pipe s = (True, True)"
    and i: "idx (th2 s) \<le> 10" and nf: "\<not> flag s" and ex: "exact2 s" and st: "thread1_step s = Some t"
  shows "exact2 t"
proof (cases "(pc (th1 s) = Receiving \<or> pc (th1 s) = Waiting) \<and> fd2 s \<noteq> []")
  case True
  moreover from True safe have "0 < idx (th1 s)" "idx (th1 s) \<le> 10" by auto
  moreover from True st op
  have "t = received1 s (put (rbuf (th1 s)) 0 (take packet_size (fd2 s)), drop packet_size (fd2 s))"
    by (auto simp: thread1_step_def pipe_read_def)
  ultimately show ?thesis using exact2_received1 i ex by simp
next
  case False
  show ?thesis
  proof (cases "pc (th1 s) = Logging")
    case True
    then obtain n where n: "idx (th1 s) = Suc n" "n < 10"
      using safe by (cases "idx (th1 s)") auto
    with wf_tables(2) [of "packets2 ! n"] have "parse_packet (packet_bytes (packets2 ! n)) = packets2 ! n"
      by (intro parse_packet_bytes) simp
    with True n ex st show ?thesis
      by (auto simp: thread1_step_def exact2_def pipe_ops reads1_def take_Suc_conv_app_nth)
  next
    case notlog: False
    with False safe op nf ex st show ?thesis
      by (cases "pc (th1 s)")
         (auto simp: thread1_step_def exact2_def pipe_ops fill_table1 reads1_def split: if_splits)
  qed
qed

lemma exact2_thread2:
  assumes safe: "safe2_at (pc (th2 s)) (open2 s) (th2 s)" and op: "open2 s"
    and i: "idx (th2 s) \<le> 10" and nf: "\<not> flag s" and ex: "exact2 s" and st: "thread2_step s = Some t"
  shows "exact2 t"
proof -
  have fr: "th1 t = th1 s" "beyond2 t = beyond2 s" "got Thread1 (log t) = got Thread1 (log s)"
    using st by (cases "pc (th2 s)"; auto simp: thread2_step_def pipe_ops fill_table2 split: if_splits)+
  have "idx (th2 t) = idx (th2 s) \<and> fd2 t = fd2 s
    \<or> idx (th2 t) = Suc (idx (th2 s))
      \<and> fd2 t = fd2 s @ bytes_from packets2 (beyond2 s (idx (th2 s))) (idx (th2 s))"
    using st safe nf op
    by (cases "pc (th2 s)") (auto simp: thread2_step_def pipe_ops fill_table2 split: if_splits)
  then show ?thesis
  proof
    assume "idx (th2 t) = idx (th2 s) \<and> fd2 t = fd2 s"
    with ex fr show ?thesis by (simp add: exact2_def)
  next
    assume "idx (th2 t) = Suc (idx (th2 s))
      \<and> fd2 t = fd2 s @ bytes_from packets2 (beyond2 s (idx (th2 s))) (idx (th2 s))"
    with ex fr i show ?thesis
      by (simp add: exact2_def sent_bytes_Suc length_sent_bytes packet_size_def)
  qed
qed

lemma exact1_received2:
  assumes "pc (th2 s) = Receiving \<or> pc (th2 s) = Waiting" "idx (th2 s) < 10" "idx (th1 s) \<le> 10"
    and "exact1 s" "fd1 s \<noteq> []"
  shows "exact1 (received2 s (put (rbuf (th2 s)) 0 (take packet_size (fd1 s)), drop packet_size (fd1 s)))"
proof -
  have r: "reads2 (th2 s) = idx (th2 s)" using assms(1) by (auto simp: reads2_def)
  have "put (rbuf (th2 s)) 0 (take packet_size (fd1 s)) = packet_bytes (packets1 ! idx (th2 s))
      \<and> packet_size \<le> length (fd1 s) \<and> Suc (idx (th2 s)) \<le> 10 * idx (th1 s)"
    using assms r wf_tables(1)
    by (intro read_packet [where b = "beyond1 s"]) (auto simp: exact1_def)
  then show ?thesis
    using assms r length_packet_bytes [of "packets1 ! idx (th2 s)"] wf_tables(1) [of "packets1 ! idx (th2 s)"]
    by (auto simp: exact1_def received2_def perror_def Let_def reads2_def)
qed

lemma exact1_thread2:
  assumes safe: "safe2_at (pc (th2 s)) (open2 s) (th2 s)" and op: "open1 s" "open2 s" "can_pipe s = (True, True)"
    and i: "idx (th1 s) \<le> 10" and nf: "\<not> flag s" and ex: "exact1 s" and st: "thread2_step s = Some t"
  shows "exact1 t"
proof (cases "(pc (th2 s) = Receiving \<or> pc (th2 s) = Waiting) \<and> fd1 s \<noteq> []")
  case True
  moreover from True safe have "idx (th2 s) < 10" by auto
  moreover from True st op
  have "t = received2 s (put (rbuf (th2 s)) 0 (take packet_size (fd1 s)), drop packet_size (fd1 s))"
    by (auto simp: thread2_step_def pipe_read_def)
  ultimately show ?thesis using exact1_received2 i ex by simp
next
  case False
  show ?thesis
  proof (cases "pc (th2 s) = Logging")
    case True
    then have n: "idx (th2 s) < 10" using safe by simp
    with wf_tables(1) [of "packets1 ! idx (th2 s)"]
    have "parse_packet (packet_bytes (packets1 ! idx (th2 s))) = packets1 ! idx (th2 s)"
      by (intro parse_packet_bytes) simp
    with True n ex st show ?thesis
      by (auto simp: thread2_step_def exact1_def pipe_ops reads2_def take_Suc_conv_app_nth)
  next
    case notlog: False
    with False safe op nf ex st show ?thesis
      by (cases "pc (th2 s)")
         (auto simp: thread2_step_def exact1_def pipe_ops fill_table2 reads2_def split: if_splits)
  qed
qed

definition exact :: "pipes \<Rightarrow> bool" where
  "exact s \<longleftrightarrow> \<not> flag s \<and> (mpc s \<noteq> MStart \<longrightarrow> open1 s \<and> open2 s) \<and> exact1 s \<and> exact2 s"

lemma exact_main: "threads_ok s \<Longrightarrow> exact s \<Longrightarrow> main_step s = Some t \<Longrightarrow> exact t"
  by (cases "mpc s")
     (auto simp: main_step_def threads_ok_def exact_def exact1_def exact2_def pipe_ops reads1_def
        reads2_def split: if_splits)

lemma flag_frame:
  "thread1_step s = Some t \<Longrightarrow> flag t = flag s \<and> (flag s \<or> open1 t = open1 s)"
  "thread2_step s = Some t \<Longrightarrow> flag t = flag s \<and> (flag s \<or> open2 t = open2 s)"
  by (cases "pc (th1 s)"; auto simp: thread1_step_def pipe_ops fill_table1 split: if_splits)
     (cases "pc (th2 s)"; auto simp: thread2_step_def pipe_ops fill_table2 split: if_splits)

lemma exact_thread1:
  assumes "sound s" "exact s" "thread1_step s = Some t"
  shows "exact t"
proof -
  have ok: "threads_ok s" and i: "idx (th1 s) \<le> 10" "idx (th2 s) \<le> 10" and cp: "can_pipe s = (True, True)"
    using assms(1) sound_idx [OF assms(1)] by (simp_all add: sound_def threads_ok_def)
  have m: "mpc s \<noteq> MStart" using not_start1 [OF ok assms(3)] .
  with assms(2) have op: "open1 s" "open2 s" "\<not> flag s" "exact1 s" "exact2 s" by (simp_all add: exact_def)
  have safe: "safe1_at (pc (th1 s)) (open1 s) (th1 s)" using ok by (simp add: threads_ok_def)
  show ?thesis
    using exact1_thread1 [OF safe op(1) i(1) op(3,4) assms(3)] exact2_thread1 [OF safe op(2) cp i(2) op(3,5) assms(3)]
      frame_thread1 [OF assms(3)] flag_frame(1) [OF assms(3)] op m
    by (simp add: exact_def)
qed

lemma exact_thread2:
  assumes "sound s" "exact s" "thread2_step s = Some t"
  shows "exact t"
proof -
  have ok: "threads_ok s" and i: "idx (th1 s) \<le> 10" "idx (th2 s) \<le> 10" and cp: "can_pipe s = (True, True)"
    using assms(1) sound_idx [OF assms(1)] by (simp_all add: sound_def threads_ok_def)
  have m: "mpc s \<noteq> MStart" using not_start2 [OF ok assms(3)] .
  with assms(2) have op: "open1 s" "open2 s" "\<not> flag s" "exact1 s" "exact2 s" by (simp_all add: exact_def)
  have safe: "safe2_at (pc (th2 s)) (open2 s) (th2 s)" using ok by (simp add: threads_ok_def)
  show ?thesis
    using exact1_thread2 [OF safe op(1,2) cp i(1) op(3,4) assms(3)] exact2_thread2 [OF safe op(2) i(2) op(3,5) assms(3)]
      frame_thread2 [OF assms(3)] flag_frame(2) [OF assms(3)] op m
    by (simp add: exact_def)
qed

lemma exact_reach:
  assumes "quiet_step\<^sup>*\<^sup>* (pipes_start b1 b2) s"
  shows "sound s \<and> exact s"
  using assms
proof (induction rule: rtranclp_induct)
  case base
  show ?case
    by (simp add: sound_init) (simp add: exact_def exact1_def exact2_def pipes_start_def pipes_init_def new_thread_def
        reads1_def reads2_def sent_bytes_def packet_size_def)
next
  case (step s t)
  from step.hyps(2) have "exact t"
  proof cases
    case by_main
    then show ?thesis using exact_main step.IH by (auto simp: sound_def)
  next
    case by_thread1
    then show ?thesis using exact_thread1 step.IH by blast
  next
    case by_thread2
    then show ?thesis using exact_thread2 step.IH by blast
  qed
  with sound_quiet step show ?case by blast
qed

lemma pipes_end:
  assumes "sound s" "exact s" "\<forall>t. \<not> quiet_step s t"
  shows "idx (th2 s) = 10 \<and> pc (th2 s) = Stale \<and> idx (th1 s) = 10 \<and> pc (th1 s) = Ended"
proof -
  have ok: "threads_ok s" and f: "flow2 s" and st: "opened2 s" using assms(1) by (simp_all add: sound_def)
  note i = sound_idx [OF assms(1)]
  have m: "mpc s \<noteq> MDone"
    using ok assms(2) by (auto simp: threads_ok_def exact_def)
  with pipes_live assms have stale: "pc (th2 s) = Stale" by blast
  then have two: "idx (th2 s) = 10" and op: "open1 s" "open2 s"
    using ok assms(2) by (auto simp: threads_ok_def exact_def)
  have no: "thread1_step s = None" "main_step s = None" using assms(3) by (meson not_None_eq quiet_step.intros)+
  then have "pc (th1 s) \<noteq> NotStarted"
    using ok stale by (cases "mpc s") (auto simp: main_step_def threads_ok_def)
  moreover have "\<not> (pc (th1 s) = Waiting \<and> fd2 s = [])"
  proof
    assume w: "pc (th1 s) = Waiting \<and> fd2 s = []"
    then have "0 < idx (th1 s)" using ok by (auto simp: threads_ok_def)
    then have "reads1 (th1 s) < 10" using i w unfolding reads1_def by simp linarith
    then show False
      using f op(2) two w behind_nonempty [of packets2 "beyond2 s" "idx (th2 s)" "reads1 (th1 s)" "[]"]
      by (auto simp: flow2_def)
  qed
  ultimately have "pc (th1 s) = Ended"
    using no(1) ok not_full(1) [OF assms(1)] op
    by (cases "pc (th1 s)")
       (auto simp: thread1_step_def threads_ok_def fill_table1 pipe_read_def pipe_write_def full1_def
          table_size_def length_bytes_from split: if_splits)
  moreover from this have "idx (th1 s) = 10" using ok op by (simp add: threads_ok_def)
  ultimately show ?thesis using stale two by simp
qed

section \<open>One thread can run ahead\<close>

text \<open>While thread 1 waits for its first answer, thread 2 goes through a whole round.\<close>

definition ahead :: "nat \<Rightarrow> pipes \<Rightarrow> bool" where
  "ahead k s \<longleftrightarrow> idx (th1 s) = 1 \<and> pc (th1 s) = Receiving \<and> idx (th2 s) = k \<and> pc (th2 s) = Top
     \<and> mpc s = MJoin1"

lemma thread2_round:
  assumes "sound s" "exact s" "ahead k s" "k < 10"
  shows "\<exists>t. quiet_step\<^sup>*\<^sup>* s t \<and> ahead (Suc k) t"
proof -
  have op: "open1 s" "open2 s" "\<not> flag s" "can_pipe s = (True, True)" and ex: "exact1 s" and fl: "flow2 s" and tb: "tbl (th2 s) = packets2"
    and i: "idx (th1 s) = 1" "idx (th2 s) = k" "pc (th2 s) = Top"
    using assms by (simp_all add: exact_def ahead_def sound_def threads_ok_def)
  let ?b = "put (rbuf (th2 s)) 0 (take packet_size (fd1 s))" and ?q = "drop packet_size (fd1 s)"
  let ?s1 = "goto2 Receiving s"
  let ?s2 = "received2 ?s1 (?b, ?q)"
  let ?s3 = "log_line (Got Thread2 (parse_packet ?b)) (goto2 Sending ?s2)"
  let ?bs = "bytes_from packets2 (beyond2 s k) k"
  let ?s4 = "sent2 (?s3\<lparr>fd2 := fd2 s @ ?bs\<rparr>)"
  have ne: "fd1 s \<noteq> []"
    using ex i assms(4) by (simp add: exact1_def reads2_def length_sent_bytes packet_size_def flip: length_greater_0_conv)
  have room: "length (fd2 s) \<le> 4800"
    using fl op(2) i assms(4) by (auto simp: flow2_def intro: behind_room)
  have b: "length ?bs = 480" using assms(4) by (intro length_bytes_from) auto
  have "thread2_step s = Some ?s1" using i op assms(4) by (simp add: thread2_step_def)
  moreover have "thread2_step ?s1 = Some ?s2"
    using op ne by (simp add: thread2_step_def goto2_def pipe_read_def)
  moreover have "thread2_step ?s2 = Some ?s3"
    by (simp add: thread2_step_def received2_def perror_def Let_def goto2_def log_line_def)
  moreover have "thread2_step ?s3 = Some ?s4"
    using op room b i tb
    by (simp add: thread2_step_def received2_def perror_def Let_def goto2_def log_line_def pipe_write_def
        pipe_capacity_def)
  ultimately have "quiet_step\<^sup>*\<^sup>* s ?s4"
    by (meson by_thread2 rtranclp.rtrancl_into_rtrancl rtranclp.rtrancl_refl)
  moreover have "ahead (Suc k) ?s4"
    using assms(3) by (simp add: ahead_def pipe_ops)
  ultimately show ?thesis by blast
qed

lemma first_write: "\<exists>s. quiet_step\<^sup>*\<^sup>* (pipes_start b1 b2) s \<and> ahead 0 s"
proof -
  let ?acts = "map Run [Main, Main, Main, Thread1, Thread1, Thread1, Thread2]"
  have room: "length (bytes_from packets1 (b1 0) 0) = 480" by (intro length_bytes_from) auto
  obtain s where s: "run (\<lambda>w. pipes_act (Run w)) [Main, Main, Main, Thread1, Thread1, Thread1, Thread2]
      (pipes_start b1 b2) = Some s" and "ahead 0 s"
    by (simp add: main_step_def thread1_step_def thread2_step_def pipes_start_def pipes_init_def new_thread_def pipe_ops
        fill_table1 fill_table2 room pipe_capacity_def ahead_def)
  moreover have "quiet_step\<^sup>*\<^sup>* (pipes_start b1 b2) s"
    by (rule run_reaches [OF _ s]) (auto split: who.splits intro: quiet_step.intros)
  ultimately show ?thesis by blast
qed

lemma runs_ahead: "k \<le> 10 \<Longrightarrow> \<exists>s. quiet_step\<^sup>*\<^sup>* (pipes_start b1 b2) s \<and> ahead k s"
proof (induction k)
  case 0
  show ?case by (rule first_write)
next
  case (Suc k)
  then obtain s where s: "quiet_step\<^sup>*\<^sup>* (pipes_start b1 b2) s" "ahead k s" by auto
  with exact_reach [OF s(1)] thread2_round [of s k] Suc.prems
  obtain t where "quiet_step\<^sup>*\<^sup>* s t" "ahead (Suc k) t" by auto
  with s(1) show ?case by (meson rtranclp_trans)
qed

section \<open>Joining the threads\<close>

lemma pjoins_main:
  "main_step s = Some t \<Longrightarrow> created t = created s \<and> mpc t \<in> main_moves (created s) (mpc s)
     \<and> (fst (created s) = Made \<or> th1 t = th1 s) \<and> (snd (created s) = Made \<or> th2 t = th2 s)
     \<and> (stage MJoin1 < stage (mpc s) \<longrightarrow> th1 t = th1 s) \<and> (stage MJoin2 < stage (mpc s) \<longrightarrow> th2 t = th2 s)
     \<and> (Exiting Main \<in> set (log t) \<longrightarrow> Exiting Main \<in> set (log s) \<or> mpc t = MDone) \<and> set (err s) \<subseteq> set (err t)"
  by (cases "mpc s")
     (auto simp: main_step_def pipe_ops fill_table1 fill_table2 after_join_def split: if_splits birth.splits option.splits)

lemma pjoins_passed:
  "main_step s = Some t \<Longrightarrow> (mpc s = MJoin1 \<and> fst (created s) = Made \<longrightarrow> pc (th1 t) = Ended)
     \<and> (mpc s = MJoin2 \<and> snd (created s) = Made \<longrightarrow> pc (th2 t) = Ended)
     \<and> (fails_at (created s) (mpc s) \<longrightarrow> complaint (mpc s) \<in> set (err t))"
  by (cases "mpc s")
     (auto simp: main_step_def pipe_ops fill_table1 fill_table2 bad_join_def split: if_splits birth.splits option.splits)

lemma pjoins_thread1:
  "thread1_step s = Some t \<Longrightarrow> created t = created s \<and> mpc t = mpc s \<and> pc (th1 s) \<noteq> NotStarted
     \<and> pc (th1 s) \<noteq> Ended \<and> th2 t = th2 s
     \<and> (Exiting Main \<in> set (log t)) = (Exiting Main \<in> set (log s)) \<and> set (err s) \<subseteq> set (err t)"
  by (cases "pc (th1 s)")
     (auto simp: thread1_step_def pipe_ops fill_table1 fill_table2 bind_eq_Some_conv split: if_splits)

lemma pjoins_thread2:
  "thread2_step s = Some t \<Longrightarrow> created t = created s \<and> mpc t = mpc s \<and> pc (th2 s) \<noteq> NotStarted
     \<and> pc (th2 s) \<noteq> Ended \<and> th1 t = th1 s
     \<and> (Exiting Main \<in> set (log t)) = (Exiting Main \<in> set (log s)) \<and> set (err s) \<subseteq> set (err t)"
  by (cases "pc (th2 s)")
     (auto simp: thread2_step_def pipe_ops fill_table1 fill_table2 bind_eq_Some_conv split: if_splits)

interpretation pjoin: main_joins step main_step thread1_step thread2_step
  "\<lambda>w s. kill_thread_handler SIGINT (interrupt w s)" mpc created
  "\<lambda>s. pc (th1 s) = NotStarted" "\<lambda>s. pc (th2 s) = NotStarted" "\<lambda>s. pc (th1 s) = Ended" "\<lambda>s. pc (th2 s) = Ended"
  "\<lambda>s. Exiting Main \<in> set (log s)" "\<lambda>p s. complaint p \<in> set (err s)"
proof
  fix s t w p
  show "main_step s = Some t \<or> thread1_step s = Some t \<or> thread2_step s = Some t
    \<or> (\<exists>w. t = kill_thread_handler SIGINT (interrupt w s))" if "step s t"
    using that by (auto elim!: stepE quiet_stepE)
  let ?t = "kill_thread_handler SIGINT (interrupt w s)"
  show "created ?t = created s \<and> mpc ?t = mpc s \<and> (pc (th1 s) = NotStarted \<longrightarrow> pc (th1 ?t) = NotStarted)
    \<and> (pc (th2 s) = NotStarted \<longrightarrow> pc (th2 ?t) = NotStarted)
    \<and> (pc (th1 s) = Ended \<longrightarrow> pc (th1 ?t) = Ended) \<and> (pc (th2 s) = Ended \<longrightarrow> pc (th2 ?t) = Ended)
    \<and> (Exiting Main \<in> set (log ?t)) = (Exiting Main \<in> set (log s))
    \<and> (complaint p \<in> set (err s) \<longrightarrow> complaint p \<in> set (err ?t))"
    by (cases w) (auto simp: kill_thread_handler_def pipe_ops)
qed ((drule pjoins_main, fastforce)[1], (drule pjoins_passed, fastforce)[1],
    (drule pjoins_thread1, fastforce)[1], (drule pjoins_thread2, fastforce)[1])

section \<open>Properties\<close>

lemma take_length_take: "xs = take n ys \<Longrightarrow> xs = take (length xs) ys"
  by (metis append_eq_conv_conj append_take_drop_id)

text \<open>C14: whatever lies in memory behind the tables, and although every write is ten packets long,
  without a signal each thread logs the packets of the other one's table in order, none twice and
  none left out; when no thread can go on, each has logged all ten.\<close>

theorem pipes_packets:
  assumes "quiet_step\<^sup>*\<^sup>* (pipes_start b1 b2) s"
  shows "got Thread2 (log s) = take (length (got Thread2 (log s))) packets1
     \<and> got Thread1 (log s) = take (length (got Thread1 (log s))) packets2
     \<and> ((\<forall>t. \<not> quiet_step s t) \<longrightarrow> got Thread2 (log s) = packets1 \<and> got Thread1 (log s) = packets2)"
proof (intro conjI impI)
  have ex: "exact1 s" "exact2 s" using exact_reach [OF assms] by (simp_all add: exact_def)
  from ex(1) show "got Thread2 (log s) = take (length (got Thread2 (log s))) packets1"
    unfolding exact1_def by (elim conjE) (rule take_length_take)
  from ex(2) show "got Thread1 (log s) = take (length (got Thread1 (log s))) packets2"
    unfolding exact2_def by (elim conjE) (rule take_length_take)
  assume "\<forall>t. \<not> quiet_step s t"
  then have "idx (th2 s) = 10 \<and> pc (th2 s) = Stale \<and> idx (th1 s) = 10 \<and> pc (th1 s) = Ended"
    using pipes_end exact_reach [OF assms] by blast
  with ex show "got Thread2 (log s) = packets1" "got Thread1 (log s) = packets2"
    by (simp_all add: exact1_def exact2_def)
qed

theorem pipes_packets_witness:
  "\<exists>s. quiet_step\<^sup>*\<^sup>* (pipes_start (\<lambda>_ _. None) (\<lambda>_ _. Some 0)) s
     \<and> got Thread2 (log s) = take (length (got Thread2 (log s))) packets1"
  using first_write [of "\<lambda>_ _. None" "\<lambda>_ _. Some 0"] pipes_packets by blast

text \<open>the handshake is broken. The first write of thread 1 already delivers its whole table, so
  thread 2 can log all ten packets, and send ten answers, before thread 1 has read one.\<close>

lemma pipes_run_ahead:
  "\<exists>s. quiet_step\<^sup>*\<^sup>* (pipes_start b1 b2) s \<and> idx (th1 s) = 1 \<and> got Thread1 (log s) = []
     \<and> got Thread2 (log s) = packets1"
proof -
  obtain s where s: "quiet_step\<^sup>*\<^sup>* (pipes_start b1 b2) s" "ahead 10 s" using runs_ahead by blast
  with exact_reach [OF s(1)] show ?thesis
    by (intro exI [of _ s]) (auto simp: exact_def exact1_def exact2_def ahead_def)
qed

text \<open>C15: no deadlock, at whatever moments and in whatever threads SIGINTs arrive: the threads make
  at most 184 moves together, and as long as the process has not ended (or run into the closed
  stream in thread 2) one of them can move.\<close>

theorem pipes_no_deadlock:
  assumes "run pipes_act as (pipes_start b1 b2) = Some s"
  shows "length (filter is_run as) \<le> 184
     \<and> (mpc s = MDone \<or> pc (th2 s) = Stale \<or> (\<exists>w t. pipes_act (Run w) s = Some t))"
proof
  note run = sound_run [OF sound_init assms]
  have "work (pipes_start b1 b2) = 184"
    by (simp add: work_def pipes_start_def pipes_init_def left1_def left2_def new_thread_def)
  with run show "length (filter is_run as) \<le> 184" by simp
  show "mpc s = MDone \<or> pc (th2 s) = Stale \<or> (\<exists>w t. pipes_act (Run w) s = Some t)"
  proof (cases "mpc s = MDone \<or> pc (th2 s) = Stale")
    case False
    then obtain t where "quiet_step s t" using pipes_live run by blast
    then have "\<exists>w. pipes_act (Run w) s = Some t" by (cases; force split: who.splits)
    then show ?thesis by blast
  qed blast
qed

theorem pipes_no_deadlock_witness:
  "\<exists>s. run pipes_act [Run Main, Interrupt Thread1, Run Main] (pipes_start (\<lambda>_ _. None) (\<lambda>_ _. None)) = Some s
     \<and> flag s \<and> (\<exists>w t. pipes_act (Run w) s = Some t)"
proof -
  obtain s where s: "run pipes_act [Run Main, Interrupt Thread1, Run Main] (pipes_start (\<lambda>_ _. None) (\<lambda>_ _. None)) = Some s"
    and p: "flag s" "mpc s = MCreate2" "pc (th2 s) = NotStarted"
    by (simp add: main_step_def pipes_start_def pipes_init_def new_thread_def pipe_ops kill_thread_handler_def)
  with pipes_no_deadlock [OF s] show ?thesis by auto
qed

end
