(* ===== verification/SharedMem.thy ===== *)
theory SharedMem
  imports Creation
begin

text \<open>
  \<^verbatim>\<open>HW4_APES/PROBLEM2/ipc_shared_memory_thread/shared_memory.c\<close>: the exchange over two shared
  memory objects and the flag \<open>send\<close>. Only thread 1 waits for thread 2 (it spins on \<open>send\<close>);
  thread 2 waits for nothing.

  A shared object is the packet structure. A new one is made of zero bytes by \<open>ftruncate\<close>; one that an
  earlier run did not unlink keeps its bytes. What \<open>shm_open\<close> and \<open>mmap\<close> do for it is a parameter
  (\<open>object\<close>): a thread that accesses an object that is not mapped, through the address -1, is stuck
  (\<open>None\<close>). A step is one access
  to shared memory, one character of a \<open>strcpy\<close> or one store, with these exceptions: the arguments of \<open>fprintf\<close>
  are loaded in one step and the message is read in a later one; a round of the spin loop, which tests \<open>send\<close> and then
  \<open>flag\<close>, is one step. The memory is taken to be
  sequentially consistent. A thread that spins makes no step.
\<close>

section \<open>State\<close>

record area =
  contents :: "byte list"
  cmd :: led_cmd
  slen :: int

definition zero_area :: area where
  "zero_area = \<lparr>contents = replicate 40 0, cmd = ON, slen = 0\<rparr>"

datatype place = NotStarted | Start | Top | Copy nat | SetCommand | SetLength | SetSend
  | Spin | LoadArgs | Print | ClearSend | Ended

record worker =
  at :: place
  idx :: nat
  tbl :: "packet list"
  arg_cmd :: led_cmd
  arg_len :: int

text \<open>How the calls for a shared object end: \<open>shm_open\<close> fails (then \<open>mmap\<close> does, too), only \<open>mmap\<close>
  fails, or both succeed.\<close>

datatype object = NotOpened | NotMapped | Mapped

record shm =
  flag :: bool
  send :: bool
  area1 :: area
  area2 :: area
  th1 :: worker
  th2 :: worker
  obj1 :: object
  obj2 :: object
  linked1 :: bool
  linked2 :: bool
  created :: "birth \<times> birth"
  log :: "entry list"
  console :: "string list"
  err :: "string list"
  mpc :: main_pc

definition new_worker :: worker where
  "new_worker = \<lparr>at = NotStarted, idx = 0, tbl = [], arg_cmd = ON, arg_len = 0\<rparr>"

text \<open>\<open>linked1\<close>, \<open>linked2\<close>: the names exist; \<open>created\<close>: what the two \<open>pthread_create\<close> calls will do.\<close>

definition shm_init :: "area \<Rightarrow> area \<Rightarrow> object \<Rightarrow> object \<Rightarrow> birth \<times> birth \<Rightarrow> shm" where
  "shm_init a1 a2 o1 o2 c = \<lparr>flag = False, send = False, area1 = a1, area2 = a2, th1 = new_worker,
     th2 = new_worker, obj1 = o1, obj2 = o2, linked1 = False, linked2 = False, created = c,
     log = [], console = [], err = [], mpc = MStart\<rparr>"

definition shm_start :: shm where
  "shm_start = shm_init zero_area zero_area Mapped Mapped (Made, Made)"

definition log_line :: "entry \<Rightarrow> shm \<Rightarrow> shm" where
  "log_line e s = s\<lparr>log := log s @ [e]\<rparr>"

definition perror :: "string \<Rightarrow> shm \<Rightarrow> shm" where
  "perror m s = s\<lparr>err := err s @ [m]\<rparr>"

definition printf :: "string \<Rightarrow> shm \<Rightarrow> shm" where
  "printf m s = s\<lparr>console := console s @ [m]\<rparr>"

text \<open>The character with number \<open>j\<close> of the string \<open>m\<close>, its terminating zero included.\<close>

definition char_no :: "string \<Rightarrow> nat \<Rightarrow> byte" where
  "char_no m j = (if j < length m then byte_of (m ! j) else 0)"

text \<open>Storing character \<open>j\<close> of \<open>strcpy\<close>.\<close>

definition poke :: "string \<Rightarrow> nat \<Rightarrow> area \<Rightarrow> area option" where
  "poke m j a = (if j < length (contents a)
     then Some (a\<lparr>contents := (contents a)[j := char_no m j]\<rparr>) else None)"

definition after_char :: "string \<Rightarrow> nat \<Rightarrow> place" where
  "after_char m j = (if char_no m j = 0 then SetCommand else Copy (Suc j))"

text \<open>The packet that \<open>fprintf\<close> prints.\<close>

definition printed :: "worker \<Rightarrow> area \<Rightarrow> packet" where
  "printed th a = \<lparr>messages = c_string (map Some (contents a)), command = Some (arg_cmd th),
     string_len = Some (arg_len th)\<rparr>"

section \<open>The first thread\<close>

definition goto1 :: "place \<Rightarrow> shm \<Rightarrow> shm" where
  "goto1 p s = s\<lparr>th1 := (th1 s)\<lparr>at := p\<rparr>\<rparr>"

primrec thread1_at :: "place \<Rightarrow> shm \<Rightarrow> shm option" where
  "thread1_at NotStarted s = None"
| "thread1_at Start s = do {
     t \<leftarrow> fill_table (indexed messages1) (indexed led_list) [0..<10];
     Some (log_line (Entering Thread1) (s\<lparr>th1 := (th1 s)\<lparr>tbl := t, at := Top\<rparr>\<rparr>))
   }"
| "thread1_at Top s = Some
     (if flag s then log_line (Killed Thread1) (goto1 Ended s)
      else if idx (th1 s) = 10 then log_line (Exiting Thread1) (goto1 Ended s)
      else goto1 (Copy 0) s)"
| "thread1_at (Copy j) s = (if obj1 s \<noteq> Mapped then None else do {
     p \<leftarrow> nth_opt (tbl (th1 s)) (idx (th1 s));
     m \<leftarrow> messages p;
     a \<leftarrow> poke m j (area1 s);
     Some (goto1 (after_char m j) (s\<lparr>area1 := a\<rparr>))
   })"
| "thread1_at SetCommand s = do {
     p \<leftarrow> nth_opt (tbl (th1 s)) (idx (th1 s));
     c \<leftarrow> command p;
     Some (goto1 SetLength (s\<lparr>area1 := (area1 s)\<lparr>cmd := c\<rparr>\<rparr>))
   }"
| "thread1_at SetLength s = do {
     p \<leftarrow> nth_opt (tbl (th1 s)) (idx (th1 s));
     n \<leftarrow> string_len p;
     Some (goto1 Spin (s\<lparr>area1 := (area1 s)\<lparr>slen := n\<rparr>\<rparr>))
   }"
| "thread1_at SetSend s = None"
| "thread1_at Spin s =
     (if send s then Some (goto1 LoadArgs s)
      else if flag s then Some (log_line (Killed Thread1) (goto1 Ended s))
      else None)"
| "thread1_at LoadArgs s = (if obj2 s \<noteq> Mapped then None else
     Some (s\<lparr>th1 := (th1 s)\<lparr>arg_cmd := cmd (area2 s), arg_len := slen (area2 s), at := Print\<rparr>\<rparr>))"
| "thread1_at Print s = Some (log_line (Got Thread1 (printed (th1 s) (area2 s))) (goto1 ClearSend s))"
| "thread1_at ClearSend s = Some (s\<lparr>send := False, th1 := (th1 s)\<lparr>idx := idx (th1 s) + 1, at := Top\<rparr>\<rparr>)"
| "thread1_at Ended s = None"

definition thread1_step :: "shm \<Rightarrow> shm option" where
  "thread1_step s = thread1_at (at (th1 s)) s"

section \<open>The second thread\<close>

definition goto2 :: "place \<Rightarrow> shm \<Rightarrow> shm" where
  "goto2 p s = s\<lparr>th2 := (th2 s)\<lparr>at := p\<rparr>\<rparr>"

primrec thread2_at :: "place \<Rightarrow> shm \<Rightarrow> shm option" where
  "thread2_at NotStarted s = None"
| "thread2_at Start s = do {
     t \<leftarrow> fill_table (indexed messages2) (indexed led_list) [0..<10];
     Some (log_line (Entering Thread2) (s\<lparr>th2 := (th2 s)\<lparr>tbl := t, at := Top\<rparr>\<rparr>))
   }"
| "thread2_at Top s = Some
     (if flag s then log_line (Killed Thread2) (goto2 Ended s)
      else if idx (th2 s) = 10 then log_line (Exiting Thread2) (goto2 Ended s)
      else goto2 LoadArgs s)"
| "thread2_at LoadArgs s = (if obj1 s \<noteq> Mapped then None else
     Some (s\<lparr>th2 := (th2 s)\<lparr>arg_cmd := cmd (area1 s), arg_len := slen (area1 s), at := Print\<rparr>\<rparr>))"
| "thread2_at Print s = Some (log_line (Got Thread2 (printed (th2 s) (area1 s))) (goto2 (Copy 0) s))"
| "thread2_at (Copy j) s = (if obj2 s \<noteq> Mapped then None else do {
     p \<leftarrow> nth_opt (tbl (th2 s)) (idx (th2 s));
     m \<leftarrow> messages p;
     a \<leftarrow> poke m j (area2 s);
     Some (goto2 (after_char m j) (s\<lparr>area2 := a\<rparr>))
   })"
| "thread2_at SetCommand s = do {
     p \<leftarrow> nth_opt (tbl (th2 s)) (idx (th2 s));
     c \<leftarrow> command p;
     Some (goto2 SetLength (s\<lparr>area2 := (area2 s)\<lparr>cmd := c\<rparr>\<rparr>))
   }"
| "thread2_at SetLength s = do {
     p \<leftarrow> nth_opt (tbl (th2 s)) (idx (th2 s));
     n \<leftarrow> string_len p;
     Some (s\<lparr>area2 := (area2 s)\<lparr>slen := n\<rparr>, th2 := (th2 s)\<lparr>idx := idx (th2 s) + 1, at := SetSend\<rparr>\<rparr>)
   }"
| "thread2_at SetSend s = Some (goto2 Top (s\<lparr>send := True\<rparr>))"
| "thread2_at Spin s = None"
| "thread2_at ClearSend s = None"
| "thread2_at Ended s = None"

definition thread2_step :: "shm \<Rightarrow> shm option" where
  "thread2_step s = thread2_at (at (th2 s)) s"

section \<open>The main thread and the signal\<close>

text \<open>\<open>main\<close> opens and maps both objects, each failure with its message, and unlinks them in the end.\<close>

definition open_object1 :: "shm \<Rightarrow> shm" where
  "open_object1 s = (let
     s = (if obj1 s = NotOpened then perror (crlf @ ''Failed to open shared memory 1'') s else s\<lparr>linked1 := True\<rparr>)
   in if obj1 s \<noteq> Mapped then perror ''memory mapping not done properly'' s else s)"

definition open_object2 :: "shm \<Rightarrow> shm" where
  "open_object2 s = (let
     s = (if obj2 s = NotOpened then perror (crlf @ ''Failed to open shared memory 2'') s else s\<lparr>linked2 := True\<rparr>)
   in if obj2 s \<noteq> Mapped then perror ''memory mapping not done properly'' s else s)"

definition unlink_objects :: "shm \<Rightarrow> shm" where
  "unlink_objects s = (let
     s = (if linked1 s then s\<lparr>linked1 := False\<rparr> else perror (crlf @ ''Failed to unlink the shared memory'') s)
   in if linked2 s then s\<lparr>linked2 := False\<rparr> else perror (crlf @ ''Failed to unlink the shared memory'') s)"

primrec main_at :: "main_pc \<Rightarrow> shm \<Rightarrow> shm option" where
  "main_at MStart s = Some (open_object2 (open_object1 (log_line (Entering Main) s))\<lparr>mpc := MCreate1\<rparr>)"
| "main_at MCreate1 s = Some ((if fst (created s) = Made then goto1 Start s
     else perror (crlf @ ''Thread 1 creation failed: '') s)\<lparr>mpc := MCreate2\<rparr>)"
| "main_at MCreate2 s = Some ((if snd (created s) = Made then goto2 Start s
     else perror (crlf @ ''Thread 2 creation failed: '') s)\<lparr>mpc := MJoin1\<rparr>)"
| "main_at MJoin1 s = (case fst (created s) of
       Made \<Rightarrow> if at (th1 s) = Ended then Some (s\<lparr>mpc := MJoin2\<rparr>) else None
     | Refused None \<Rightarrow> Some (s\<lparr>mpc := MLost\<rparr>)
     | Refused (Some status) \<Rightarrow> Some ((if status \<noteq> 0 then perror (crlf @ ''Thread 1 join unsuccessfull'') s else s)\<lparr>mpc := MJoin2\<rparr>))"
| "main_at MJoin2 s = (case snd (created s) of
       Made \<Rightarrow> if at (th2 s) = Ended then Some (s\<lparr>mpc := MClose\<rparr>) else None
     | Refused None \<Rightarrow> Some (s\<lparr>mpc := MLost\<rparr>)
     | Refused (Some status) \<Rightarrow> Some ((if status \<noteq> 0 then perror (crlf @ ''Thread 2 join unsuccessfull'') s else s)\<lparr>mpc := MClose\<rparr>))"
| "main_at MClose s = Some (unlink_objects (log_line (Exiting Main) s)\<lparr>mpc := MDone\<rparr>)"
| "main_at MDone s = None"
| "main_at MLost s = None"

definition main_step :: "shm \<Rightarrow> shm option" where
  "main_step s = main_at (mpc s) s"

definition SIGINT :: int where
  "SIGINT = 2"

definition kill_thread_handler :: "int \<Rightarrow> shm \<Rightarrow> shm" where
  "kill_thread_handler num s = (if num = SIGINT then (printf (crlf @ ''USR2 triggered'') s)\<lparr>flag := True\<rparr> else s)"

primrec shm_act :: "act \<Rightarrow> shm \<Rightarrow> shm option" where
  "shm_act (Run w) s = (case w of Main \<Rightarrow> main_step s | Thread1 \<Rightarrow> thread1_step s | Thread2 \<Rightarrow> thread2_step s)"
| "shm_act (Interrupt w) s = Some (kill_thread_handler SIGINT s)"

inductive step :: "shm \<Rightarrow> shm \<Rightarrow> bool" where
  act: "shm_act a s = Some t \<Longrightarrow> step s t"

inductive quiet_step :: "shm \<Rightarrow> shm \<Rightarrow> bool" where
  move: "shm_act (Run w) s = Some t \<Longrightarrow> quiet_step s t"

inductive_cases quiet_stepE: "quiet_step s t"

section \<open>Copying a string\<close>

lemmas shm_ops = log_line_def perror_def printf_def goto1_def goto2_def open_object1_def open_object2_def
  unlink_objects_def Let_def

lemma char_no_zero: "CHR 0x00 \<notin> set m \<Longrightarrow> char_no m j = 0 \<longleftrightarrow> length m \<le> j"
  by (metis byte_of_zero char_no_def linorder_not_less nth_mem)

text \<open>After the first \<open>n\<close> characters of \<open>m\<close> have been stored.\<close>

definition copied :: "string \<Rightarrow> nat \<Rightarrow> area \<Rightarrow> area" where
  "copied m n a = a\<lparr>contents := put (contents a) 0 (map (char_no m) [0..<n])\<rparr>"

lemma poke_copied:
  "j < length (contents a) \<Longrightarrow> poke m j (copied m j a) = Some (copied m (Suc j) a)"
  by (simp add: poke_def copied_def put_def list_update_append Cons_nth_drop_Suc [symmetric])

lemma c_string_copied:
  assumes "CHR 0x00 \<notin> set m" "length m < 40" "length (contents a) = 40"
  shows "c_string (map Some (contents (copied m (Suc (length m)) a))) = Some m"
proof -
  have "map (char_no m) [0..<length m] = map byte_of m"
    by (rule nth_equalityI) (auto simp: char_no_def)
  then show ?thesis
    using assms by (simp add: copied_def put_def char_no_def c_string_bytes comp_def [symmetric])
qed

lemma c_string_byte39:
  "length xs = 40 \<Longrightarrow> xs ! 39 = 0 \<Longrightarrow> c_string (map Some xs) \<noteq> None"
proof -
  have "0 \<in> set ys \<Longrightarrow> c_string (map Some ys) \<noteq> None" for ys :: "byte list"
    by (induction ys) auto
  moreover assume "length xs = 40" "xs ! 39 = 0"
  then have "0 \<in> set xs" using nth_mem [of 39 xs] by simp
  ultimately show ?thesis by blast
qed

section \<open>What holds of every run\<close>

primrec place_ok :: "place \<Rightarrow> packet list \<Rightarrow> worker \<Rightarrow> bool" where
  "place_ok NotStarted A th = (idx th = 0)"
| "place_ok Start A th = (idx th = 0)"
| "place_ok Top A th = (tbl th = A \<and> idx th \<le> 10)"
| "place_ok (Copy j) A th = (tbl th = A \<and> idx th < 10 \<and> j \<le> length (the (messages (A ! idx th))))"
| "place_ok SetCommand A th = (tbl th = A \<and> idx th < 10)"
| "place_ok SetLength A th = (tbl th = A \<and> idx th < 10)"
| "place_ok SetSend A th = (tbl th = A \<and> 0 < idx th \<and> idx th \<le> 10)"
| "place_ok Spin A th = (tbl th = A \<and> idx th < 10)"
| "place_ok LoadArgs A th = (tbl th = A \<and> idx th < 10)"
| "place_ok Print A th = (tbl th = A \<and> idx th < 10)"
| "place_ok ClearSend A th = (tbl th = A \<and> idx th < 10)"
| "place_ok Ended A th = (idx th \<le> 10)"

text \<open>The packets of the tables: a message of at most 38 characters, all fields known.\<close>

definition sendable :: "packet list \<Rightarrow> bool" where
  "sendable A \<longleftrightarrow> length A = 10 \<and> (\<forall>p \<in> set A. \<exists>m c n. p = \<lparr>messages = Some m, command = Some c, string_len = Some n\<rparr>
     \<and> length m \<le> 38 \<and> CHR 0x00 \<notin> set m)"

lemma sendable_tables: "sendable packets1" "sendable packets2"
  by (auto simp: sendable_def packets1_def packets2_def messages1_def messages2_def led_list_def packet_of_def)

lemma sendable_nth:
  "sendable A \<Longrightarrow> i < 10 \<Longrightarrow> \<exists>m c n. A ! i = \<lparr>messages = Some m, command = Some c, string_len = Some n\<rparr>
     \<and> length m \<le> 38 \<and> CHR 0x00 \<notin> set m"
  by (simp add: sendable_def)

text \<open>Storing a character of a message keeps the last byte of the field.\<close>

definition ends_zero :: "area \<Rightarrow> bool" where
  "ends_zero a \<longleftrightarrow> length (contents a) = 40 \<and> contents a ! 39 = 0"

lemma poke_ends_zero: "ends_zero a \<Longrightarrow> j \<le> 38 \<Longrightarrow> \<exists>b. poke m j a = Some b \<and> ends_zero b"
  by (simp add: poke_def ends_zero_def nth_list_update)

lemma copy_char:
  assumes "sendable A" "tbl th = A" "i < 10" "j \<le> length (the (messages (A ! i)))" "ends_zero a"
  shows "\<exists>m b. nth_opt A i = Some (A ! i) \<and> messages (A ! i) = Some m \<and> poke m j a = Some b \<and> ends_zero b
     \<and> (after_char m j = SetCommand \<or> after_char m j = Copy (Suc j) \<and> Suc j \<le> length m)"
proof -
  obtain m c n where p: "A ! i = \<lparr>messages = Some m, command = Some c, string_len = Some n\<rparr>"
    and m: "length m \<le> 38" "CHR 0x00 \<notin> set m" using sendable_nth [OF assms(1,3)] by blast
  with assms(4,5) obtain b where "poke m j a = Some b" "ends_zero b"
    using poke_ends_zero [of a j m] by auto
  moreover have "after_char m j = SetCommand \<or> after_char m j = Copy (Suc j) \<and> Suc j \<le> length m"
    using char_no_zero [OF m(2), of j] assms(4) p by (auto simp: after_char_def)
  ultimately show ?thesis using p assms(1,3) by (simp add: sendable_def)
qed

text \<open>How often thread 2 has set \<open>send\<close>, and how many packets each thread has logged.\<close>

definition sets2 :: "worker \<Rightarrow> nat" where
  "sets2 th = (if at th = SetSend then idx th - 1 else idx th)"

definition logged1 :: "worker \<Rightarrow> nat" where
  "logged1 th = (if at th = ClearSend then Suc (idx th) else idx th)"

primrec copying :: "place \<Rightarrow> bool" where
  "copying NotStarted = False" | "copying Start = False" | "copying Top = False"
| "copying (Copy j) = True" | "copying SetCommand = True" | "copying SetLength = True"
| "copying SetSend = False" | "copying Spin = False" | "copying LoadArgs = False"
| "copying Print = False" | "copying ClearSend = False" | "copying Ended = False"

definition logged2 :: "worker \<Rightarrow> nat" where
  "logged2 th = (if copying (at th) then Suc (idx th) else idx th)"

definition consuming :: "place \<Rightarrow> bool" where
  "consuming p \<longleftrightarrow> p = LoadArgs \<or> p = Print \<or> p = ClearSend"

definition sane :: "shm \<Rightarrow> bool" where
  "sane s \<longleftrightarrow> place_ok (at (th1 s)) packets1 (th1 s) \<and> place_ok (at (th2 s)) packets2 (th2 s)
     \<and> ends_zero (area1 s) \<and> ends_zero (area2 s)
     \<and> at (th1 s) \<noteq> SetSend \<and> at (th2 s) \<notin> {Spin, ClearSend}
     \<and> idx (th1 s) + (if send s \<or> consuming (at (th1 s)) then 1 else 0) \<le> sets2 (th2 s)
     \<and> length (got Thread1 (log s)) = logged1 (th1 s)
     \<and> length (got Thread2 (log s)) = logged2 (th2 s)"

lemma sane_init: "ends_zero a1 \<Longrightarrow> ends_zero a2 \<Longrightarrow> sane (shm_init a1 a2 o1 o2 c)"
  by (simp add: sane_def shm_init_def new_worker_def ends_zero_def consuming_def sets2_def
      logged1_def logged2_def)

lemma sane_thread1:
  assumes "sane s" "thread1_step s = Some t"
  shows "sane t"
proof (cases "\<exists>j. at (th1 s) = Copy j")
  case True
  then obtain j where j: "at (th1 s) = Copy j" ..
  obtain m b where c: "nth_opt packets1 (idx (th1 s)) = Some (packets1 ! idx (th1 s))"
    "messages (packets1 ! idx (th1 s)) = Some m" "poke m j (area1 s) = Some b" "ends_zero b"
    "after_char m j = SetCommand \<or> after_char m j = Copy (Suc j) \<and> Suc j \<le> length m"
    using copy_char [OF sendable_tables(1), of "th1 s" "idx (th1 s)" j "area1 s"] assms(1) j
    by (auto simp: sane_def)
  then have "t = goto1 (after_char m j) (s\<lparr>area1 := b\<rparr>)"
    using assms j by (auto simp: sane_def thread1_step_def split: if_splits)
  then show ?thesis using assms(1) j c
    by (auto simp: sane_def goto1_def consuming_def logged1_def split: if_splits)
next
  case False
  have z: "ends_zero (a\<lparr>cmd := c\<rparr>) = ends_zero a" "ends_zero (a\<lparr>slen := n\<rparr>) = ends_zero a" for a c n
    by (simp_all add: ends_zero_def)
  show ?thesis
    using assms False
    by (cases "at (th1 s)";
        clarsimp simp: thread1_step_def sane_def shm_ops fill_table1 consuming_def logged1_def z
          bind_eq_Some_conv split: if_splits)
qed

lemma sane_thread2:
  assumes "sane s" "thread2_step s = Some t"
  shows "sane t"
proof (cases "\<exists>j. at (th2 s) = Copy j")
  case True
  then obtain j where j: "at (th2 s) = Copy j" ..
  obtain m b where c: "nth_opt packets2 (idx (th2 s)) = Some (packets2 ! idx (th2 s))"
    "messages (packets2 ! idx (th2 s)) = Some m" "poke m j (area2 s) = Some b" "ends_zero b"
    "after_char m j = SetCommand \<or> after_char m j = Copy (Suc j) \<and> Suc j \<le> length m"
    using copy_char [OF sendable_tables(2), of "th2 s" "idx (th2 s)" j "area2 s"] assms(1) j
    by (auto simp: sane_def)
  then have "t = goto2 (after_char m j) (s\<lparr>area2 := b\<rparr>)"
    using assms j by (auto simp: sane_def thread2_step_def split: if_splits)
  then show ?thesis using assms(1) j c
    by (auto simp: sane_def goto2_def sets2_def logged2_def split: if_splits)
next
  case False
  have z: "ends_zero (a\<lparr>cmd := c\<rparr>) = ends_zero a" "ends_zero (a\<lparr>slen := n\<rparr>) = ends_zero a" for a c n
    by (simp_all add: ends_zero_def)
  show ?thesis
    using assms False
    by (cases "at (th2 s)";
        clarsimp simp: thread2_step_def sane_def shm_ops fill_table2 sets2_def logged2_def z
          bind_eq_Some_conv split: if_splits; (intro conjI impI)?; linarith)
qed

lemma sane_create:
  "sane s \<Longrightarrow> at (th1 s) = NotStarted \<Longrightarrow> sane (goto1 Start s)"
  "sane s \<Longrightarrow> at (th2 s) = NotStarted \<Longrightarrow> sane (goto2 Start s)"
  by (simp_all add: sane_def goto1_def goto2_def consuming_def sets2_def logged1_def logged2_def)

lemma sane_frame:
  "sane (s\<lparr>mpc := m\<rparr>) = sane s" "sane (s\<lparr>flag := f\<rparr>) = sane s" "sane (s\<lparr>linked1 := b\<rparr>) = sane s"
  "sane (s\<lparr>linked2 := b\<rparr>) = sane s" "sane (perror e s) = sane s" "sane (printf e s) = sane s"
  "sane (log_line (Entering Main) s) = sane s" "sane (log_line (Exiting Main) s) = sane s"
  by (simp_all add: sane_def log_line_def perror_def printf_def)

lemma sane_objects:
  "sane (open_object1 s) = sane s" "sane (open_object2 s) = sane s" "sane (unlink_objects s) = sane s"
  by (simp_all add: open_object1_def open_object2_def unlink_objects_def Let_def sane_frame)

text \<open>Which threads exist, when both could be created.\<close>

primrec begun :: "main_pc \<Rightarrow> place \<Rightarrow> place \<Rightarrow> bool" where
  "begun MStart p q = (p = NotStarted \<and> q = NotStarted)"
| "begun MCreate1 p q = (p = NotStarted \<and> q = NotStarted)"
| "begun MCreate2 p q = (p \<noteq> NotStarted \<and> q = NotStarted)"
| "begun MJoin1 p q = (p \<noteq> NotStarted \<and> q \<noteq> NotStarted)"
| "begun MJoin2 p q = (p = Ended \<and> q \<noteq> NotStarted)"
| "begun MClose p q = (p = Ended \<and> q = Ended)"
| "begun MDone p q = (p = Ended \<and> q = Ended)"
| "begun MLost p q = False"

lemma begun_move:
  "begun m p q \<Longrightarrow> p \<noteq> NotStarted \<Longrightarrow> p \<noteq> Ended \<Longrightarrow> p' \<noteq> NotStarted \<Longrightarrow> begun m p' q"
  "begun m p q \<Longrightarrow> q \<noteq> NotStarted \<Longrightarrow> q \<noteq> Ended \<Longrightarrow> q' \<noteq> NotStarted \<Longrightarrow> begun m p q'"
  by (cases m; simp)+

lemma after_char_place [simp]: "after_char m j \<noteq> NotStarted" "after_char m j \<noteq> Ended"
  by (simp_all add: after_char_def)

lemma moves1:
  "thread1_step s = Some t \<Longrightarrow> at (th1 s) \<noteq> NotStarted \<and> at (th1 s) \<noteq> Ended \<and> at (th1 t) \<noteq> NotStarted
     \<and> mpc t = mpc s \<and> th2 t = th2 s \<and> flag t = flag s \<and> obj1 t = obj1 s \<and> obj2 t = obj2 s
     \<and> created t = created s \<and> (Exiting Main \<in> set (log t)) = (Exiting Main \<in> set (log s)) \<and> set (err s) \<subseteq> set (err t)"
  by (cases "at (th1 s)";
      clarsimp simp: thread1_step_def shm_ops bind_eq_Some_conv split: if_splits)

lemma moves2:
  "thread2_step s = Some t \<Longrightarrow> at (th2 s) \<noteq> NotStarted \<and> at (th2 s) \<noteq> Ended \<and> at (th2 t) \<noteq> NotStarted
     \<and> mpc t = mpc s \<and> th1 t = th1 s \<and> flag t = flag s \<and> obj1 t = obj1 s \<and> obj2 t = obj2 s
     \<and> created t = created s \<and> (Exiting Main \<in> set (log t)) = (Exiting Main \<in> set (log s)) \<and> set (err s) \<subseteq> set (err t)"
  by (cases "at (th2 s)";
      clarsimp simp: thread2_step_def shm_ops bind_eq_Some_conv split: if_splits)

definition begun_state :: "shm \<Rightarrow> bool" where
  "begun_state s \<longleftrightarrow> begun (mpc s) (at (th1 s)) (at (th2 s)) \<and> obj1 s = Mapped \<and> obj2 s = Mapped
     \<and> created s = (Made, Made)"

text \<open>Whatever can be created, a thread has not started before its creation.\<close>

definition fresh :: "shm \<Rightarrow> bool" where
  "fresh s \<longleftrightarrow> (mpc s = MStart \<or> mpc s = MCreate1 \<longrightarrow> at (th1 s) = NotStarted)
     \<and> (mpc s = MStart \<or> mpc s = MCreate1 \<or> mpc s = MCreate2 \<longrightarrow> at (th2 s) = NotStarted)"

lemma begun_fresh: "begun_state s \<Longrightarrow> fresh s"
  by (auto simp: begun_state_def fresh_def)

lemma objects_frame [simp]:
  "th1 (open_object1 s) = th1 s" "th2 (open_object1 s) = th2 s" "mpc (open_object1 s) = mpc s"
  "th1 (open_object2 s) = th1 s" "th2 (open_object2 s) = th2 s" "mpc (open_object2 s) = mpc s"
  "th1 (unlink_objects s) = th1 s" "th2 (unlink_objects s) = th2 s" "mpc (unlink_objects s) = mpc s"
  "obj1 (open_object1 s) = obj1 s" "obj1 (open_object2 s) = obj1 s" "obj1 (unlink_objects s) = obj1 s"
  "obj2 (open_object1 s) = obj2 s" "obj2 (open_object2 s) = obj2 s" "obj2 (unlink_objects s) = obj2 s"
  "created (open_object1 s) = created s" "created (open_object2 s) = created s"
  "created (unlink_objects s) = created s" "log (open_object1 s) = log s" "log (open_object2 s) = log s"
  "log (unlink_objects s) = log s"
  by (simp_all add: open_object1_def open_object2_def unlink_objects_def perror_def Let_def)

lemma fresh_act: "fresh s \<Longrightarrow> shm_act a s = Some t \<Longrightarrow> fresh t"
proof (cases a)
  case (Run w)
  moreover assume f: "fresh s" and "shm_act a s = Some t"
  ultimately consider "main_step s = Some t" | "thread1_step s = Some t" | "thread2_step s = Some t"
    by (cases w) auto
  then show ?thesis
  proof cases
    case 1
    then show ?thesis using f
      by (cases "mpc s")
         (auto simp: main_step_def fresh_def log_line_def perror_def goto1_def goto2_def split: if_splits birth.splits option.splits)
  next
    case 2
    from moves1 [OF 2] f show ?thesis by (auto simp: fresh_def)
  next
    case 3
    from moves2 [OF 3] f show ?thesis by (auto simp: fresh_def)
  qed
qed (auto simp: fresh_def kill_thread_handler_def printf_def)

lemma begun_act: "begun_state s \<Longrightarrow> shm_act a s = Some t \<Longrightarrow> begun_state t"
proof (cases a)
  case (Run w)
  moreover assume b: "begun_state s" and "shm_act a s = Some t"
  ultimately consider "main_step s = Some t" | "thread1_step s = Some t" | "thread2_step s = Some t"
    by (cases w) auto
  then show ?thesis
  proof cases
    case 1
    then show ?thesis using b
      by (cases "mpc s"; clarsimp simp: main_step_def begun_state_def log_line_def goto1_def goto2_def split: if_splits)
  next
    case 2
    from moves1 [OF 2] b show ?thesis unfolding begun_state_def using begun_move(1) by metis
  next
    case 3
    from moves2 [OF 3] b show ?thesis unfolding begun_state_def using begun_move(2) by metis
  qed
qed (auto simp: begun_state_def kill_thread_handler_def printf_def)

lemma sane_act: "sane s \<Longrightarrow> fresh s \<Longrightarrow> shm_act a s = Some t \<Longrightarrow> sane t"
proof (cases a)
  case (Run w)
  assume s: "sane s" and b: "fresh s" and "shm_act a s = Some t"
  with Run consider "main_step s = Some t" | "thread1_step s = Some t" | "thread2_step s = Some t"
    by (cases w) auto
  then show ?thesis
  proof cases
    case 1
    then show ?thesis using s b
      by (cases "mpc s"; clarsimp simp: main_step_def fresh_def sane_create sane_frame sane_objects split: if_splits birth.splits option.splits)
  qed (use sane_thread1 sane_thread2 s in blast)+
qed (auto simp: sane_frame kill_thread_handler_def)

lemma sane_reach:
  assumes "step\<^sup>*\<^sup>* (shm_init a1 a2 o1 o2 c) s" "ends_zero a1" "ends_zero a2"
  shows "sane s \<and> fresh s"
  using assms(1)
proof (induction rule: rtranclp_induct)
  case base
  show ?case using sane_init [OF assms(2,3)] by (simp add: fresh_def shm_init_def new_worker_def)
next
  case (step s t)
  then show ?case using sane_act fresh_act by (auto elim!: step.cases)
qed

lemma ends_zero_new: "ends_zero zero_area"
  by (simp add: ends_zero_def zero_area_def)

lemmas sane_start = sane_init [OF ends_zero_new ends_zero_new, of Mapped Mapped "(Made, Made)", folded shm_start_def]

lemmas start_reach = sane_reach [OF _ ends_zero_new ends_zero_new, of Mapped Mapped "(Made, Made)", folded shm_start_def]

section \<open>Bounded work\<close>

primrec rank1 :: "place \<Rightarrow> nat" where
  "rank1 NotStarted = 52" | "rank1 Start = 51" | "rank1 Top = 50" | "rank1 (Copy j) = 49 - j"
| "rank1 SetCommand = 10" | "rank1 SetLength = 9" | "rank1 Spin = 8" | "rank1 LoadArgs = 7"
| "rank1 Print = 6" | "rank1 ClearSend = 5" | "rank1 SetSend = 0" | "rank1 Ended = 0"

primrec rank2 :: "place \<Rightarrow> nat" where
  "rank2 NotStarted = 62" | "rank2 Start = 61" | "rank2 SetSend = 60" | "rank2 Top = 55"
| "rank2 LoadArgs = 54" | "rank2 Print = 53" | "rank2 (Copy j) = 52 - j" | "rank2 SetCommand = 10"
| "rank2 SetLength = 9" | "rank2 Spin = 0" | "rank2 ClearSend = 0" | "rank2 Ended = 0"

definition work :: "shm \<Rightarrow> nat" where
  "work s = main_rank (mpc s) + 60 * (10 - idx (th1 s)) + rank1 (at (th1 s))
     + 60 * (10 - idx (th2 s)) + rank2 (at (th2 s))"

lemma rank_after_char:
  assumes "length m \<le> 38" "CHR 0x00 \<notin> set m" "j \<le> length m"
  shows "rank1 (after_char m j) < rank1 (Copy j)" "rank2 (after_char m j) < rank2 (Copy j)"
  using assms char_no_zero [OF assms(2), of j] by (auto simp: after_char_def)

lemma next_round: "i < 10 \<Longrightarrow> 60 * (10 - i) = (60 + 60 * (9 - i) :: nat)"
  by simp

lemma shm_work1:
  assumes "sane s" "thread1_step s = Some t"
  shows "work t < work s"
proof (cases "\<exists>j. at (th1 s) = Copy j")
  case True
  then obtain j where j: "at (th1 s) = Copy j" ..
  then have i: "idx (th1 s) < 10" "tbl (th1 s) = packets1" using assms(1) by (simp_all add: sane_def)
  obtain m c n where p: "packets1 ! idx (th1 s) = \<lparr>messages = Some m, command = Some c, string_len = Some n\<rparr>"
    and m: "length m \<le> 38" "CHR 0x00 \<notin> set m" using sendable_nth [OF sendable_tables(1) i(1)] by blast
  then have "j \<le> length m" using assms(1) j by (simp add: sane_def)
  with rank_after_char(1) [OF m this] p i j assms(2) show ?thesis
    by (auto simp: thread1_step_def work_def goto1_def bind_eq_Some_conv nth_opt_def split: if_splits)
next
  case False
  with assms show ?thesis
    by (cases "at (th1 s)";
        clarsimp simp: thread1_step_def sane_def work_def shm_ops fill_table1 bind_eq_Some_conv next_round
          split: if_splits)
qed

lemma shm_work2:
  assumes "sane s" "thread2_step s = Some t"
  shows "work t < work s"
proof (cases "\<exists>j. at (th2 s) = Copy j")
  case True
  then obtain j where j: "at (th2 s) = Copy j" ..
  then have i: "idx (th2 s) < 10" "tbl (th2 s) = packets2" using assms(1) by (simp_all add: sane_def)
  obtain m c n where p: "packets2 ! idx (th2 s) = \<lparr>messages = Some m, command = Some c, string_len = Some n\<rparr>"
    and m: "length m \<le> 38" "CHR 0x00 \<notin> set m" using sendable_nth [OF sendable_tables(2) i(1)] by blast
  then have "j \<le> length m" using assms(1) j by (simp add: sane_def)
  with rank_after_char(2) [OF m this] p i j assms(2) show ?thesis
    by (auto simp: thread2_step_def work_def goto2_def bind_eq_Some_conv nth_opt_def split: if_splits)
next
  case False
  with assms show ?thesis
    by (cases "at (th2 s)";
        clarsimp simp: thread2_step_def sane_def work_def shm_ops fill_table2 bind_eq_Some_conv next_round
          split: if_splits)
qed

lemma work_act:
  assumes "sane s" "begun_state s" "shm_act a s = Some t"
  shows "work t + (if is_run a then 1 else 0) \<le> work s"
proof (cases a)
  case (Run w)
  have "main_step s = Some t \<Longrightarrow> work t < work s"
    using assms(2)
    by (cases "mpc s"; clarsimp simp: main_step_def work_def begun_state_def log_line_def goto1_def goto2_def split: if_splits)
  with Run assms shm_work1 [OF assms(1)] shm_work2 [OF assms(1)] show ?thesis
    by (cases w) (auto simp: Suc_le_eq)
qed (use assms in \<open>auto simp: kill_thread_handler_def printf_def work_def\<close>)

lemma run_work:
  "sane s \<Longrightarrow> begun_state s \<Longrightarrow> run shm_act as s = Some t \<Longrightarrow>
     sane t \<and> begun_state t \<and> length (filter is_run as) + work t \<le> work s"
proof (induction as arbitrary: s)
  case (Cons a as)
  then obtain u where u: "shm_act a s = Some u" "run shm_act as u = Some t"
    by (auto split: option.splits)
  then show ?case
    using sane_act [OF Cons.prems(1) begun_fresh [OF Cons.prems(2)] u(1)] begun_act [OF Cons.prems(2) u(1)]
      work_act [OF Cons.prems(1,2) u(1)] Cons.IH [of u] by (auto split: if_splits)
qed simp

text \<open>Once the flag is set, no thread spins: something moves until \<open>main\<close> has ended.\<close>

lemma sendable_fields:
  "sendable A \<Longrightarrow> i < 10 \<Longrightarrow> \<exists>m c n. nth_opt A i = Some \<lparr>messages = Some m, command = Some c, string_len = Some n\<rparr>"
proof -
  assume "sendable A" "i < 10"
  then have "nth_opt A i = Some (A ! i)" by (simp add: nth_opt_def sendable_def)
  with sendable_nth [OF \<open>sendable A\<close> \<open>i < 10\<close>] show ?thesis by metis
qed

lemma live1:
  assumes "sane s" "at (th1 s) \<noteq> NotStarted" "at (th1 s) \<noteq> Ended" "at (th1 s) \<noteq> Spin \<or> send s \<or> flag s"
    and "begun_state s"
  shows "thread1_step s \<noteq> None"
proof (cases "\<exists>j. at (th1 s) = Copy j")
  case True
  then obtain j where j: "at (th1 s) = Copy j" ..
  show ?thesis
    using copy_char [OF sendable_tables(1), of "th1 s" "idx (th1 s)" j "area1 s"] assms(1,5) j
    by (auto simp: sane_def begun_state_def thread1_step_def)
next
  case False
  then show ?thesis
    using assms sendable_fields [OF sendable_tables(1), of "idx (th1 s)"]
    by (cases "at (th1 s)") (auto simp: thread1_step_def sane_def begun_state_def fill_table1)
qed

lemma live2:
  assumes "sane s" "at (th2 s) \<noteq> NotStarted" "at (th2 s) \<noteq> Ended" "begun_state s"
  shows "thread2_step s \<noteq> None"
proof (cases "\<exists>j. at (th2 s) = Copy j")
  case True
  then obtain j where j: "at (th2 s) = Copy j" ..
  show ?thesis
    using copy_char [OF sendable_tables(2), of "th2 s" "idx (th2 s)" j "area2 s"] assms(1,4) j
    by (auto simp: sane_def begun_state_def thread2_step_def)
next
  case False
  then show ?thesis
    using assms sendable_fields [OF sendable_tables(2), of "idx (th2 s)"]
    by (cases "at (th2 s)") (auto simp: thread2_step_def sane_def begun_state_def fill_table2)
qed

lemma live_flag:
  assumes "sane s" "begun_state s" "flag s" "mpc s \<noteq> MDone"
  shows "\<exists>w t. shm_act (Run w) s = Some t"
proof -
  have "main_step s \<noteq> None \<or> thread1_step s \<noteq> None \<or> thread2_step s \<noteq> None"
    using live1 [OF assms(1)] live2 [OF assms(1)] assms(2-)
    by (cases "mpc s") (auto simp: main_step_def begun_state_def)
  then obtain w t where "shm_act (Run w) s = Some t"
    by (elim disjE) (metis not_None_eq shm_act.simps(1) who.simps(7-9))+
  then show ?thesis by blast
qed

section \<open>Whole rounds\<close>

text \<open>What a thread reads from an area that nobody writes meanwhile.\<close>

definition area_packet :: "area \<Rightarrow> packet" where
  "area_packet a = \<lparr>messages = c_string (map Some (contents a)), command = Some (cmd a),
     string_len = Some (slen a)\<rparr>"

text \<open>The area after the packet \<open>(m, c, n)\<close> was stored.\<close>

definition filled :: "string \<Rightarrow> led_cmd \<Rightarrow> int \<Rightarrow> area \<Rightarrow> area" where
  "filled m c n a = (copied m (Suc (length m)) a)\<lparr>cmd := c, slen := n\<rparr>"

abbreviation packet3 :: "string \<Rightarrow> led_cmd \<Rightarrow> int \<Rightarrow> packet" where
  "packet3 m c n \<equiv> \<lparr>messages = Some m, command = Some c, string_len = Some n\<rparr>"

lemma copied_0 [simp]: "copied m 0 a = a"
  by (simp add: copied_def put_def)

lemma length_copied [simp]: "n \<le> length (contents a) \<Longrightarrow> length (contents (copied m n a)) = length (contents a)"
  by (simp add: copied_def)

lemma area_filled:
  "length m \<le> 38 \<Longrightarrow> CHR 0x00 \<notin> set m \<Longrightarrow> length (contents a) = 40 \<Longrightarrow>
     area_packet (filled m c n a) = packet3 m c n \<and> length (contents (filled m c n a)) = 40"
  using c_string_copied [of m a] by (simp add: area_packet_def filled_def)

lemma quiet_thread1: "thread1_step s = Some t \<Longrightarrow> quiet_step s t"
  using quiet_step.move [of Thread1 s t] by simp

lemma quiet_thread2: "thread2_step s = Some t \<Longrightarrow> quiet_step s t"
  using quiet_step.move [of Thread2 s t] by simp

lemmas one_step = converse_rtranclp_into_rtranclp [of quiet_step]

lemma copy1:
  assumes "A ! i = packet3 m c n" "length A = 10" "i < 10" "CHR 0x00 \<notin> set m" "length m \<le> 38"
    and "length (contents a) = 40" "tbl w = A" "idx w = i" "j \<le> length m" "obj1 s = Mapped"
  shows "quiet_step\<^sup>*\<^sup>* (s\<lparr>area1 := copied m j a, th1 := w\<lparr>at := Copy j\<rparr>\<rparr>)
     (s\<lparr>area1 := copied m (Suc (length m)) a, th1 := w\<lparr>at := SetCommand\<rparr>\<rparr>)"
  using assms(9)
proof (induction j rule: inc_induct)
  case base
  have "poke m (length m) (copied m (length m) a) = Some (copied m (Suc (length m)) a)"
    using assms(5,6) by (intro poke_copied) simp
  moreover have "after_char m (length m) = SetCommand" using char_no_zero [OF assms(4)] by (simp add: after_char_def)
  ultimately show ?case using assms(1-3,7,8,10)
    by (intro r_into_rtranclp quiet_thread1) (simp add: thread1_step_def goto1_def nth_opt_def)
next
  case (step j)
  have "poke m j (copied m j a) = Some (copied m (Suc j) a)"
    using assms(5,6) step.hyps by (intro poke_copied) simp
  moreover have "after_char m j = Copy (Suc j)" using char_no_zero [OF assms(4), of j] step.hyps by (simp add: after_char_def)
  ultimately have "thread1_step (s\<lparr>area1 := copied m j a, th1 := w\<lparr>at := Copy j\<rparr>\<rparr>)
      = Some (s\<lparr>area1 := copied m (Suc j) a, th1 := w\<lparr>at := Copy (Suc j)\<rparr>\<rparr>)"
    using assms(1-3,7,8,10) by (simp add: thread1_step_def goto1_def nth_opt_def)
  then show ?case using step.IH by (blast intro: one_step quiet_thread1)
qed

lemma copy2:
  assumes "A ! i = packet3 m c n" "length A = 10" "i < 10" "CHR 0x00 \<notin> set m" "length m \<le> 38"
    and "length (contents a) = 40" "tbl w = A" "idx w = i" "j \<le> length m" "obj2 s = Mapped"
  shows "quiet_step\<^sup>*\<^sup>* (s\<lparr>area2 := copied m j a, th2 := w\<lparr>at := Copy j\<rparr>\<rparr>)
     (s\<lparr>area2 := copied m (Suc (length m)) a, th2 := w\<lparr>at := SetCommand\<rparr>\<rparr>)"
  using assms(9)
proof (induction j rule: inc_induct)
  case base
  have "poke m (length m) (copied m (length m) a) = Some (copied m (Suc (length m)) a)"
    using assms(5,6) by (intro poke_copied) simp
  moreover have "after_char m (length m) = SetCommand" using char_no_zero [OF assms(4)] by (simp add: after_char_def)
  ultimately show ?case using assms(1-3,7,8,10)
    by (intro r_into_rtranclp quiet_thread2) (simp add: thread2_step_def goto2_def nth_opt_def)
next
  case (step j)
  have "poke m j (copied m j a) = Some (copied m (Suc j) a)"
    using assms(5,6) step.hyps by (intro poke_copied) simp
  moreover have "after_char m j = Copy (Suc j)" using char_no_zero [OF assms(4), of j] step.hyps by (simp add: after_char_def)
  ultimately have "thread2_step (s\<lparr>area2 := copied m j a, th2 := w\<lparr>at := Copy j\<rparr>\<rparr>)
      = Some (s\<lparr>area2 := copied m (Suc j) a, th2 := w\<lparr>at := Copy (Suc j)\<rparr>\<rparr>)"
    using assms(1-3,7,8,10) by (simp add: thread2_step_def goto2_def nth_opt_def)
  then show ?case using step.IH by (blast intro: one_step quiet_thread2)
qed

text \<open>Thread 1 from the top of its loop to the store of the command, and on to its spin loop.\<close>

lemma store_message1:
  assumes "at (th1 s) = Top" "idx (th1 s) = i" "i < 10" "tbl (th1 s) = packets1" "\<not> flag s"
    and "packets1 ! i = packet3 m c n" "CHR 0x00 \<notin> set m" "length m \<le> 38" "length (contents (area1 s)) = 40"
    and "obj1 s = Mapped"
  shows "quiet_step\<^sup>*\<^sup>* s (s\<lparr>area1 := copied m (Suc (length m)) (area1 s), th1 := (th1 s)\<lparr>at := SetCommand\<rparr>\<rparr>)"
proof -
  have "thread1_step s = Some (s\<lparr>area1 := copied m 0 (area1 s), th1 := (th1 s)\<lparr>at := Copy 0\<rparr>\<rparr>)"
    using assms by (simp add: thread1_step_def goto1_def)
  then show ?thesis
    using copy1 [OF assms(6) _ assms(3,7,8,9,4,2) _ assms(10), of 0]
    by (auto intro: one_step quiet_thread1)
qed

lemma to_spin1:
  assumes "at (th1 s) = Top" "idx (th1 s) = i" "i < 10" "tbl (th1 s) = packets1" "\<not> flag s"
    and "packets1 ! i = packet3 m c n" "CHR 0x00 \<notin> set m" "length m \<le> 38" "length (contents (area1 s)) = 40"
    and "obj1 s = Mapped"
  shows "quiet_step\<^sup>*\<^sup>* s (s\<lparr>area1 := filled m c n (area1 s), th1 := (th1 s)\<lparr>at := Spin\<rparr>\<rparr>)"
proof -
  let ?s1 = "s\<lparr>area1 := copied m (Suc (length m)) (area1 s), th1 := (th1 s)\<lparr>at := SetCommand\<rparr>\<rparr>"
  let ?s2 = "s\<lparr>area1 := (copied m (Suc (length m)) (area1 s))\<lparr>cmd := c\<rparr>, th1 := (th1 s)\<lparr>at := SetLength\<rparr>\<rparr>"
  have "thread1_step ?s1 = Some ?s2"
    using assms(2,3,4,6) by (simp add: thread1_step_def goto1_def nth_opt_def)
  moreover have "thread1_step ?s2 = Some (s\<lparr>area1 := filled m c n (area1 s), th1 := (th1 s)\<lparr>at := Spin\<rparr>\<rparr>)"
    using assms(2,3,4,6) by (simp add: thread1_step_def goto1_def nth_opt_def filled_def)
  ultimately show ?thesis
    using store_message1 [OF assms]
    by (meson quiet_thread1 rtranclp.rtrancl_into_rtrancl)
qed

text \<open>Thread 1 leaves the spin loop, logs what is in the second area and clears the flag.\<close>

lemma consume1:
  assumes "at (th1 s) = Spin" "send s" "obj2 s = Mapped"
  shows "quiet_step\<^sup>*\<^sup>* s (s\<lparr>send := False, log := log s @ [Got Thread1 (area_packet (area2 s))],
     th1 := (th1 s)\<lparr>arg_cmd := cmd (area2 s), arg_len := slen (area2 s), idx := Suc (idx (th1 s)), at := Top\<rparr>\<rparr>)"
proof -
  let ?w = "(th1 s)\<lparr>arg_cmd := cmd (area2 s), arg_len := slen (area2 s)\<rparr>"
  let ?s1 = "s\<lparr>th1 := (th1 s)\<lparr>at := LoadArgs\<rparr>\<rparr>" and ?s2 = "s\<lparr>th1 := ?w\<lparr>at := Print\<rparr>\<rparr>"
  let ?s3 = "s\<lparr>log := log s @ [Got Thread1 (area_packet (area2 s))], th1 := ?w\<lparr>at := ClearSend\<rparr>\<rparr>"
  have "thread1_step s = Some ?s1" using assms by (simp add: thread1_step_def goto1_def)
  moreover have "thread1_step ?s1 = Some ?s2" using assms(3) by (simp add: thread1_step_def)
  moreover have "thread1_step ?s2 = Some ?s3"
    by (simp add: thread1_step_def shm_ops printed_def area_packet_def)
  moreover have "thread1_step ?s3 = Some (s\<lparr>send := False, log := log s @ [Got Thread1 (area_packet (area2 s))],
     th1 := ?w\<lparr>idx := Suc (idx (th1 s)), at := Top\<rparr>\<rparr>)"
    by (simp add: thread1_step_def)
  ultimately show ?thesis
    by (meson quiet_thread1 rtranclp.rtrancl_into_rtrancl rtranclp.rtrancl_refl)
qed

text \<open>Thread 2 logs what is in the first area, and goes through its round.\<close>

lemma print2:
  assumes "at (th2 s) = Top" "idx (th2 s) < 10" "\<not> flag s" "obj1 s = Mapped"
  shows "quiet_step\<^sup>*\<^sup>* s (s\<lparr>log := log s @ [Got Thread2 (area_packet (area1 s))],
     th2 := (th2 s)\<lparr>arg_cmd := cmd (area1 s), arg_len := slen (area1 s), at := Copy 0\<rparr>\<rparr>)"
proof -
  let ?w = "(th2 s)\<lparr>arg_cmd := cmd (area1 s), arg_len := slen (area1 s)\<rparr>"
  let ?s1 = "s\<lparr>th2 := (th2 s)\<lparr>at := LoadArgs\<rparr>\<rparr>" and ?s2 = "s\<lparr>th2 := ?w\<lparr>at := Print\<rparr>\<rparr>"
  have "thread2_step s = Some ?s1" using assms by (simp add: thread2_step_def goto2_def)
  moreover have "thread2_step ?s1 = Some ?s2" using assms(4) by (simp add: thread2_step_def)
  moreover have "thread2_step ?s2 = Some (s\<lparr>log := log s @ [Got Thread2 (area_packet (area1 s))],
     th2 := ?w\<lparr>at := Copy 0\<rparr>\<rparr>)"
    by (simp add: thread2_step_def shm_ops printed_def area_packet_def)
  ultimately show ?thesis
    by (meson quiet_thread2 rtranclp.rtrancl_into_rtrancl rtranclp.rtrancl_refl)
qed

lemma round2:
  assumes "at (th2 s) = Top" "idx (th2 s) = i" "i < 10" "tbl (th2 s) = packets2" "\<not> flag s"
    and "packets2 ! i = packet3 m c n" "CHR 0x00 \<notin> set m" "length m \<le> 38" "length (contents (area2 s)) = 40"
    and "obj1 s = Mapped" "obj2 s = Mapped"
  shows "quiet_step\<^sup>*\<^sup>* s (s\<lparr>log := log s @ [Got Thread2 (area_packet (area1 s))],
     area2 := filled m c n (area2 s), send := True,
     th2 := (th2 s)\<lparr>arg_cmd := cmd (area1 s), arg_len := slen (area1 s), idx := Suc i, at := Top\<rparr>\<rparr>)"
proof -
  let ?w = "(th2 s)\<lparr>arg_cmd := cmd (area1 s), arg_len := slen (area1 s)\<rparr>"
  let ?l = "s\<lparr>log := log s @ [Got Thread2 (area_packet (area1 s))]\<rparr>"
  let ?a = "copied m (Suc (length m)) (area2 s)"
  let ?s1 = "?l\<lparr>area2 := ?a, th2 := ?w\<lparr>at := SetCommand\<rparr>\<rparr>"
  let ?s2 = "?l\<lparr>area2 := ?a\<lparr>cmd := c\<rparr>, th2 := ?w\<lparr>at := SetLength\<rparr>\<rparr>"
  let ?s3 = "?l\<lparr>area2 := filled m c n (area2 s), th2 := ?w\<lparr>idx := Suc i, at := SetSend\<rparr>\<rparr>"
  have "quiet_step\<^sup>*\<^sup>* s ?s1"
    using print2 [of s] copy2 [OF assms(6) _ assms(3,7,8,9), of ?w 0 ?l] assms
    by (simp add: rtranclp_trans)
  moreover have "thread2_step ?s1 = Some ?s2"
    using assms(2,3,4,6) by (simp add: thread2_step_def goto2_def nth_opt_def)
  moreover have "thread2_step ?s2 = Some ?s3"
    using assms(2,3,4,6) by (simp add: thread2_step_def nth_opt_def filled_def)
  moreover have "thread2_step ?s3 = Some (?l\<lparr>area2 := filled m c n (area2 s), send := True,
      th2 := ?w\<lparr>idx := Suc i, at := Top\<rparr>\<rparr>)"
    by (simp add: thread2_step_def goto2_def)
  ultimately have "quiet_step\<^sup>*\<^sup>* s (?l\<lparr>area2 := filled m c n (area2 s), send := True,
      th2 := ?w\<lparr>idx := Suc i, at := Top\<rparr>\<rparr>)"
    by (meson quiet_thread2 rtranclp.rtrancl_into_rtrancl)
  then show ?thesis by simp
qed

text \<open>\<open>k\<close> rounds in a row, while thread 1 does nothing.\<close>

definition ahead2 :: "shm \<Rightarrow> nat \<Rightarrow> shm \<Rightarrow> bool" where
  "ahead2 s k t \<longleftrightarrow> at (th2 t) = Top \<and> idx (th2 t) = k \<and> tbl (th2 t) = packets2 \<and> flag t = flag s
     \<and> mpc t = mpc s \<and> th1 t = th1 s \<and> area1 t = area1 s \<and> obj1 t = Mapped \<and> obj2 t = Mapped
     \<and> created t = created s \<and> length (contents (area2 t)) = 40
     \<and> got Thread1 (log t) = got Thread1 (log s)
     \<and> got Thread2 (log t) = got Thread2 (log s) @ replicate k (area_packet (area1 s))
     \<and> (0 < k \<longrightarrow> send t \<and> area_packet (area2 t) = packets2 ! (k - 1))"

lemma rounds2: "ahead2 s 0 s \<Longrightarrow> \<not> flag s \<Longrightarrow> k \<le> 10 \<Longrightarrow> \<exists>t. quiet_step\<^sup>*\<^sup>* s t \<and> ahead2 s k t"
proof (induction k)
  case (Suc k)
  then obtain t where t: "quiet_step\<^sup>*\<^sup>* s t" "ahead2 s k t" by auto
  obtain m c n where p: "packets2 ! k = packet3 m c n" "length m \<le> 38" "CHR 0x00 \<notin> set m"
    using sendable_nth [OF sendable_tables(2), of k] Suc.prems(3) by auto
  let ?u = "t\<lparr>log := log t @ [Got Thread2 (area_packet (area1 t))],
     area2 := filled m c n (area2 t), send := True,
     th2 := (th2 t)\<lparr>arg_cmd := cmd (area1 t), arg_len := slen (area1 t), idx := Suc k, at := Top\<rparr>\<rparr>"
  have "quiet_step\<^sup>*\<^sup>* t ?u"
    using t(2) p Suc.prems by (intro round2) (auto simp: ahead2_def)
  moreover have "ahead2 s (Suc k) ?u"
    using t(2) p area_filled [OF p(2,3), of "area2 t" c n]
    by (simp add: ahead2_def replicate_append_same)
  ultimately show ?case using t(1) by (meson rtranclp_trans)
qed auto

text \<open>Both threads at the top of their loops, nothing logged.\<close>

definition shm_ready :: shm where
  "shm_ready = shm_start\<lparr>th1 := new_worker\<lparr>tbl := packets1, at := Top\<rparr>,
     th2 := new_worker\<lparr>tbl := packets2, at := Top\<rparr>, linked1 := True, linked2 := True, mpc := MJoin1,
     log := [Entering Main, Entering Thread1, Entering Thread2]\<rparr>"

lemma reach_ready: "quiet_step\<^sup>*\<^sup>* shm_start shm_ready"
proof -
  have "run (\<lambda>w. shm_act (Run w)) [Main, Main, Main, Thread1, Thread2] shm_start = Some shm_ready"
    by (simp add: shm_start_def shm_init_def shm_ready_def main_step_def thread1_step_def thread2_step_def new_worker_def
        fill_table1 fill_table2 shm_ops)
  then show ?thesis by (rule run_reaches [rotated]) (rule quiet_step.move)
qed

lemma first_packet: "packets1 ! 0 = packet3 (messages1 ! 0) ON 35"
  and second_packet: "packets1 ! 1 = packet3 (messages1 ! 1) OFF 24"
  by (simp_all add: packets1_def messages1_def led_list_def packet_of_def)

text \<open>Thread 1 has stored its first packet and spins; thread 2 has done \<open>k\<close> rounds.\<close>

lemma spinning:
  assumes "k \<le> 10"
  shows "\<exists>s. quiet_step\<^sup>*\<^sup>* shm_start s \<and> at (th1 s) = Spin \<and> idx (th1 s) = 0 \<and> tbl (th1 s) = packets1
     \<and> at (th2 s) = Top \<and> idx (th2 s) = k \<and> \<not> flag s \<and> mpc s = MJoin1 \<and> area_packet (area1 s) = packets1 ! 0
     \<and> length (contents (area1 s)) = 40 \<and> got Thread1 (log s) = [] \<and> got Thread2 (log s) = replicate k (packets1 ! 0)
     \<and> obj1 s = Mapped \<and> obj2 s = Mapped \<and> created s = (Made, Made)
     \<and> (0 < k \<longrightarrow> send s \<and> area_packet (area2 s) = packets2 ! (k - 1))"
proof -
  let ?s = "shm_ready\<lparr>area1 := filled (messages1 ! 0) ON 35 (area1 shm_ready), th1 := (th1 shm_ready)\<lparr>at := Spin\<rparr>\<rparr>"
  have m: "length (messages1 ! 0) \<le> 38" "CHR 0x00 \<notin> set (messages1 ! 0)" by (simp_all add: messages1_def)
  have "quiet_step\<^sup>*\<^sup>* shm_ready ?s"
    using first_packet m
    by (intro to_spin1) (auto simp: shm_ready_def shm_start_def shm_init_def new_worker_def zero_area_def)
  moreover have a: "area_packet (area1 ?s) = packets1 ! 0 \<and> length (contents (area1 ?s)) = 40"
    using area_filled [OF m, of zero_area ON 35] first_packet
    by (simp add: shm_ready_def shm_start_def shm_init_def zero_area_def)
  moreover have s0: "ahead2 ?s 0 ?s" "\<not> flag ?s"
    by (simp_all add: ahead2_def shm_ready_def shm_start_def shm_init_def new_worker_def zero_area_def)
  moreover obtain t where "quiet_step\<^sup>*\<^sup>* ?s t" "ahead2 ?s k t" using rounds2 [OF s0 assms] by blast
  ultimately have "quiet_step\<^sup>*\<^sup>* shm_start t \<and> ahead2 ?s k t"
    using reach_ready by (meson rtranclp_trans)
  then show ?thesis using a
    by (intro exI [of _ t]) (auto simp: ahead2_def shm_ready_def shm_start_def shm_init_def new_worker_def)
qed

section \<open>Joining the threads\<close>

lemma mjoins_main:
  "main_step s = Some t \<Longrightarrow> created t = created s \<and> mpc t \<in> main_moves (created s) (mpc s)
     \<and> (fst (created s) = Made \<or> th1 t = th1 s) \<and> (snd (created s) = Made \<or> th2 t = th2 s)
     \<and> (stage MJoin1 < stage (mpc s) \<longrightarrow> th1 t = th1 s) \<and> (stage MJoin2 < stage (mpc s) \<longrightarrow> th2 t = th2 s)
     \<and> (Exiting Main \<in> set (log t) \<longrightarrow> Exiting Main \<in> set (log s) \<or> mpc t = MDone) \<and> set (err s) \<subseteq> set (err t)"
  by (cases "mpc s")
     (auto simp: main_step_def shm_ops after_join_def split: if_splits birth.splits option.splits)

lemma mjoins_passed:
  "main_step s = Some t \<Longrightarrow> (mpc s = MJoin1 \<and> fst (created s) = Made \<longrightarrow> at (th1 t) = Ended)
     \<and> (mpc s = MJoin2 \<and> snd (created s) = Made \<longrightarrow> at (th2 t) = Ended)
     \<and> (fails_at (created s) (mpc s) \<longrightarrow> complaint (mpc s) \<in> set (err t))"
  by (cases "mpc s")
     (auto simp: main_step_def shm_ops bad_join_def split: if_splits birth.splits option.splits)

lemma mact_cases:
  "shm_act a s = Some t \<Longrightarrow> main_step s = Some t \<or> thread1_step s = Some t \<or> thread2_step s = Some t
     \<or> t = kill_thread_handler SIGINT s"
  by (cases a) (auto split: who.splits)

interpretation mjoin: main_joins step main_step thread1_step thread2_step
  "\<lambda>(w :: who) s. kill_thread_handler SIGINT (s)" mpc created
  "\<lambda>s. at (th1 s) = NotStarted" "\<lambda>s. at (th2 s) = NotStarted" "\<lambda>s. at (th1 s) = Ended" "\<lambda>s. at (th2 s) = Ended"
  "\<lambda>s. Exiting Main \<in> set (log s)" "\<lambda>p s. complaint p \<in> set (err s)"
proof
  fix s t p and w :: who
  show "main_step s = Some t \<or> thread1_step s = Some t \<or> thread2_step s = Some t
    \<or> (\<exists>w :: who. t = kill_thread_handler SIGINT (s))" if "step s t"
    using that mact_cases by (auto elim!: step.cases)
  let ?t = "kill_thread_handler SIGINT (s)"
  show "created ?t = created s \<and> mpc ?t = mpc s \<and> (at (th1 s) = NotStarted \<longrightarrow> at (th1 ?t) = NotStarted)
    \<and> (at (th2 s) = NotStarted \<longrightarrow> at (th2 ?t) = NotStarted)
    \<and> (at (th1 s) = Ended \<longrightarrow> at (th1 ?t) = Ended) \<and> (at (th2 s) = Ended \<longrightarrow> at (th2 ?t) = Ended)
    \<and> (Exiting Main \<in> set (log ?t)) = (Exiting Main \<in> set (log s))
    \<and> (complaint p \<in> set (err s) \<longrightarrow> complaint p \<in> set (err ?t))"
    by (simp add: kill_thread_handler_def printf_def)
qed ((drule mjoins_main, fastforce)[1], (drule mjoins_passed, fastforce)[1],
    (drule moves1, fastforce)[1], (drule moves2, fastforce)[1])

section \<open>Properties\<close>

lemma quiet_reach: "quiet_step\<^sup>*\<^sup>* s t \<Longrightarrow> step\<^sup>*\<^sup>* s t"
proof (induction rule: rtranclp_induct)
  case (step t u)
  from step.hyps(2) have "step t u" by (cases rule: quiet_step.cases) (rule step.act)
  with step.IH show ?case by (rule rtranclp.rtrancl_into_rtrancl)
qed simp

text \<open>C16: whatever the interleaving and the signals, whichever calls of \<open>main\<close> fail, and also with objects
  that an earlier run has left with a zero in their last byte, the last byte of both message fields is
  zero, so printing a message never runs past its 40 bytes, even while the other thread is copying into it.\<close>

theorem shm_text_terminated:
  assumes "step\<^sup>*\<^sup>* (shm_init a1 a2 o1 o2 c) s" "ends_zero a1" "ends_zero a2"
  shows "c_string (map Some (contents (area1 s))) \<noteq> None \<and> c_string (map Some (contents (area2 s))) \<noteq> None
     \<and> length (contents (area1 s)) = 40 \<and> length (contents (area2 s)) = 40"
  using sane_reach [OF assms] c_string_byte39 by (simp add: sane_def ends_zero_def)

theorem shm_text_terminated_witness:
  "\<exists>s. step\<^sup>*\<^sup>* (shm_init zero_area zero_area Mapped Mapped (Made, Made)) s \<and> mpc s = MJoin1
     \<and> c_string (map Some (contents (area1 s))) \<noteq> None"
  using quiet_reach [OF reach_ready]
    shm_text_terminated [OF quiet_reach [OF reach_ready, unfolded shm_start_def] ends_zero_new ends_zero_new]
  by (intro exI [of _ shm_ready]) (simp add: shm_ready_def shm_start_def)

text \<open>in every run, signals included, thread 1 logs an answer only for a packet that thread 2 has
  logged before, and neither logs more than ten: the flag \<open>send\<close> is never consumed more often than
  it was set.\<close>

lemma shm_answers_bounded:
  assumes "step\<^sup>*\<^sup>* shm_start s"
  shows "length (got Thread1 (log s)) \<le> length (got Thread2 (log s)) \<and> length (got Thread2 (log s)) \<le> 10"
proof -
  have s: "sane s" using start_reach [OF assms] by blast
  have "logged1 (th1 s) \<le> sets2 (th2 s)"
    using s by (auto simp: sane_def logged1_def consuming_def)
  moreover have "sets2 (th2 s) \<le> logged2 (th2 s)" by (simp add: sets2_def logged2_def)
  moreover have "logged2 (th2 s) \<le> 10"
    using s by (cases "at (th2 s)") (auto simp: sane_def logged2_def)
  ultimately show ?thesis using s by (simp add: sane_def)
qed

text \<open>nothing makes thread 2 wait. Without any signal it can log the first packet ten times, send
  its ten answers and end, of which thread 1 sees only the last; thread 1 then spins for an answer
  that never comes, and the process hangs.\<close>

lemma shm_no_handshake:
  "\<exists>s. quiet_step\<^sup>*\<^sup>* shm_start s \<and> got Thread2 (log s) = replicate 10 (packets1 ! 0)
     \<and> got Thread1 (log s) = [packets2 ! 9] \<and> at (th1 s) = Spin \<and> at (th2 s) = Ended
     \<and> (\<forall>t. \<not> quiet_step s t)"
proof -
  obtain s where s: "quiet_step\<^sup>*\<^sup>* shm_start s" and th1: "at (th1 s) = Spin" "idx (th1 s) = 0" "tbl (th1 s) = packets1"
    and th2: "at (th2 s) = Top" "idx (th2 s) = 10" and f: "\<not> flag s" "mpc s = MJoin1" "send s"
    and a: "length (contents (area1 s)) = 40" "area_packet (area2 s) = packets2 ! 9"
    and l: "got Thread1 (log s) = []" "got Thread2 (log s) = replicate 10 (packets1 ! 0)"
    and o: "obj1 s = Mapped" "obj2 s = Mapped" "created s = (Made, Made)"
    using spinning [of 10] by auto
  let ?s1 = "s\<lparr>log := log s @ [Exiting Thread2], th2 := (th2 s)\<lparr>at := Ended\<rparr>\<rparr>"
  let ?s2 = "?s1\<lparr>send := False, log := log ?s1 @ [Got Thread1 (area_packet (area2 ?s1))],
     th1 := (th1 ?s1)\<lparr>arg_cmd := cmd (area2 ?s1), arg_len := slen (area2 ?s1), idx := Suc (idx (th1 ?s1)), at := Top\<rparr>\<rparr>"
  let ?s3 = "?s2\<lparr>area1 := filled (messages1 ! 1) OFF 24 (area1 ?s2), th1 := (th1 ?s2)\<lparr>at := Spin\<rparr>\<rparr>"
  have "thread2_step s = Some ?s1" using th2 f by (simp add: thread2_step_def shm_ops)
  moreover have "quiet_step\<^sup>*\<^sup>* ?s1 ?s2" using th1 f o by (intro consume1) simp_all
  moreover have "quiet_step\<^sup>*\<^sup>* ?s2 ?s3"
    using th1 f a o second_packet by (intro to_spin1 [where i = 1]) (simp_all add: messages1_def)
  ultimately have "quiet_step\<^sup>*\<^sup>* shm_start ?s3"
    using s by (meson quiet_thread2 rtranclp.rtrancl_into_rtrancl rtranclp_trans)
  moreover have "\<not> quiet_step ?s3 t" for t
    using f o by (auto elim!: quiet_stepE simp: main_step_def thread1_step_def thread2_step_def split: who.splits)
  ultimately show ?thesis using a l by (intro exI [of _ ?s3]) simp
qed

text \<open>Torn packets. Thread 2 can log the message of thread 1's second packet with the command and
  the length of its first.\<close>

lemma shm_torn_packet:
  "\<exists>s. quiet_step\<^sup>*\<^sup>* shm_start s
     \<and> last (got Thread2 (log s)) = (packets1 ! 1)\<lparr>command := command (packets1 ! 0), string_len := string_len (packets1 ! 0)\<rparr>
     \<and> last (got Thread2 (log s)) \<notin> set packets1"
proof -
  obtain s where s: "quiet_step\<^sup>*\<^sup>* shm_start s" and th1: "at (th1 s) = Spin" "idx (th1 s) = 0" "tbl (th1 s) = packets1"
    and th2: "at (th2 s) = Top" "idx (th2 s) = 1" and f: "\<not> flag s" "send s"
    and a: "length (contents (area1 s)) = 40" "area_packet (area1 s) = packets1 ! 0"
    and o: "obj1 s = Mapped" "obj2 s = Mapped"
    using spinning [of 1] by auto
  let ?m = "messages1 ! 1"
  have m: "length ?m = 24" "CHR 0x00 \<notin> set ?m" by (simp_all add: messages1_def)
  let ?s1 = "s\<lparr>send := False, log := log s @ [Got Thread1 (area_packet (area2 s))],
     th1 := (th1 s)\<lparr>arg_cmd := cmd (area2 s), arg_len := slen (area2 s), idx := Suc (idx (th1 s)), at := Top\<rparr>\<rparr>"
  let ?s2 = "?s1\<lparr>area1 := copied ?m (Suc (length ?m)) (area1 ?s1), th1 := (th1 ?s1)\<lparr>at := SetCommand\<rparr>\<rparr>"
  let ?s3 = "?s2\<lparr>log := log ?s2 @ [Got Thread2 (area_packet (area1 ?s2))],
     th2 := (th2 ?s2)\<lparr>arg_cmd := cmd (area1 ?s2), arg_len := slen (area1 ?s2), at := Copy 0\<rparr>\<rparr>"
  have "quiet_step\<^sup>*\<^sup>* s ?s1" using th1 f o by (intro consume1) simp_all
  moreover have "quiet_step\<^sup>*\<^sup>* ?s1 ?s2"
    using th1 f a o m second_packet by (intro store_message1 [where i = 1]) simp_all
  moreover have "quiet_step\<^sup>*\<^sup>* ?s2 ?s3" using th2 f o by (intro print2) simp_all
  ultimately have "quiet_step\<^sup>*\<^sup>* shm_start ?s3" using s by (meson rtranclp_trans)
  moreover have "area_packet (area1 ?s2) = (packets1 ! 1)\<lparr>command := command (packets1 ! 0), string_len := string_len (packets1 ! 0)\<rparr>"
    using a c_string_copied [OF m(2), of "area1 s"] m(1) first_packet second_packet upt_Suc_append [of 0 24]
    by (simp add: area_packet_def copied_def)
  moreover have "(packets1 ! 1)\<lparr>command := command (packets1 ! 0), string_len := string_len (packets1 ! 0)\<rparr> \<notin> set packets1"
    by (simp add: packets1_def messages1_def led_list_def packet_of_def)
  ultimately show ?thesis by (intro exI [of _ ?s3]) simp
qed

text \<open>C17: a SIGINT always ends the program: the threads make at most 1320 moves in any run, and once
  the flag is set one of them can move until \<open>main\<close> has ended.\<close>

theorem shm_signal_ends:
  assumes "run shm_act as shm_start = Some s"
  shows "length (filter is_run as) \<le> 1320
     \<and> (flag s \<and> mpc s \<noteq> MDone \<longrightarrow> (\<exists>w t. shm_act (Run w) s = Some t))"
proof -
  have b: "begun_state shm_start" by (simp add: begun_state_def shm_start_def shm_init_def new_worker_def)
  note r = run_work [OF sane_start b assms]
  have "work shm_start = 1320" by (simp add: work_def shm_start_def shm_init_def new_worker_def)
  with r live_flag show ?thesis by auto
qed

theorem shm_signal_ends_witness:
  "\<exists>s w t. run shm_act [Run Main, Interrupt Thread2] shm_start = Some s \<and> flag s \<and> shm_act (Run w) s = Some t"
proof -
  obtain s where s: "run shm_act [Run Main, Interrupt Thread2] shm_start = Some s" "flag s" "mpc s = MCreate1"
    by (simp add: shm_start_def shm_init_def main_step_def shm_ops kill_thread_handler_def)
  with shm_signal_ends [OF s(1)] show ?thesis by auto
qed

end
