(* ===== verification/Sockets.thy ===== *)
theory Sockets
  imports Handshake Creation
begin

text \<open>
  \<^verbatim>\<open>HW4_APES/PROBLEM2/ipc_sockets_thread/sockets.c\<close>: the exchange over a TCP connection on port
  9002. Thread 1 listens and accepts, thread 2 connects.

  Each direction of the connection is a stream of bytes. \<open>recv\<close> blocks on an empty stream and
  otherwise delivers at least one byte and at most as many as asked for; how many it delivers when
  so many are available is a parameter (\<open>deliver\<close>). The program ignores what \<open>bind\<close>, \<open>connect\<close>,
  \<open>send\<close> and \<open>recv\<close> return, so after a failed or short \<open>recv\<close> it logs what the buffer holds. A
  \<open>send\<close> of thread 2 without a connection raises SIGPIPE, which ends the process (\<open>dead\<close>).
  In all, 480 bytes are sent each way, less than a socket buffer holds: \<open>send\<close> does not block.
\<close>

section \<open>State\<close>

record sockets =
  flag :: bool
  th1 :: "byte cells thread"
  th2 :: "byte cells thread"
  str1 :: "byte cells"
  str2 :: "byte cells"
  can_bind :: bool
  bound :: bool
  listening :: bool
  connected :: bool
  client :: bool
  server_open :: bool
  network_open :: bool
  deliver :: "nat \<Rightarrow> nat"
  dead :: bool
  created :: "birth \<times> birth"
  log :: "entry list"
  console :: "string list"
  err :: "string list"
  mpc :: main_pc

text \<open>\<open>str1\<close> carries the bytes of thread 1, \<open>str2\<close> those of thread 2; \<open>can_bind\<close>: port 9002 is
  free; \<open>bound\<close>: thread 1 has made its calls up to \<open>listen\<close>; \<open>listening\<close>: somebody listens on the
  port; \<open>client\<close>: \<open>accept\<close> returned a connection; \<open>created\<close>: what the two \<open>pthread_create\<close> calls
  will do.\<close>

definition sockets_init :: "bool \<Rightarrow> (nat \<Rightarrow> nat) \<Rightarrow> birth \<times> birth \<Rightarrow> sockets" where
  "sockets_init b d c = \<lparr>flag = False, th1 = new_thread (uninit packet_size),
     th2 = new_thread (uninit packet_size), str1 = [], str2 = [], can_bind = b, bound = False,
     listening = False, connected = False, client = False, server_open = False,
     network_open = False, deliver = d, dead = False, created = c, log = [],
     console = [], err = [], mpc = MStart\<rparr>"

definition log_line :: "entry \<Rightarrow> sockets \<Rightarrow> sockets" where
  "log_line e s = s\<lparr>log := log s @ [e]\<rparr>"

definition perror :: "string \<Rightarrow> sockets \<Rightarrow> sockets" where
  "perror m s = s\<lparr>err := err s @ [m]\<rparr>"

definition printf :: "string \<Rightarrow> sockets \<Rightarrow> sockets" where
  "printf m s = s\<lparr>console := console s @ [m]\<rparr>"

text \<open>\<open>recv\<close> of up to 48 bytes into the buffer \<open>b\<close>: the new buffer and the rest of the stream.\<close>

definition recv :: "bool \<Rightarrow> (nat \<Rightarrow> nat) \<Rightarrow> byte cells \<Rightarrow> byte cells \<Rightarrow> (byte cells \<times> byte cells) call" where
  "recv ok d q b = (if \<not> ok then Fails else if q = [] then Blocks
     else let n = min packet_size (min (length q) (Suc (d (length q))))
       in Returns (put b 0 (take n q), drop n q))"

section \<open>The first thread\<close>

definition commands1 :: "(nat \<times> led_cmd) list" where
  "commands1 = [(0, ON), (1, OFF), (2, TOGGLE), (3, FAULT), (4, WARNING), (5, CRITICAL), (6, SAFE),
     (7, BLINK), (6, DAMAGED), (7, OUT_OF_RANGE)]"

definition goto1 :: "pc \<Rightarrow> sockets \<Rightarrow> sockets" where
  "goto1 p s = s\<lparr>th1 := (th1 s)\<lparr>pc := p\<rparr>\<rparr>"

definition received1 :: "sockets \<Rightarrow> byte cells \<times> byte cells \<Rightarrow> sockets" where
  "received1 s = (\<lambda>(b, q). s\<lparr>str2 := q, th1 := (th1 s)\<lparr>rbuf := b, idx := idx (th1 s) + 1, pc := Logging\<rparr>\<rparr>)"

definition recv_failed1 :: "sockets \<Rightarrow> sockets" where
  "recv_failed1 s = s\<lparr>th1 := (th1 s)\<lparr>idx := idx (th1 s) + 1, pc := Logging\<rparr>\<rparr>"

text \<open>The table is filled, the socket bound and listening; then \<open>accept\<close> waits for a connection.\<close>

primrec thread1_at :: "pc \<Rightarrow> sockets \<Rightarrow> sockets option" where
  "thread1_at NotStarted s = None"
| "thread1_at Start s =
     (if \<not> bound s then do {
        t \<leftarrow> fill_table (indexed messages1) commands1 [0..<10];
        Some (s\<lparr>th1 := (th1 s)\<lparr>tbl := t\<rparr>, bound := True, server_open := True, listening := can_bind s\<rparr>)
      }
      else if connected s then Some (log_line (Entering Thread1) (goto1 Top s)\<lparr>client := True\<rparr>)
      else None)"
| "thread1_at Top s = Some
     (if flag s then log_line (Killed Thread1) (goto1 Ended s)
      else if idx (th1 s) = 10 then log_line (Exiting Thread1) (goto1 Ended s)
      else goto1 Sending s)"
| "thread1_at Sending s = do {
     m \<leftarrow> nth_opt (tbl (th1 s)) (idx (th1 s));
     Some (goto1 Receiving (if client s then s\<lparr>str1 := str1 s @ packet_bytes m\<rparr> else s))
   }"
| "thread1_at SendWaiting s = None"
| "thread1_at Receiving s = Some (case recv (client s) (deliver s) (str2 s) (rbuf (th1 s)) of
     Fails \<Rightarrow> recv_failed1 s
   | Blocks \<Rightarrow> goto1 Waiting s
   | Returns bq \<Rightarrow> received1 s bq)"
| "thread1_at Waiting s = (case recv True (deliver s) (str2 s) (rbuf (th1 s)) of
     Returns bq \<Rightarrow> Some (received1 s bq)
   | _ \<Rightarrow> None)"
| "thread1_at Logging s = Some (log_line (Got Thread1 (parse_packet (rbuf (th1 s)))) (goto1 Top s))"
| "thread1_at Ended s = None"
| "thread1_at Stale s = None"

definition thread1_step :: "sockets \<Rightarrow> sockets option" where
  "thread1_step s = (if dead s then None else thread1_at (pc (th1 s)) s)"

section \<open>The second thread\<close>

definition goto2 :: "pc \<Rightarrow> sockets \<Rightarrow> sockets" where
  "goto2 p s = s\<lparr>th2 := (th2 s)\<lparr>pc := p\<rparr>\<rparr>"

definition sent2 :: "sockets \<Rightarrow> sockets" where
  "sent2 s = s\<lparr>th2 := (th2 s)\<lparr>idx := idx (th2 s) + 1, pc := Top\<rparr>\<rparr>"

definition received2 :: "sockets \<Rightarrow> byte cells \<times> byte cells \<Rightarrow> sockets" where
  "received2 s = (\<lambda>(b, q). s\<lparr>str1 := q, th2 := (th2 s)\<lparr>rbuf := b, pc := Logging\<rparr>\<rparr>)"

primrec thread2_at :: "pc \<Rightarrow> sockets \<Rightarrow> sockets option" where
  "thread2_at NotStarted s = None"
| "thread2_at Start s = do {
     t \<leftarrow> fill_table (indexed messages2) (indexed led_list) [0..<10];
     Some (log_line (Entering Thread2) (s\<lparr>th2 := (th2 s)\<lparr>tbl := t, pc := Top\<rparr>,
       network_open := True, connected := listening s\<rparr>))
   }"
| "thread2_at Top s = Some
     (if flag s then log_line (Killed Thread2) (goto2 Ended s)
      else if idx (th2 s) = 10 then log_line (Exiting Thread2) (goto2 Ended s)
      else goto2 Receiving s)"
| "thread2_at Receiving s = Some (case recv (connected s) (deliver s) (str1 s) (rbuf (th2 s)) of
     Fails \<Rightarrow> goto2 Logging s
   | Blocks \<Rightarrow> goto2 Waiting s
   | Returns bq \<Rightarrow> received2 s bq)"
| "thread2_at Waiting s = (case recv True (deliver s) (str1 s) (rbuf (th2 s)) of
     Returns bq \<Rightarrow> Some (received2 s bq)
   | _ \<Rightarrow> None)"
| "thread2_at Logging s = Some (log_line (Got Thread2 (parse_packet (rbuf (th2 s)))) (goto2 Sending s))"
| "thread2_at Sending s = do {
     m \<leftarrow> nth_opt (tbl (th2 s)) (idx (th2 s));
     Some (if connected s then sent2 (s\<lparr>str2 := str2 s @ packet_bytes m\<rparr>) else s\<lparr>dead := True\<rparr>)
   }"
| "thread2_at SendWaiting s = None"
| "thread2_at Ended s = None"
| "thread2_at Stale s = None"

definition thread2_step :: "sockets \<Rightarrow> sockets option" where
  "thread2_step s = (if dead s then None else thread2_at (pc (th2 s)) s)"

section \<open>The main thread and the signal\<close>

primrec main_at :: "main_pc \<Rightarrow> sockets \<Rightarrow> sockets option" where
  "main_at MStart s = Some ((log_line (Entering Main) s)\<lparr>mpc := MCreate1\<rparr>)"
| "main_at MCreate1 s = Some ((if fst (created s) = Made then goto1 Start s
     else perror (crlf @ ''Thread 1 creation failed: '') s)\<lparr>mpc := MCreate2\<rparr>)"
| "main_at MCreate2 s = Some ((if snd (created s) = Made then goto2 Start s
     else perror (crlf @ ''Thread 2 creation failed: '') s)\<lparr>mpc := MJoin1\<rparr>)"
| "main_at MJoin1 s = (case fst (created s) of
       Made \<Rightarrow> if pc (th1 s) = Ended then Some (s\<lparr>mpc := MJoin2\<rparr>) else None
     | Refused None \<Rightarrow> Some (s\<lparr>mpc := MLost\<rparr>)
     | Refused (Some status) \<Rightarrow> Some ((if status \<noteq> 0 then perror (crlf @ ''Thread 1 join unsuccessfull'') s else s)\<lparr>mpc := MJoin2\<rparr>))"
| "main_at MJoin2 s = (case snd (created s) of
       Made \<Rightarrow> if pc (th2 s) = Ended then Some (s\<lparr>mpc := MClose\<rparr>) else None
     | Refused None \<Rightarrow> Some (s\<lparr>mpc := MLost\<rparr>)
     | Refused (Some status) \<Rightarrow> Some ((if status \<noteq> 0 then perror (crlf @ ''Thread 2 join unsuccessfull'') s else s)\<lparr>mpc := MClose\<rparr>))"
| "main_at MClose s = Some ((log_line (Exiting Main) s)\<lparr>server_open := False, network_open := False, mpc := MDone\<rparr>)"
| "main_at MDone s = None"
| "main_at MLost s = None"

definition main_step :: "sockets \<Rightarrow> sockets option" where
  "main_step s = (if dead s then None else main_at (mpc s) s)"

definition SIGINT :: int where
  "SIGINT = 2"

definition kill_thread_handler :: "int \<Rightarrow> sockets \<Rightarrow> sockets" where
  "kill_thread_handler num s = (if num = SIGINT then (printf (crlf @ ''USR2 triggered'') s)\<lparr>flag := True\<rparr> else s)"

text \<open>The call in which the thread that takes the signal is blocked fails, \<open>accept\<close> included.\<close>

fun interrupt :: "who \<Rightarrow> sockets \<Rightarrow> sockets" where
  "interrupt Main s = s"
| "interrupt Thread1 s =
     (if pc (th1 s) = Waiting \<and> str2 s = [] then recv_failed1 s
      else if pc (th1 s) = Start \<and> bound s \<and> \<not> connected s then log_line (Entering Thread1) (goto1 Top s)
      else s)"
| "interrupt Thread2 s = (if pc (th2 s) = Waiting \<and> str1 s = [] then goto2 Logging s else s)"

primrec sockets_act :: "act \<Rightarrow> sockets \<Rightarrow> sockets option" where
  "sockets_act (Run w) s = (case w of Main \<Rightarrow> main_step s | Thread1 \<Rightarrow> thread1_step s | Thread2 \<Rightarrow> thread2_step s)"
| "sockets_act (Interrupt w) s = (if dead s then None else Some (kill_thread_handler SIGINT (interrupt w s)))"

text \<open>\<open>step\<close>: any interleaving, with signals. \<open>quiet_step\<close>: no signal arrives, and the three seconds
  that \<open>main\<close> sleeps before it creates thread 2 are enough for thread 1 to listen.\<close>

inductive step :: "sockets \<Rightarrow> sockets \<Rightarrow> bool" where
  act: "sockets_act a s = Some t \<Longrightarrow> step s t"

inductive quiet_step :: "sockets \<Rightarrow> sockets \<Rightarrow> bool" where
  by_main: "main_step s = Some t \<Longrightarrow> mpc s \<noteq> MCreate2 \<or> bound s \<Longrightarrow> quiet_step s t"
| by_thread1: "thread1_step s = Some t \<Longrightarrow> quiet_step s t"
| by_thread2: "thread2_step s = Some t \<Longrightarrow> quiet_step s t"

inductive_cases quiet_stepE: "quiet_step s t"

section \<open>Whole packets\<close>

text \<open>The table of thread 1: the two last commands went to the places 6 and 7.\<close>

definition packets1 :: "packet list" where
  "packets1 = map2 packet_of messages1
     [Some ON, Some OFF, Some TOGGLE, Some FAULT, Some WARNING, Some CRITICAL, Some DAMAGED,
      Some OUT_OF_RANGE, None, None]"

lemma fill_packets1: "fill_table (indexed messages1) commands1 [0..<10] = Some packets1"
  by (simp add: fill_table_def packets1_def commands1_def table_defs upt_rec numeral_nat)

lemma length_packets1 [simp]: "length packets1 = 10"
  by (simp add: packets1_def messages1_def)

lemma wf_packets1: "p \<in> set packets1 \<Longrightarrow> wf_packet p"
  by (auto simp: packets1_def messages1_def packet_of_def wf_packet_def)

text \<open>A stream as the packets it consists of.\<close>

function frames :: "byte cells \<Rightarrow> packet list" where
  "frames q = (if length q < packet_size then []
     else parse_packet (take packet_size q) # frames (drop packet_size q))"
  by pat_completeness auto
termination
  by (relation "measure length") (auto simp: packet_size_def)

declare frames.simps [simp del]

definition stream_of :: "packet list \<Rightarrow> byte cells" where
  "stream_of ms = concat (map packet_bytes ms)"

lemma frames_Nil [simp]: "frames [] = []"
  by (subst frames.simps) (simp add: packet_size_def)

lemma frames_Cons: "wf_packet m \<Longrightarrow> frames (packet_bytes m @ q) = m # frames q"
  by (subst frames.simps) (simp add: length_packet_bytes parse_packet_bytes)

lemma frames_stream: "(\<And>m. m \<in> set ms \<Longrightarrow> wf_packet m) \<Longrightarrow> frames (stream_of ms) = ms"
  by (induction ms) (simp_all add: stream_of_def frames_Cons)

lemma stream_of_snoc: "stream_of (ms @ [m]) = stream_of ms @ packet_bytes m"
  by (simp add: stream_of_def)

text \<open>When \<open>recv\<close> delivers all it can, it takes one packet off such a stream.\<close>

lemma recv_stream:
  assumes "wf_packet m" "length b = packet_size"
  shows "recv True (\<lambda>n. n) (stream_of (m # ms)) b = Returns (packet_bytes m, stream_of ms)"
proof -
  have "length (packet_bytes m) = packet_size" using assms(1) by (rule length_packet_bytes)
  then show ?thesis
    using assms(2) by (auto simp: recv_def stream_of_def put_def Let_def min_def packet_size_def)
qed

lemma recv_empty: "recv True d [] b = Blocks"
  by (simp add: recv_def)

section \<open>Without a signal the program implements the handshake\<close>

primrec sends1_at :: "pc \<Rightarrow> nat \<Rightarrow> nat" where
  "sends1_at NotStarted n = n" | "sends1_at Start n = n" | "sends1_at Top n = n"
| "sends1_at Sending n = n" | "sends1_at SendWaiting n = n"
| "sends1_at Receiving n = Suc n" | "sends1_at Waiting n = Suc n"
| "sends1_at Logging n = n" | "sends1_at Ended n = n" | "sends1_at Stale n = n"

definition abs_sockets :: "sockets \<Rightarrow> packet hs" where
  "abs_sockets s = \<lparr>ph1 = phase1 parse_packet (th1 s), n1 = sends1_at (pc (th1 s)) (idx (th1 s)),
     ph2 = phase2 parse_packet (th2 s), n2 = idx (th2 s), chan1 = frames (str1 s),
     chan2 = frames (str2 s), out = packet_entries (log s)\<rparr>"

primrec fine1_at :: "pc \<Rightarrow> 'b thread \<Rightarrow> bool \<Rightarrow> bool \<Rightarrow> bool" where
  "fine1_at NotStarted th bd cl = (\<not> bd \<and> idx th = 0)"
| "fine1_at Start th bd cl = ((bd \<longrightarrow> tbl th = packets1) \<and> idx th = 0)"
| "fine1_at Top th bd cl = (bd \<and> cl \<and> tbl th = packets1 \<and> idx th \<le> 10)"
| "fine1_at Sending th bd cl = (bd \<and> cl \<and> tbl th = packets1 \<and> idx th < 10)"
| "fine1_at SendWaiting th bd cl = False"
| "fine1_at Receiving th bd cl = (bd \<and> cl \<and> tbl th = packets1 \<and> idx th < 10)"
| "fine1_at Waiting th bd cl = (bd \<and> cl \<and> tbl th = packets1 \<and> idx th < 10)"
| "fine1_at Logging th bd cl = (bd \<and> cl \<and> tbl th = packets1 \<and> idx th \<le> 10)"
| "fine1_at Ended th bd cl = (bd \<and> idx th = 10)"
| "fine1_at Stale th bd cl = False"

definition stream_ok :: "byte cells \<Rightarrow> bool" where
  "stream_ok q \<longleftrightarrow> q = stream_of (frames q) \<and> (\<forall>m \<in> set (frames q). wf_packet m)"

definition threads_fine :: "sockets \<Rightarrow> bool" where
  "threads_fine s \<longleftrightarrow> started (mpc s) (pc (th1 s)) (pc (th2 s))
     \<and> fine1_at (pc (th1 s)) (th1 s) (bound s) (client s) \<and> ok2 Ended packets2 (th2 s)
     \<and> pc (th2 s) \<noteq> SendWaiting"

definition good :: "sockets \<Rightarrow> bool" where
  "good s \<longleftrightarrow> \<not> flag s \<and> \<not> dead s \<and> can_bind s \<and> created s = (Made, Made) \<and> deliver s = (\<lambda>n. n) \<and> listening s = bound s
     \<and> (pc (th2 s) \<noteq> NotStarted \<longrightarrow> bound s)
     \<and> connected s = (pc (th2 s) \<noteq> NotStarted \<and> pc (th2 s) \<noteq> Start)
     \<and> length (rbuf (th1 s)) = packet_size \<and> length (rbuf (th2 s)) = packet_size
     \<and> stream_ok (str1 s) \<and> stream_ok (str2 s) \<and> threads_fine s"

primrec work1_at :: "pc \<Rightarrow> nat" where
  "work1_at NotStarted = 20" | "work1_at Start = 9" | "work1_at Logging = 8" | "work1_at Top = 7"
| "work1_at Sending = 6" | "work1_at Receiving = 5" | "work1_at Waiting = 4" | "work1_at SendWaiting = 0"
| "work1_at Ended = 0" | "work1_at Stale = 0"

definition work :: "sockets \<Rightarrow> nat" where
  "work s = main_rank (mpc s) + 8 * (10 - idx (th1 s)) + work1_at (pc (th1 s))
     + (if bound s then 0 else 1) + left2 (th2 s)"

lemmas socket_ops = log_line_def perror_def printf_def goto1_def goto2_def sent2_def received1_def recv_failed1_def received2_def

text \<open>Taking the first packet of a stream, and adding one.\<close>

lemma stream_ok_Nil [simp]: "stream_ok []"
  by (simp add: stream_ok_def stream_of_def)

lemma stream_ok_snoc:
  assumes "stream_ok q" "wf_packet m"
  shows "stream_ok (q @ packet_bytes m) \<and> frames (q @ packet_bytes m) = frames q @ [m]"
proof -
  have q: "q @ packet_bytes m = stream_of (frames q @ [m])"
    using assms(1) by (simp add: stream_ok_def stream_of_snoc)
  then have "frames (q @ packet_bytes m) = frames q @ [m]"
    using assms by (simp only: q) (intro frames_stream, auto simp: stream_ok_def)
  then show ?thesis using assms q by (auto simp: stream_ok_def)
qed

lemma stream_ok_recv:
  assumes "stream_ok q" "q \<noteq> []" "length b = packet_size"
  shows "\<exists>m ms. frames q = m # ms \<and> recv True (\<lambda>n. n) q b = Returns (packet_bytes m, stream_of ms)
     \<and> stream_ok (stream_of ms) \<and> frames (stream_of ms) = ms \<and> wf_packet m"
proof -
  have q: "q = stream_of (frames q)" and wf: "\<forall>m \<in> set (frames q). wf_packet m"
    using assms(1) by (simp_all add: stream_ok_def)
  then obtain m ms where f: "frames q = m # ms"
    using assms(2) by (cases "frames q") (auto simp: stream_of_def)
  then have ms: "frames (stream_of ms) = ms" using wf by (intro frames_stream) auto
  with f wf q recv_stream [of m b ms] assms(3) show ?thesis by (auto simp: stream_ok_def)
qed

abbreviation sim :: "sockets \<Rightarrow> sockets \<Rightarrow> bool" where
  "sim s t \<equiv> good t \<and> work t < work s
     \<and> (abs_sockets t = abs_sockets s \<or> hs_step packets1 packets2 (abs_sockets s) (abs_sockets t))"

lemma sim_received1:
  assumes g: "good s" and pc: "pc (th1 s) = Receiving \<or> pc (th1 s) = Waiting" and ne: "str2 s \<noteq> []"
    and st: "thread1_step s = Some t"
  shows "sim s t"
proof -
  have "client s" "idx (th1 s) < 10" using g pc by (auto simp: good_def threads_fine_def)
  obtain m ms where m: "frames (str2 s) = m # ms" "wf_packet m" "frames (stream_of ms) = ms" "stream_ok (stream_of ms)"
    and r: "recv True (\<lambda>n. n) (str2 s) (rbuf (th1 s)) = Returns (packet_bytes m, stream_of ms)"
    using stream_ok_recv [of "str2 s" "rbuf (th1 s)"] g ne by (auto simp: good_def)
  have t: "t = received1 s (packet_bytes m, stream_of ms)"
    using st pc r g \<open>client s\<close> by (auto simp: thread1_step_def good_def)
  have "good t"
    using g pc m(2,4) started_pc1 [of "mpc s" "pc (th1 s)" "pc (th2 s)"] unfolding t
    by (auto simp: good_def threads_fine_def received1_def length_packet_bytes)
  moreover have "work t < work s"
    using pc \<open>idx (th1 s) < 10\<close> unfolding t by (auto simp: work_def received1_def)
  moreover have "hs_step packets1 packets2 (abs_sockets s) (abs_sockets t)"
    using pc m unfolding t
    by (intro hs_recv1I [where m = m and ms = ms])
       (auto simp: abs_sockets_def phase1_def received1_def parse_packet_bytes)
  ultimately show ?thesis by blast
qed

lemma good_sockets1:
  assumes g: "good s" and ne: "pc (th1 s) = Receiving \<or> pc (th1 s) = Waiting \<Longrightarrow> str2 s = []"
    and st: "thread1_step s = Some t"
  shows "threads_fine t \<and> \<not> flag t \<and> \<not> dead t \<and> can_bind t \<and> created t = created s \<and> deliver t = deliver s \<and> listening t = bound t
    \<and> (bound s \<longrightarrow> bound t) \<and> connected t = connected s \<and> length (rbuf (th1 t)) = packet_size
    \<and> th2 t = th2 s \<and> str2 t = str2 s"
proof -
  have "pc (th1 s) \<noteq> NotStarted" "pc (th1 s) \<noteq> Ended"
    using st by (auto simp: thread1_step_def split: if_splits)
  then have "p \<noteq> NotStarted \<Longrightarrow> started (mpc s) p (pc (th2 s))" for p
    using g started_pc1 [of "mpc s" "pc (th1 s)" "pc (th2 s)" p]
    by (simp add: good_def threads_fine_def)
  then show ?thesis
    using g ne st
    by (cases "pc (th1 s)";
        clarsimp simp: thread1_step_def good_def threads_fine_def socket_ops fill_packets1 recv_empty
          split: if_splits)
qed

lemma str1_thread1:
  assumes g: "good s" and ne: "pc (th1 s) = Receiving \<or> pc (th1 s) = Waiting \<Longrightarrow> str2 s = []"
    and st: "thread1_step s = Some t"
  shows "stream_ok (str1 t) \<and> work t < work s
    \<and> (abs_sockets t = abs_sockets s \<or> hs_step packets1 packets2 (abs_sockets s) (abs_sockets t))"
proof (cases "pc (th1 s) = Sending")
  case True
  let ?m = "packets1 ! idx (th1 s)"
  have i: "idx (th1 s) < 10" and "client s" and q: "stream_ok (str1 s)" and tb: "tbl (th1 s) = packets1"
    using g True by (auto simp: good_def threads_fine_def)
  then have t: "t = goto1 Receiving (s\<lparr>str1 := str1 s @ packet_bytes ?m\<rparr>)"
    using st True by (auto simp: thread1_step_def nth_opt_def split: if_splits)
  have "wf_packet ?m" using i by (simp add: wf_packets1)
  note q' = stream_ok_snoc [OF q this]
  moreover have "hs_step packets1 packets2 (abs_sockets s) (abs_sockets t)"
    using True i q' unfolding t
    by (intro hs_send1I) (simp_all add: abs_sockets_def phase1_def goto1_def phase2_def)
  moreover have "work t < work s" using True unfolding t by (simp add: work_def goto1_def)
  ultimately show ?thesis unfolding t by (simp add: goto1_def)
next
  case False
  show ?thesis
    using g ne st False
    by (cases "pc (th1 s)";
        clarsimp simp: thread1_step_def good_def threads_fine_def socket_ops fill_packets1 recv_empty work_def
          abs_sockets_def phase1_def phase2_def split: if_splits; simp add: hs_note1I)
qed

lemma sim_thread1:
  assumes "good s" "thread1_step s = Some t"
  shows "sim s t"
proof (cases "(pc (th1 s) = Receiving \<or> pc (th1 s) = Waiting) \<and> str2 s \<noteq> []")
  case True
  with sim_received1 assms show ?thesis by blast
next
  case False
  then have ne: "pc (th1 s) = Receiving \<or> pc (th1 s) = Waiting \<Longrightarrow> str2 s = []" by blast
  show ?thesis
    using good_sockets1 [OF assms(1) ne assms(2)] str1_thread1 [OF assms(1) ne assms(2)] assms(1)
    by (simp add: good_def)
qed

text \<open>The same for thread 2.\<close>

lemma sim_received2:
  assumes g: "good s" and pc: "pc (th2 s) = Receiving \<or> pc (th2 s) = Waiting" and ne: "str1 s \<noteq> []"
    and st: "thread2_step s = Some t"
  shows "sim s t"
proof -
  have c: "connected s" "idx (th2 s) < 10" using g pc by (auto simp: good_def threads_fine_def ok2_def)
  obtain m ms where m: "frames (str1 s) = m # ms" "wf_packet m" "frames (stream_of ms) = ms" "stream_ok (stream_of ms)"
    and r: "recv True (\<lambda>n. n) (str1 s) (rbuf (th2 s)) = Returns (packet_bytes m, stream_of ms)"
    using stream_ok_recv [of "str1 s" "rbuf (th2 s)"] g ne by (auto simp: good_def)
  have t: "t = received2 s (packet_bytes m, stream_of ms)"
    using st pc r g c by (auto simp: thread2_step_def good_def)
  have "good t"
    using g pc m(2,4) started_pc2 [of "mpc s" "pc (th1 s)" "pc (th2 s)"] unfolding t
    by (auto simp: good_def threads_fine_def received2_def length_packet_bytes ok2_def)
  moreover have "work t < work s"
    using pc unfolding t by (auto simp: work_def left2_def received2_def)
  moreover have "hs_step packets1 packets2 (abs_sockets s) (abs_sockets t)"
    using pc m c unfolding t
    by (intro hs_recv2I [where m = m and ms = ms])
       (auto simp: abs_sockets_def phase2_def received2_def parse_packet_bytes)
  ultimately show ?thesis by blast
qed

lemma good_sockets2:
  assumes g: "good s" and ne: "pc (th2 s) = Receiving \<or> pc (th2 s) = Waiting \<Longrightarrow> str1 s = []"
    and i: "idx (th2 s) \<le> 10" and st: "thread2_step s = Some t"
  shows "threads_fine t \<and> \<not> flag t \<and> \<not> dead t \<and> can_bind t \<and> created t = created s \<and> deliver t = deliver s \<and> listening t = bound t
    \<and> bound t \<and> connected t = (pc (th2 t) \<noteq> NotStarted \<and> pc (th2 t) \<noteq> Start)
    \<and> length (rbuf (th2 t)) = packet_size \<and> th1 t = th1 s \<and> str1 t = str1 s"
proof -
  have "pc (th2 s) \<noteq> NotStarted" "pc (th2 s) \<noteq> Ended"
    using st by (auto simp: thread2_step_def split: if_splits)
  then have "p \<noteq> NotStarted \<Longrightarrow> started (mpc s) (pc (th1 s)) p" for p
    using g started_pc2 [of "mpc s" "pc (th1 s)" "pc (th2 s)" p]
    by (simp add: good_def threads_fine_def)
  then show ?thesis
    using g ne st i
    by (cases "pc (th2 s)";
        clarsimp simp: thread2_step_def good_def threads_fine_def socket_ops fill_table2 recv_empty ok2_def
          split: if_splits)
qed

lemma str2_thread2:
  assumes g: "good s" and ne: "pc (th2 s) = Receiving \<or> pc (th2 s) = Waiting \<Longrightarrow> str1 s = []"
    and st: "thread2_step s = Some t"
  shows "stream_ok (str2 t) \<and> work t < work s
    \<and> (abs_sockets t = abs_sockets s \<or> hs_step packets1 packets2 (abs_sockets s) (abs_sockets t))"
proof (cases "pc (th2 s) = Sending")
  case True
  let ?m = "packets2 ! idx (th2 s)"
  have i: "idx (th2 s) < 10" and c: "connected s" and q: "stream_ok (str2 s)" and tb: "tbl (th2 s) = packets2"
    using g True by (auto simp: good_def threads_fine_def ok2_def)
  then have t: "t = sent2 (s\<lparr>str2 := str2 s @ packet_bytes ?m\<rparr>)"
    using st True by (auto simp: thread2_step_def nth_opt_def split: if_splits)
  have "wf_packet ?m" using i by (simp add: wf_tables(2))
  note q' = stream_ok_snoc [OF q this]
  moreover have "hs_step packets1 packets2 (abs_sockets s) (abs_sockets t)"
    using True i q' unfolding t
    by (intro hs_send2I) (simp_all add: abs_sockets_def phase1_def sent2_def phase2_def)
  moreover have "work t < work s" using True i unfolding t by (simp add: work_def sent2_def left2_def)
  ultimately show ?thesis unfolding t by (simp add: sent2_def)
next
  case False
  show ?thesis
    using g ne st False
    by (cases "pc (th2 s)";
        clarsimp simp: thread2_step_def good_def threads_fine_def socket_ops fill_table2 recv_empty work_def
          abs_sockets_def phase1_def phase2_def ok2_def left2_def split: if_splits; simp add: hs_note2I)
qed

lemma sim_thread2:
  assumes "good s" "idx (th2 s) \<le> 10" "thread2_step s = Some t"
  shows "sim s t"
proof (cases "(pc (th2 s) = Receiving \<or> pc (th2 s) = Waiting) \<and> str1 s \<noteq> []")
  case True
  with sim_received2 assms show ?thesis by blast
next
  case False
  then have ne: "pc (th2 s) = Receiving \<or> pc (th2 s) = Waiting \<Longrightarrow> str1 s = []" by blast
  show ?thesis
    using good_sockets2 [OF assms(1) ne assms(2,3)] str2_thread2 [OF assms(1) ne assms(3)] assms(1)
    by (simp add: good_def)
qed

lemma sim_main:
  assumes g: "good s" and "main_step s = Some t" "mpc s \<noteq> MCreate2 \<or> bound s"
  shows "sim s t"
  using assms
  by (cases "mpc s";
      clarsimp simp: main_step_def good_def threads_fine_def work_def left2_def socket_ops abs_sockets_def
        phase1_def phase2_def ok2_def split: if_splits)

lemma sockets_sim:
  assumes "good s" "hs_inv packets1 packets2 (abs_sockets s)" "quiet_step s t"
  shows "sim s t"
proof -
  have i: "idx (th2 s) \<le> 10" using hs_inv_bounds [OF assms(2)] by (simp add: abs_sockets_def)
  from assms(3) show ?thesis
  proof cases
    case by_main
    then show ?thesis using sim_main [OF assms(1)] by blast
  next
    case by_thread1
    then show ?thesis using sim_thread1 [OF assms(1)] by blast
  next
    case by_thread2
    then show ?thesis using sim_thread2 [OF assms(1) i] by blast
  qed
qed

text \<open>Threads before the handshake are not blocked either.\<close>

lemma starts:
  assumes "good s" "pc (th1 s) = NotStarted \<or> pc (th1 s) = Start \<or> pc (th2 s) = NotStarted \<or> pc (th2 s) = Start"
  shows "\<exists>t. quiet_step s t"
proof -
  have "(main_step s \<noteq> None \<and> (mpc s \<noteq> MCreate2 \<or> bound s)) \<or> thread1_step s \<noteq> None \<or> thread2_step s \<noteq> None"
    using assms
    by (cases "mpc s"; cases "pc (th1 s)"; cases "pc (th2 s)";
        clarsimp simp: good_def threads_fine_def main_step_def thread1_step_def thread2_step_def fill_packets1
          fill_table2)
  then show ?thesis by (auto intro: quiet_step.intros)
qed

lemma recv_ready: "frames q = m # ms \<Longrightarrow> \<exists>bq. recv True d q b = Returns bq"
  by (cases q) (auto simp: recv_def Let_def)

lemma sockets_live:
  assumes g: "good s" and "hs_step packets1 packets2 (abs_sockets s) u"
  shows "\<exists>t. quiet_step s t"
proof (cases "pc (th1 s) = NotStarted \<or> pc (th1 s) = Start \<or> pc (th2 s) = NotStarted \<or> pc (th2 s) = Start")
  case True
  with g show ?thesis by (rule starts)
next
  case False
  have nd: "\<not> dead s" using g by (simp add: good_def)
  have "thread1_step s \<noteq> None \<or> thread2_step s \<noteq> None"
    using assms(2)
  proof cases
    case send1
    then show ?thesis using False g nd
      by (cases "pc (th1 s)") (auto simp: abs_sockets_def phase1_def thread1_step_def good_def threads_fine_def)
  next
    case (recv1 m ms)
    then show ?thesis using nd recv_ready [of "str2 s" m ms "deliver s" "rbuf (th1 s)"]
      by (cases "pc (th1 s)") (auto simp: abs_sockets_def phase1_def thread1_step_def)
  next
    case (note1 m)
    then show ?thesis using nd
      by (cases "pc (th1 s)") (auto simp: abs_sockets_def phase1_def thread1_step_def)
  next
    case (recv2 m ms)
    then show ?thesis using False g nd recv_ready [of "str1 s" m ms "deliver s" "rbuf (th2 s)"]
      by (cases "pc (th2 s)") (auto simp: abs_sockets_def phase2_def thread2_step_def good_def threads_fine_def ok2_def)
  next
    case (note2 m)
    then show ?thesis using nd
      by (cases "pc (th2 s)") (auto simp: abs_sockets_def phase2_def thread2_step_def)
  next
    case send2
    then show ?thesis using g nd
      by (cases "pc (th2 s)") (auto simp: abs_sockets_def phase2_def thread2_step_def good_def threads_fine_def ok2_def)
  qed
  then show ?thesis by (auto intro: quiet_step.intros)
qed

definition sockets_start :: sockets where
  "sockets_start = sockets_init True (\<lambda>n. n) (Made, Made)"

interpretation hsk: handshake_impl quiet_step sockets_start abs_sockets good work packets1 packets2
proof
  show "good sockets_start"
    by (simp add: sockets_start_def sockets_init_def good_def threads_fine_def new_thread_def ok2_def)
  show "abs_sockets sockets_start = hs_init"
    by (simp add: sockets_start_def sockets_init_def abs_sockets_def hs_init_def phase1_def phase2_def
        new_thread_def)
qed (use sockets_sim sockets_live in auto)

lemma sockets_final:
  assumes "quiet_step\<^sup>*\<^sup>* sockets_start s" "\<forall>t. \<not> quiet_step s t"
  shows "packet_entries (log s) = dialogue packets1 packets2 \<and> mpc s = MDone"
proof -
  have g: "good s" using hsk.reach [OF assms(1)] by simp
  have a: "abs_sockets s = round_state packets1 packets2 10 Idle"
    using hsk.complete [OF assms(1)] assms(2) by simp
  then have out: "packet_entries (log s) = dialogue packets1 packets2"
    and p: "phase1 parse_packet (th1 s) = Ready" "sends1_at (pc (th1 s)) (idx (th1 s)) = 10"
      "phase2 parse_packet (th2 s) = Await" "idx (th2 s) = 10"
    by (simp_all add: abs_sockets_def)
  have stuck: "thread1_step s = None" "thread2_step s = None" "mpc s \<noteq> MCreate2 \<or> bound s \<Longrightarrow> main_step s = None"
    using assms(2) by (meson not_None_eq quiet_step.intros)+
  have st: "pc (th1 s) \<noteq> NotStarted" "pc (th1 s) \<noteq> Start" "pc (th2 s) \<noteq> NotStarted" "pc (th2 s) \<noteq> Start"
    using starts [OF g] assms(2) by blast+
  have nd: "\<not> dead s" using g by (simp add: good_def)
  have "pc (th1 s) = Ended"
    using stuck(1) p(1,2) st g nd
    by (cases "pc (th1 s)") (auto simp: thread1_step_def phase1_def good_def threads_fine_def)
  moreover have "pc (th2 s) = Ended"
    using stuck(2) p(3,4) st g nd
    by (cases "pc (th2 s)") (auto simp: thread2_step_def phase2_def good_def threads_fine_def ok2_def)
  ultimately have "mpc s = MDone"
    using stuck(3) g nd by (cases "mpc s") (auto simp: main_step_def good_def threads_fine_def)
  with out show ?thesis by blast
qed

lemma sockets_reach: "run sockets_act as s = Some t \<Longrightarrow> step\<^sup>*\<^sup>* s t"
  by (rule run_reaches) (rule step.act)

section \<open>Joining the threads\<close>

lemma sjoins_main:
  "main_step s = Some t \<Longrightarrow> created t = created s \<and> mpc t \<in> main_moves (created s) (mpc s)
     \<and> (fst (created s) = Made \<or> th1 t = th1 s) \<and> (snd (created s) = Made \<or> th2 t = th2 s)
     \<and> (stage MJoin1 < stage (mpc s) \<longrightarrow> th1 t = th1 s) \<and> (stage MJoin2 < stage (mpc s) \<longrightarrow> th2 t = th2 s)
     \<and> (Exiting Main \<in> set (log t) \<longrightarrow> Exiting Main \<in> set (log s) \<or> mpc t = MDone) \<and> set (err s) \<subseteq> set (err t)"
  by (cases "mpc s")
     (auto simp: main_step_def socket_ops after_join_def split: if_splits birth.splits option.splits)

lemma sjoins_passed:
  "main_step s = Some t \<Longrightarrow> (mpc s = MJoin1 \<and> fst (created s) = Made \<longrightarrow> pc (th1 t) = Ended)
     \<and> (mpc s = MJoin2 \<and> snd (created s) = Made \<longrightarrow> pc (th2 t) = Ended)
     \<and> (fails_at (created s) (mpc s) \<longrightarrow> complaint (mpc s) \<in> set (err t))"
  by (cases "mpc s")
     (auto simp: main_step_def socket_ops bad_join_def split: if_splits birth.splits option.splits)

lemma sjoins_thread1:
  "thread1_step s = Some t \<Longrightarrow> created t = created s \<and> mpc t = mpc s \<and> pc (th1 s) \<noteq> NotStarted
     \<and> pc (th1 s) \<noteq> Ended \<and> th2 t = th2 s
     \<and> (Exiting Main \<in> set (log t)) = (Exiting Main \<in> set (log s)) \<and> set (err s) \<subseteq> set (err t)"
  by (cases "pc (th1 s)")
     (auto simp: thread1_step_def socket_ops bind_eq_Some_conv split: if_splits call.splits)

lemma sjoins_thread2:
  "thread2_step s = Some t \<Longrightarrow> created t = created s \<and> mpc t = mpc s \<and> pc (th2 s) \<noteq> NotStarted
     \<and> pc (th2 s) \<noteq> Ended \<and> th1 t = th1 s
     \<and> (Exiting Main \<in> set (log t)) = (Exiting Main \<in> set (log s)) \<and> set (err s) \<subseteq> set (err t)"
  by (cases "pc (th2 s)")
     (auto simp: thread2_step_def socket_ops bind_eq_Some_conv split: if_splits call.splits)

lemma sact_cases:
  "sockets_act a s = Some t \<Longrightarrow> main_step s = Some t \<or> thread1_step s = Some t \<or> thread2_step s = Some t
     \<or> (\<exists>w. t = kill_thread_handler SIGINT (interrupt w s))"
  by (cases a) (auto split: who.splits if_splits)

interpretation sjoin: main_joins step main_step thread1_step thread2_step
  "\<lambda>w s. kill_thread_handler SIGINT (interrupt w s)" mpc created
  "\<lambda>s. pc (th1 s) = NotStarted" "\<lambda>s. pc (th2 s) = NotStarted" "\<lambda>s. pc (th1 s) = Ended" "\<lambda>s. pc (th2 s) = Ended"
  "\<lambda>s. Exiting Main \<in> set (log s)" "\<lambda>p s. complaint p \<in> set (err s)"
proof
  fix s t w p
  show "main_step s = Some t \<or> thread1_step s = Some t \<or> thread2_step s = Some t
    \<or> (\<exists>w. t = kill_thread_handler SIGINT (interrupt w s))" if "step s t"
    using that sact_cases by (auto elim!: step.cases)
  let ?t = "kill_thread_handler SIGINT (interrupt w s)"
  show "created ?t = created s \<and> mpc ?t = mpc s \<and> (pc (th1 s) = NotStarted \<longrightarrow> pc (th1 ?t) = NotStarted)
    \<and> (pc (th2 s) = NotStarted \<longrightarrow> pc (th2 ?t) = NotStarted)
    \<and> (pc (th1 s) = Ended \<longrightarrow> pc (th1 ?t) = Ended) \<and> (pc (th2 s) = Ended \<longrightarrow> pc (th2 ?t) = Ended)
    \<and> (Exiting Main \<in> set (log ?t)) = (Exiting Main \<in> set (log s))
    \<and> (complaint p \<in> set (err s) \<longrightarrow> complaint p \<in> set (err ?t))"
    by (cases w) (auto simp: kill_thread_handler_def socket_ops)
qed ((drule sjoins_main, fastforce)[1], (drule sjoins_passed, fastforce)[1],
    (drule sjoins_thread1, fastforce)[1], (drule sjoins_thread2, fastforce)[1])

section \<open>Properties\<close>

text \<open>C18: as long as no SIGINT arrives, thread 1 listens before thread 2 connects and \<open>recv\<close>
  delivers whole packets, the packets in the log are at every moment a prefix of the conversation
  (thread 2 logs \<open>t1[k]\<close>, then thread 1 logs \<open>t2[k]\<close>), at most one packet is on its way, and a run
  has at most 196 steps. When no thread can go on, the whole conversation is logged and \<open>main\<close> has
  ended.\<close>

theorem sockets_dialogue:
  assumes "(quiet_step ^^ n) sockets_start s"
  shows "n \<le> 196
     \<and> packet_entries (log s) = take (length (packet_entries (log s))) (dialogue packets1 packets2)
     \<and> length (frames (str1 s)) + length (frames (str2 s)) \<le> 1
     \<and> ((\<forall>t. \<not> quiet_step s t) \<longrightarrow> packet_entries (log s) = dialogue packets1 packets2 \<and> mpc s = MDone)"
proof -
  have r: "quiet_step\<^sup>*\<^sup>* sockets_start s" using assms by (rule relpowp_imp_rtranclp)
  have "work sockets_start = 196"
    by (simp add: work_def sockets_start_def sockets_init_def left2_def new_thread_def)
  with hsk.bounded [OF assms] have "n \<le> 196" by simp
  moreover have "packet_entries (log s) = take (length (packet_entries (log s))) (dialogue packets1 packets2)"
    using hsk.prefix [OF r] by (simp add: abs_sockets_def)
  moreover have "length (frames (str1 s)) + length (frames (str2 s)) \<le> 1"
    using hsk.channels [OF r] by (simp add: abs_sockets_def)
  ultimately show ?thesis using sockets_final [OF r] by blast
qed

theorem sockets_dialogue_witness:
  "\<exists>s n. (quiet_step ^^ n) sockets_start s \<and> n \<le> 196 \<and> packet_entries (log s) = dialogue packets1 packets2"
proof -
  obtain s where s: "quiet_step\<^sup>*\<^sup>* sockets_start s" "\<forall>t. \<not> quiet_step s t"
    using hsk.reaches_end by blast
  then obtain n where "(quiet_step ^^ n) sockets_start s" using rtranclp_imp_relpowp by metis
  with sockets_dialogue [OF this] s(2) show ?thesis by blast
qed

text \<open>the table of thread 1 is not the one of the other programs: SAFE and BLINK are overwritten,
  and the commands of the last two packets are never stored. The packets that thread 2 has logged
  after a complete run carry the commands ON, OFF, ..., CRITICAL, DAMAGED, OUT_OF_RANGE and two
  indeterminate values.\<close>

lemma sockets_commands:
  assumes "quiet_step\<^sup>*\<^sup>* sockets_start s" "\<forall>t. \<not> quiet_step s t"
  shows "map command (got Thread2 (log s)) = map Some (take 6 led_list @ drop 8 led_list) @ [None, None]"
  using sockets_final [OF assms]
  by (simp add: got_def) (simp add: packets1_def packets2_def Ipc.packets2_def messages1_def messages2_def
      led_list_def packet_of_def)

text \<open>a SIGINT can leave the process hanging: thread 2 blocked in \<open>recv\<close>, thread 1 ended without
  closing the connection, \<open>main\<close> in its join.\<close>

lemma sockets_deadlock:
  "\<exists>s. step\<^sup>*\<^sup>* sockets_start s \<and> flag s \<and> \<not> dead s \<and> pc (th1 s) = Ended \<and> pc (th2 s) = Waiting
     \<and> mpc s = MJoin2 \<and> (\<forall>w. sockets_act (Run w) s = None)"
proof -
  let ?r = "run sockets_act (map Run [Main, Main, Thread1, Main, Thread2, Thread1, Thread2, Thread2]
     @ [Interrupt Main, Run Thread1, Run Main]) sockets_start"
  obtain s where s: "?r = Some s" and p: "flag s" "\<not> dead s" "pc (th1 s) = Ended" "pc (th2 s) = Waiting"
    "mpc s = MJoin2" "str1 s = []" "created s = (Made, Made)"
    by (simp add: sockets_start_def sockets_init_def main_step_def thread1_step_def thread2_step_def
        new_thread_def fill_packets1 fill_table2 socket_ops recv_empty kill_thread_handler_def SIGINT_def)
  have "sockets_act (Run w) s = None" for w
    using p by (cases w) (simp_all add: main_step_def thread1_step_def thread2_step_def recv_empty)
  with sockets_reach [OF s] p show ?thesis by blast
qed

text \<open>when port 9002 is taken, \<open>bind\<close> fails unnoticed, the connection is refused, thread 2 logs
  its uninitialised buffer as a packet, and its first \<open>send\<close> ends the process by SIGPIPE.\<close>

lemma sockets_port_taken:
  "\<exists>s. step\<^sup>*\<^sup>* (sockets_init False d (Made, Made)) s \<and> dead s \<and> packet_entries (log s) = [(Thread2, blank)]"
proof -
  let ?r = "run sockets_act (map Run [Main, Main, Thread1, Main, Thread2, Thread2, Thread2, Thread2, Thread2])
     (sockets_init False d (Made, Made))"
  have b: "parse_packet (uninit packet_size) = blank"
    by (simp add: parse_packet_def packet_size_def blank_def field_of_def numeral_eq_Suc)
  obtain s where s: "?r = Some s" "dead s" "packet_entries (log s) = [(Thread2, blank)]"
    by (simp add: sockets_init_def main_step_def thread1_step_def thread2_step_def
        new_thread_def fill_packets1 fill_table2 socket_ops recv_def b)
  with sockets_reach [OF s(1)] show ?thesis by blast
qed

end
