(* ===== verification/CpuStat.thy ===== *)
theory CpuStat
  imports Decimal
begin

text \<open>
  The part of \<^verbatim>\<open>HW4_APES/PROBLEM1/BBG_pthread.c\<close> that computes the CPU utilisation: 46 characters of
  the first line of \<^verbatim>\<open>/proc/stat\<close> are split by \<open>strtok\<close> into ten words, nine of which are turned
  into numbers. \<open>None\<close>: the code passes the null pointer to \<open>atoi\<close>, or a number or a sum leaves the
  range of \<open>int\<close>.
\<close>

section \<open>Library functions\<close>

text \<open>\<open>fgets\<close> with a buffer of \<open>n\<close> bytes.\<close>

definition fgets :: "nat \<Rightarrow> string \<Rightarrow> string" where
  "fgets n s = take (n - 1) (if CHR ''\<newline>'' \<in> set s then takeWhile (\<lambda>c. c \<noteq> CHR ''\<newline>'') s @ ''\<newline>'' else s)"

text \<open>\<open>strtok\<close> with the separator space: the next word and what is left for the next call.\<close>

definition strtok :: "string \<Rightarrow> (string \<times> string) option" where
  "strtok s = (let t = dropWhile (\<lambda>c. c = CHR '' '') s in
     if t = [] then None
     else Some (takeWhile (\<lambda>c. c \<noteq> CHR '' '') t, drop 1 (dropWhile (\<lambda>c. c \<noteq> CHR '' '') t)))"

definition is_space :: "char \<Rightarrow> bool" where
  "is_space c \<longleftrightarrow> c = CHR '' '' \<or> (9 \<le> (of_char c :: nat) \<and> (of_char c :: nat) \<le> 13)"

definition atoi :: "string \<Rightarrow> int option" where
  "atoi s = checked (case dropWhile is_space s of
     [] \<Rightarrow> 0
   | c # t \<Rightarrow> if c = CHR ''-'' then - digits_value 0 t
             else if c = CHR ''+'' then digits_value 0 t
             else digits_value 0 (c # t))"

section \<open>The program\<close>

text \<open>The loop that fills \<open>cpu[0..k-1]\<close>.\<close>

fun read_numbers :: "nat \<Rightarrow> string \<Rightarrow> int list option" where
  "read_numbers 0 s = Some []"
| "read_numbers (Suc k) s = do {
     (substr, rest) \<leftarrow> strtok s;
     n \<leftarrow> atoi substr;
     ns \<leftarrow> read_numbers k rest;
     Some (n # ns)
   }"

text \<open>A sum of \<open>int\<close>s from the left, with a check at every addition.\<close>

fun sum_ints :: "int \<Rightarrow> int list \<Rightarrow> int option" where
  "sum_ints a [] = Some a"
| "sum_ints a (n # ns) = do { b \<leftarrow> checked (a + n); sum_ints b ns }"

record sample =
  cpu_time :: "64 word"
  idle_time :: "64 word"
  cpu_usage :: "64 word"

text \<open>The logged utilisation is \<open>cpu_usage / cpu_time\<close>, computed in \<open>float\<close>.\<close>

definition cpu_sample :: "string \<Rightarrow> sample option" where
  "cpu_sample line = do {
     (substr, rest) \<leftarrow> strtok (fgets 47 line);
     cpu \<leftarrow> read_numbers 9 rest;
     total \<leftarrow> sum_ints (cpu ! 0) (take 7 (drop 1 cpu));
     idle \<leftarrow> sum_ints (cpu ! 3) [cpu ! 4];
     let t = word_of_int total;
     let d = word_of_int idle;
     Some \<lparr>cpu_time = t, idle_time = d, cpu_usage = t - d\<rparr>
   }"

section \<open>The line of the kernel\<close>

text \<open>The first line of the file for the given counters.\<close>

definition proc_line :: "nat list \<Rightarrow> string" where
  "proc_line xs = ''cpu '' @ concat (map (\<lambda>n. '' '' @ dec n) xs) @ ''\<newline>''"

lemma atoi_dec_checked: "atoi (dec n) = checked (int n)"
proof -
  obtain c q where cq: "dec n = c # q" using dec_not_Nil [of n] by (cases "dec n") auto
  then have "is_digit c" using dec_digits [of c n] by simp
  then have "\<not> is_space c \<and> c \<noteq> CHR ''-'' \<and> c \<noteq> CHR ''+''" by (auto simp: is_digit_def digit_value_def is_space_def)
  then show ?thesis using digits_value_dec [of n "[]"] by (simp add: atoi_def cq)
qed

lemma atoi_dec: "n < 2 ^ 31 \<Longrightarrow> atoi (dec n) = Some (int n)"
  by (simp add: atoi_dec_checked checked_def in_int_def)

section \<open>Reading a line of counters\<close>

text \<open>The words of the line, cut after \<open>m\<close> characters.\<close>

definition words :: "nat list \<Rightarrow> string" where
  "words xs = concat (map (\<lambda>n. '' '' @ dec n) xs)"

definition width :: "nat list \<Rightarrow> nat" where
  "width xs = length (words xs)"

lemma words_Cons: "words (n # xs) = CHR '' '' # dec n @ words xs"
  by (simp add: words_def)

lemma width_Nil: "width [] = 0"
  by (simp add: width_def words_def)

lemma width_Cons: "width (n # xs) = Suc (length (dec n)) + width xs"
  by (simp add: width_def words_Cons)

lemma no_space: "c \<in> set (dec n) \<Longrightarrow> c \<noteq> CHR '' ''"
  using dec_digits [of c n] by (auto simp: is_digit_def digit_value_def)

lemma no_newline: "CHR ''\<newline>'' \<notin> set (words xs)"
proof -
  have "CHR ''\<newline>'' \<notin> set (dec n)" for n
    using dec_digits [of "CHR ''\<newline>''" n] by (auto simp: is_digit_def digit_value_def)
  then show ?thesis by (auto simp: words_def)
qed

lemma span_dec:
  "takeWhile (\<lambda>c. c \<noteq> CHR '' '') (dec n @ s) = dec n @ takeWhile (\<lambda>c. c \<noteq> CHR '' '') s"
  "dropWhile (\<lambda>c. c \<noteq> CHR '' '') (dec n @ s) = dropWhile (\<lambda>c. c \<noteq> CHR '' '') s"
  "dropWhile (\<lambda>c. c = CHR '' '') (dec n @ s) = dec n @ s"
proof -
  show "takeWhile (\<lambda>c. c \<noteq> CHR '' '') (dec n @ s) = dec n @ takeWhile (\<lambda>c. c \<noteq> CHR '' '') s"
    using no_space [of _ n] by (intro takeWhile_append2) auto
  show "dropWhile (\<lambda>c. c \<noteq> CHR '' '') (dec n @ s) = dropWhile (\<lambda>c. c \<noteq> CHR '' '') s"
    using no_space [of _ n] by (intro dropWhile_append2) auto
  show "dropWhile (\<lambda>c. c = CHR '' '') (dec n @ s) = dec n @ s"
    using dec_not_Nil [of n] no_space [of _ n] by (cases "dec n") auto
qed

text \<open>A word that another one follows is read whole.\<close>

lemma strtok_dec:
  "strtok (dec n @ CHR '' '' # s) = Some (dec n, s)"
  "strtok (CHR '' '' # dec n @ CHR '' '' # s) = Some (dec n, s)"
  using dec_not_Nil [of n] span_dec(3) [of n] by (simp_all add: strtok_def span_dec Let_def)

lemma strtok_skip: "strtok (CHR '' '' # s) = strtok s"
  by (simp add: strtok_def)

text \<open>Nine numbers, of which the ninth may be cut short or be followed by the end of the line.\<close>

lemma read_words:
  assumes "\<And>n. n \<in> set xs \<Longrightarrow> n < 2 ^ 31"
  shows "read_numbers (length xs + k) (words xs @ CHR '' '' # s)
    = (case read_numbers k s of None \<Rightarrow> None | Some ns \<Rightarrow> Some (map int xs @ ns))"
  using assms
proof (induction xs)
  case Nil
  have "read_numbers k (CHR '' '' # s) = read_numbers k s"
    by (cases k) (simp_all add: strtok_skip)
  then show ?case by (simp add: words_def split: option.split)
next
  case (Cons n xs)
  let ?rest = "words xs @ CHR '' '' # s"
  obtain t where t: "?rest = CHR '' '' # t" by (cases xs) (auto simp: words_def)
  have "strtok (words (n # xs) @ CHR '' '' # s) = Some (dec n, t)"
    using t by (simp add: words_Cons strtok_dec)
  moreover have "read_numbers (length xs + k) t = read_numbers (length xs + k) ?rest"
    using t by (cases "length xs + k") (simp_all add: strtok_skip)
  ultimately show ?case
    using Cons by (simp add: atoi_dec split: option.split)
qed

text \<open>A prefix of a number is a number that is not larger.\<close>

lemma digits_value_grows:
  "(\<And>c. c \<in> set s \<Longrightarrow> is_digit c) \<Longrightarrow> 0 \<le> v \<Longrightarrow> v \<le> digits_value v s"
proof (induction s arbitrary: v)
  case (Cons c s)
  have d: "is_digit c" using Cons.prems(1) by simp
  then have "v \<le> 10 * v + digit_value c" "0 \<le> 10 * v + digit_value c"
    using Cons.prems(2) by (simp_all add: is_digit_def)
  with Cons.IH [of "10 * v + digit_value c"] Cons.prems(1) d show ?case by simp
qed simp

lemma atoi_prefix:
  assumes "n < 2 ^ 31" "0 < j" "s = [] \<or> \<not> is_digit (hd s)"
  shows "\<exists>v. atoi (take j (dec n) @ s) = Some v"
proof -
  let ?p = "take j (dec n)"
  have dig: "c \<in> set ?p \<Longrightarrow> is_digit c" "c \<in> set (drop j (dec n)) \<Longrightarrow> is_digit c" for c
    using dec_digits [of c n] by (auto dest: in_set_takeD in_set_dropD)
  have nn: "0 \<le> digits_value 0 ?p" using digits_value_grows [of ?p 0] dig(1) by simp
  have "digits_value 0 ?p \<le> digits_value (digits_value 0 ?p) (drop j (dec n))"
    using dig(2) nn by (rule digits_value_grows)
  also have "\<dots> = digits_value 0 (dec n)"
    using digits_value_append [of ?p 0 "drop j (dec n)"] dig(1) by simp
  also have "\<dots> = int n" using digits_value_dec [of n "[]"] by simp
  finally have le: "digits_value 0 ?p \<le> int n" .
  have "digits_value 0 (?p @ s) = digits_value 0 ?p"
    using digits_value_append [of ?p 0 s] dig(1) assms(3) by (cases s) auto
  moreover obtain c q where cq: "?p = c # q"
    using assms(2) dec_not_Nil [of n] by (cases "dec n"; cases j) auto
  moreover have "\<not> is_space c \<and> c \<noteq> CHR ''-'' \<and> c \<noteq> CHR ''+''"
    using dig(1) [of c] cq by (auto simp: is_digit_def digit_value_def is_space_def)
  ultimately show ?thesis
    using le nn assms(1) by (simp add: atoi_def checked_def in_int_def)
qed

lemma strtok_only: "CHR '' '' \<notin> set p \<Longrightarrow> strtok p = (if p = [] then None else Some (p, []))"
proof -
  assume sp: "CHR '' '' \<notin> set p"
  then have t: "takeWhile (\<lambda>c. c \<noteq> CHR '' '') p = p" and d: "dropWhile (\<lambda>c. c \<noteq> CHR '' '') p = []"
    by (auto simp: takeWhile_eq_all_conv dropWhile_eq_Nil_conv)
  have "dropWhile (\<lambda>c. c = CHR '' '') p = p" using sp by (cases p) auto
  then show ?thesis unfolding strtok_def Let_def by (simp only: t d) simp
qed

text \<open>What is left after too few words is not enough.\<close>

lemma read_numbers_blank: "strtok s = None \<Longrightarrow> 0 < k \<Longrightarrow> read_numbers k s = None"
  by (cases k) auto

lemma read_too_few:
  "m \<le> Suc (width xs) \<Longrightarrow> read_numbers (Suc (length xs)) (take m (words xs @ CHR '' '' # t)) = None"
proof (induction xs arbitrary: m)
  case Nil
  then have "m = 0 \<or> m = 1" by (auto simp: width_def words_def)
  then have "strtok (take m (words [] @ CHR '' '' # t)) = None" by (auto simp: words_def strtok_def)
  then show ?case by (simp add: read_numbers_blank)
next
  case (Cons n xs)
  show ?case
  proof (cases "m \<le> Suc (length (dec n))")
    case True
    then have "take m (words (n # xs) @ CHR '' '' # t) = take m (CHR '' '' # dec n)"
      by (cases m) (simp_all add: words_Cons)
    moreover have "\<exists>tok. strtok (take m (CHR '' '' # dec n)) = None
        \<or> strtok (take m (CHR '' '' # dec n)) = Some (tok, [])"
    proof (cases m)
      case (Suc j)
      have "CHR '' '' \<notin> set (take j (dec n))" using no_space [of _ n] by (auto dest: in_set_takeD)
      from strtok_only [OF this] Suc show ?thesis by (simp add: strtok_skip)
    qed (simp add: strtok_def)
    moreover have "strtok [] = None" by (simp add: strtok_def)
    ultimately show ?thesis by (auto split: option.splits)
  next
    case False
    define j where "j = m - Suc (length (dec n)) - 1"
    have m: "m = Suc (length (dec n)) + Suc j" using False by (simp add: j_def)
    obtain u where u: "words xs @ CHR '' '' # t = CHR '' '' # u" by (cases xs) (auto simp: words_def)
    have "take m (words (n # xs) @ CHR '' '' # t) = CHR '' '' # dec n @ CHR '' '' # take j u"
      using m u by (simp add: words_Cons)
    moreover have "read_numbers (Suc (length xs)) (CHR '' '' # take j u) = None"
      using Cons.IH [of "Suc j"] Cons.prems m u by (simp add: width_Cons)
    then have "read_numbers (Suc (length xs)) (take j u) = None" by (simp add: strtok_skip)
    moreover have "read_numbers (Suc (Suc (length xs))) (CHR '' '' # dec n @ CHR '' '' # take j u)
        = Option.bind (atoi (dec n)) (\<lambda>v. Option.bind (read_numbers (Suc (length xs)) (take j u)) (\<lambda>ns. Some (v # ns)))"
      by (subst read_numbers.simps(2)) (simp add: strtok_dec del: read_numbers.simps)
    ultimately show ?thesis by (simp del: read_numbers.simps)
  qed
qed

section \<open>Properties\<close>

lemma fgets_line: "fgets 47 (proc_line xs) = ''cpu '' @ take 42 (words xs @ ''\<newline>'')"
proof -
  have line: "proc_line xs = ''cpu '' @ words xs @ ''\<newline>''" by (simp add: proc_line_def words_def)
  have "takeWhile (\<lambda>c. c \<noteq> CHR ''\<newline>'') (words xs @ ''\<newline>'') = words xs"
    using no_newline [of xs] by (auto simp: takeWhile_append takeWhile_eq_all_conv)
  then show ?thesis by (simp add: fgets_def line)
qed

lemma strtok_cpu: "strtok (''cpu '' @ s) = Some (''cpu'', s)"
  by (simp add: strtok_def)

text \<open>The ninth number: at least one of its digits is there.\<close>

lemma read_ninth:
  assumes "n < 2 ^ 31" "0 < m"
  shows "\<exists>v. read_numbers 1 (take m (dec n @ words ys @ ''\<newline>'')) = Some [v]"
proof -
  let ?t = "take (m - length (dec n)) (words ys @ ''\<newline>'')"
  have split: "take m (dec n @ words ys @ ''\<newline>'') = take m (dec n) @ ?t" by simp
  obtain c q where cq: "take m (dec n) = c # q"
    using assms(2) dec_not_Nil [of n] by (cases "dec n"; cases m) auto
  have sp: "CHR '' '' \<notin> set (take m (dec n))" using no_space [of _ n] by (auto dest: in_set_takeD)
  let ?w = "takeWhile (\<lambda>c. c \<noteq> CHR '' '') ?t"
  have "takeWhile (\<lambda>c. c \<noteq> CHR '' '') (take m (dec n) @ ?t) = take m (dec n) @ ?w"
    using sp by (intro takeWhile_append2) auto
  moreover have "dropWhile (\<lambda>c. c = CHR '' '') (take m (dec n) @ ?t) = take m (dec n) @ ?t"
    using sp cq by auto
  ultimately have tok: "\<exists>r. strtok (take m (dec n) @ ?t) = Some (take m (dec n) @ ?w, r)"
    using cq by (simp add: strtok_def Let_def)
  have "?w = [] \<or> \<not> is_digit (hd ?w)"
    by (cases ys; cases "m - length (dec n)") (auto simp: words_def is_digit_def digit_value_def)
  with atoi_prefix [OF assms, of ?w] tok split show ?thesis by auto
qed

text \<open>A counter that is no \<open>int\<close> is not read.\<close>

lemma read_too_big:
  assumes "n \<in> set xs" "2 ^ 31 \<le> n"
  shows "read_numbers (length xs + k) (words xs @ CHR '' '' # s) = None"
  using assms(1)
proof (induction xs)
  case (Cons m xs)
  let ?rest = "words xs @ CHR '' '' # s"
  obtain t where t: "?rest = CHR '' '' # t" by (cases xs) (auto simp: words_def)
  have tok: "strtok (words (m # xs) @ CHR '' '' # s) = Some (dec m, t)"
    using t by (simp add: words_Cons strtok_dec)
  have same: "read_numbers (length xs + k) t = read_numbers (length xs + k) ?rest"
    using t by (cases "length xs + k") (simp_all add: strtok_skip)
  show ?case
  proof (cases "m = n")
    case True
    then show ?thesis using tok assms(2) by (simp add: atoi_dec_checked checked_def in_int_def)
  next
    case False
    then have "read_numbers (length xs + k) t = None" using Cons same by simp
    with tok show ?thesis by (cases "atoi (dec m)") simp_all
  qed
qed simp

lemma sum_ints_eq:
  "0 \<le> a \<Longrightarrow> a < 2 ^ 31 \<Longrightarrow> sum_ints a (map int ns) = (if a + int (sum_list ns) < 2 ^ 31 then Some (a + int (sum_list ns)) else None)"
proof (induction ns arbitrary: a)
  case (Cons n ns)
  show ?case
  proof (cases "a + int n < 2 ^ 31")
    case True
    then show ?thesis using Cons.IH [of "a + int n"] Cons.prems by (simp add: checked_def in_int_def algebra_simps)
  next
    case False
    then show ?thesis using Cons.prems by (simp add: checked_def in_int_def)
  qed
qed simp


lemma length_dec:
  "n < 10 \<Longrightarrow> length (dec n) = 1" "10 \<le> n \<Longrightarrow> length (dec n) = Suc (length (dec (n div 10)))"
  by (subst dec.simps, simp)+


end
