(* ===== verification/BbgThreads.thy ===== *)
theory BbgThreads
  imports CpuStat Creation
begin

text \<open>
  The threads of \<^verbatim>\<open>HW4_APES/PROBLEM1/BBG_pthread.c\<close>. The first child counts the letters of
  \<^verbatim>\<open>gdb.txt\<close> and logs the counts; the second one waits, spinning, for the timer (SIGUSR1 sets
  \<open>flag\<close>) and logs the CPU utilisation, until SIGUSR2 (which sets \<open>flag2\<close>) ends it.

  A step is one test, one character or one letter; signals arrive at any moment after \<open>main\<close> has
  installed the handlers. The contents of \<^verbatim>\<open>gdb.txt\<close>, whether \<open>malloc\<close> succeeds, the lines of
  \<^verbatim>\<open>/proc/stat\<close> and how many files the process may have open are parameters; \<open>opened\<close> counts its
  open files, the three standard ones included, and a file that exists opens as long as there is room.
  \<open>crashed\<close>: the program has used a null pointer (or overflowed an \<open>int\<close>). The log lists the lines in the order in which they are printed; time stamps and thread
  ids are left out, and a thread that spins makes no step.
\<close>

section \<open>State\<close>

datatype line = EnterMaster | EnterChild1 | EnterChild2 | ProcessedData | Letter nat nat
  | Child1Killed | Child1Done | Cpu sample | Child2Usr2 | ExitMaster

datatype child1 = C1New | C1Start | C1Open | C1Count nat "nat list" | C1Print nat "nat list" | C1Ended

datatype child2 = C2New | C2Start | C2Loop | C2ClearUsr2 | C2ClearTimer | C2Ended

record bbg =
  flag :: bool
  flag2 :: bool
  c1 :: child1
  c2 :: child2
  mpc :: main_pc
  created :: "birth \<times> birth"
  log :: "line list"
  console :: "string list"
  samples :: nat
  crashed :: bool
  gdb :: "byte list option"
  malloc_ok :: bool
  stat :: "nat \<Rightarrow> string"
  opened :: nat
  max_open :: nat

text \<open>\<open>created\<close>: what the two \<open>pthread_create\<close> calls will do.\<close>

definition bbg_init :: "byte list option \<Rightarrow> bool \<Rightarrow> (nat \<Rightarrow> string) \<Rightarrow> birth \<times> birth \<Rightarrow> nat \<Rightarrow> bbg" where
  "bbg_init file ok st c n = \<lparr>flag = False, flag2 = False, c1 = C1New, c2 = C2New, mpc = MStart, created = c, log = [], console = [],
     samples = 0, crashed = False, gdb = file, malloc_ok = ok, stat = st,
     opened = 3, max_open = n\<rparr>"

definition print :: "line \<Rightarrow> bbg \<Rightarrow> bbg" where
  "print l s = s\<lparr>log := log s @ [l]\<rparr>"

text \<open>A line on the console.\<close>

definition say :: "string \<Rightarrow> bbg \<Rightarrow> bbg" where
  "say m s = s\<lparr>console := console s @ [m]\<rparr>"

text \<open>\<open>fopen\<close> of a file that exists, and \<open>fclose\<close>. A stream that did not open is announced (the name of the
  file is left out), and then used.\<close>

definition fopen :: "bbg \<Rightarrow> bbg option" where
  "fopen s = (if opened s < max_open s then Some (s\<lparr>opened := opened s + 1\<rparr>) else None)"

definition fclose :: "bbg \<Rightarrow> bbg" where
  "fclose s = s\<lparr>opened := opened s - 1\<rparr>"

definition no_stream :: "string \<Rightarrow> bbg \<Rightarrow> bbg" where
  "no_stream m s = (say m s)\<lparr>crashed := True\<rparr>"

section \<open>The first child\<close>

text \<open>The place of a letter in \<open>count_array\<close>, lower and upper case alike.\<close>

definition letter_pos :: "byte \<Rightarrow> nat option" where
  "letter_pos c = (if 97 \<le> c \<and> c \<le> 122 then Some (unat c - 97)
     else if 65 \<le> c \<and> c \<le> 90 then Some (unat c + 32 - 97) else None)"

text \<open>Counting a character; \<open>None\<close>: the counter, an \<open>int\<close>, overflows.\<close>

definition count_char :: "nat list \<Rightarrow> byte \<Rightarrow> nat list option" where
  "count_char counts c = (case letter_pos c of None \<Rightarrow> Some counts
     | Some p \<Rightarrow> if counts ! p + 1 < 2 ^ 31 then Some (counts[p := counts ! p + 1]) else None)"

primrec child1_at :: "child1 \<Rightarrow> bbg \<Rightarrow> bbg option" where
  "child1_at C1New s = None"
| "child1_at C1Start s = Some (case fopen s of
       None \<Rightarrow> no_stream (crlf @ ''File  failed to open by child1 thread'') s
     | Some s \<Rightarrow> say (CHR 0x0A # ''Hello from child1 thread '') (print EnterChild1 s)\<lparr>c1 := C1Open\<rparr>)"
| "child1_at C1Open s = Some (case (if gdb s = None then None else fopen s) of
       None \<Rightarrow> no_stream (CHR 0x0A # ''Cant open file'') s
     | Some s \<Rightarrow> (if malloc_ok s then s else say (crlf @ ''Buffer not allocated'') s)
         \<lparr>c1 := C1Count 0 (replicate 26 0)\<rparr>)"
| "child1_at (C1Count i counts) s = (case gdb s of
       None \<Rightarrow> None
     | Some file \<Rightarrow> Some
        (if i < length file then
           if flag2 s then print Child1Killed ((fclose (fclose s))\<lparr>c1 := C1Ended\<rparr>)
           else if \<not> malloc_ok s then s\<lparr>crashed := True\<rparr>
           else case count_char counts (file ! i) of
             None \<Rightarrow> s\<lparr>crashed := True\<rparr>
           | Some counts \<Rightarrow> s\<lparr>c1 := C1Count (i + 1) counts\<rparr>
         else print ProcessedData (s\<lparr>c1 := C1Print 0 counts\<rparr>)))"
| "child1_at (C1Print i counts) s = Some
     (if i < 26 then
        if flag2 s then print Child1Killed ((fclose (fclose s))\<lparr>c1 := C1Ended\<rparr>)
        else if counts ! i \<le> 100 then print (Letter i (counts ! i)) (s\<lparr>c1 := C1Print (i + 1) counts\<rparr>)
        else s\<lparr>c1 := C1Print (i + 1) counts\<rparr>
      else print Child1Done ((fclose (fclose s))\<lparr>c1 := C1Ended\<rparr>))"
| "child1_at C1Ended s = None"

definition child1_step :: "bbg \<Rightarrow> bbg option" where
  "child1_step s = (if crashed s then None else child1_at (c1 s) s)"

section \<open>The second child\<close>

primrec child2_at :: "child2 \<Rightarrow> bbg \<Rightarrow> bbg option" where
  "child2_at C2New s = None"
| "child2_at C2Start s = Some (case fopen s of
       None \<Rightarrow> no_stream (crlf @ ''File  failed to open by child2 thread'') s
     | Some s \<Rightarrow> say (CHR 0x0A # ''Hello from child2 thread '') (print EnterChild2 s)\<lparr>c2 := C2Loop\<rparr>)"
| "child2_at C2Loop s =
     (if flag2 s then Some (print Child2Usr2 (s\<lparr>c2 := C2ClearUsr2\<rparr>))
      else if flag s then Some (case fopen s of
          None \<Rightarrow> s\<lparr>crashed := True\<rparr>
        | Some s \<Rightarrow> let n = samples s; s = s\<lparr>samples := n + 1\<rparr> in
            case cpu_sample (stat s n) of
              None \<Rightarrow> s\<lparr>crashed := True\<rparr>
            | Some u \<Rightarrow> print (Cpu u) (s\<lparr>c2 := C2ClearTimer\<rparr>))
      else None)"
| "child2_at C2ClearUsr2 s = Some ((fclose s)\<lparr>flag2 := False, c2 := C2Ended\<rparr>)"
| "child2_at C2ClearTimer s = Some (s\<lparr>flag := False, c2 := C2Loop\<rparr>)"
| "child2_at C2Ended s = None"

definition child2_step :: "bbg \<Rightarrow> bbg option" where
  "child2_step s = (if crashed s then None else child2_at (c2 s) s)"

section \<open>The main thread and the signals\<close>

primrec main_at :: "main_pc \<Rightarrow> bbg \<Rightarrow> bbg option" where
  "main_at MStart s = Some (case fopen s of
       None \<Rightarrow> no_stream (crlf @ ''File  failed to open by master thread'') s
     | Some s \<Rightarrow> say (CHR 0x0A # ''Hello from master thread '') (fclose (print EnterMaster s))\<lparr>mpc := MCreate1\<rparr>)"
| "main_at MCreate1 s = Some ((if fst (created s) = Made then s\<lparr>c1 := C1Start\<rparr>
     else say (crlf @ ''Child1 thread not created successfully'') s)\<lparr>mpc := MCreate2\<rparr>)"
| "main_at MCreate2 s = Some ((if snd (created s) = Made then s\<lparr>c2 := C2Start\<rparr>
     else say (crlf @ ''Child2 thread not created successfully'') s)\<lparr>mpc := MJoin1\<rparr>)"
| "main_at MJoin1 s = (case fst (created s) of
       Made \<Rightarrow> if c1 s = C1Ended then Some (s\<lparr>mpc := MJoin2\<rparr>) else None
     | Refused None \<Rightarrow> Some (s\<lparr>mpc := MLost\<rparr>)
     | Refused (Some status) \<Rightarrow> Some ((if status \<noteq> 0 then say (crlf @ ''Joining of child thread 1 not successfull'') s else s)\<lparr>mpc := MJoin2\<rparr>))"
| "main_at MJoin2 s = (case snd (created s) of
       Made \<Rightarrow> if c2 s = C2Ended then Some (s\<lparr>mpc := MClose\<rparr>) else None
     | Refused None \<Rightarrow> Some (s\<lparr>mpc := MLost\<rparr>)
     | Refused (Some status) \<Rightarrow> Some ((if status \<noteq> 0 then say (crlf @ ''Joining of child thread 2 not successfull'') s else s)\<lparr>mpc := MClose\<rparr>))"
| "main_at MClose s = Some (case fopen s of
       None \<Rightarrow> s\<lparr>crashed := True\<rparr>
     | Some s \<Rightarrow> fclose (print ExitMaster (s\<lparr>mpc := MDone\<rparr>)))"
| "main_at MDone s = None"
| "main_at MLost s = None"

definition main_step :: "bbg \<Rightarrow> bbg option" where
  "main_step s = (if crashed s then None else main_at (mpc s) s)"

definition timer_handler :: "bbg \<Rightarrow> bbg" where
  "timer_handler s = s\<lparr>flag := True\<rparr>"

definition kill_thread_handler :: "bbg \<Rightarrow> bbg" where
  "kill_thread_handler s = (say (CHR 0x0A # ''USR2 triggered'') s)\<lparr>flag2 := True\<rparr>"

datatype event = Move who | Usr1 | Usr2

primrec bbg_act :: "event \<Rightarrow> bbg \<Rightarrow> bbg option" where
  "bbg_act (Move w) s = (case w of Main \<Rightarrow> main_step s | Thread1 \<Rightarrow> child1_step s | Thread2 \<Rightarrow> child2_step s)"
| "bbg_act Usr1 s = (if mpc s = MStart then None else Some (timer_handler s))"
| "bbg_act Usr2 s = (if mpc s = MStart then None else Some (kill_thread_handler s))"

section \<open>The letters\<close>

definition occurrences :: "byte list \<Rightarrow> nat \<Rightarrow> nat" where
  "occurrences file l = length (filter (\<lambda>c. letter_pos c = Some l) file)"

text \<open>The lines for the letters from \<open>k\<close> on: those that occur at most 100 times.\<close>

definition letter_lines :: "byte list \<Rightarrow> nat \<Rightarrow> line list" where
  "letter_lines file k = map (\<lambda>l. Letter l (occurrences file l)) (filter (\<lambda>l. occurrences file l \<le> 100) [0..<k])"

primrec is_letter :: "line \<Rightarrow> bool" where
  "is_letter (Letter l n) = True"
| "is_letter EnterMaster = False" | "is_letter EnterChild1 = False" | "is_letter EnterChild2 = False"
| "is_letter ProcessedData = False" | "is_letter Child1Killed = False" | "is_letter Child1Done = False"
| "is_letter (Cpu u) = False" | "is_letter Child2Usr2 = False" | "is_letter ExitMaster = False"

definition letters :: "bbg \<Rightarrow> line list" where
  "letters s = filter is_letter (log s)"

lemma letter_pos_less: "letter_pos c = Some p \<Longrightarrow> p < 26"
  by (auto simp: letter_pos_def word_le_nat_alt split: if_splits)

definition counted :: "byte list \<Rightarrow> nat list" where
  "counted xs = map (occurrences xs) [0..<26]"

lemma counted_Nil: "counted [] = replicate 26 0"
  by (rule nth_equalityI) (simp_all add: counted_def occurrences_def)

lemma counted_snoc: "count_char (counted xs) c = Some ys \<Longrightarrow> ys = counted (xs @ [c])"
proof (cases "letter_pos c")
  case None
  then show "count_char (counted xs) c = Some ys \<Longrightarrow> ?thesis"
    by (auto simp: count_char_def counted_def occurrences_def)
next
  case (Some p)
  with letter_pos_less [OF Some] show "count_char (counted xs) c = Some ys \<Longrightarrow> ?thesis"
    by (intro nth_equalityI) (auto simp: count_char_def counted_def occurrences_def nth_list_update split: if_splits)
qed

lemma count_char_counts:
  assumes "length xs < 2 ^ 31 - 1"
  shows "count_char (counted xs) c \<noteq> None"
proof -
  have "counted xs ! p + 1 < 2 ^ 31" if "p < 26" for p
    using that assms le_less_trans [OF length_filter_le [of "\<lambda>c. letter_pos c = Some p" xs], of "2 ^ 31 - 1"]
    by (simp add: counted_def occurrences_def)
  then show ?thesis using letter_pos_less by (simp add: count_char_def split: option.split)
qed

lemma letter_lines_Suc:
  "letter_lines file (Suc k) = letter_lines file k
     @ (if occurrences file k \<le> 100 then [Letter k (occurrences file k)] else [])"
  by (simp add: letter_lines_def)

text \<open>What holds of the first child in every run.\<close>

definition done1 :: "bbg \<Rightarrow> bool" where
  "done1 s \<longleftrightarrow> Child1Done \<in> set (log s)"

primrec child1_ok :: "child1 \<Rightarrow> byte list \<Rightarrow> bbg \<Rightarrow> bool" where
  "child1_ok C1New f s = (letters s = [] \<and> \<not> done1 s)"
| "child1_ok C1Start f s = (letters s = [] \<and> \<not> done1 s)"
| "child1_ok C1Open f s = (letters s = [] \<and> \<not> done1 s)"
| "child1_ok (C1Count i cs) f s = (letters s = [] \<and> \<not> done1 s \<and> i \<le> length f \<and> cs = counted (take i f))"
| "child1_ok (C1Print i cs) f s = (letters s = letter_lines f i \<and> \<not> done1 s \<and> i \<le> 26 \<and> cs = counted f)"
| "child1_ok C1Ended f s = (\<exists>k \<le> 26. letters s = letter_lines f k \<and> (done1 s \<longrightarrow> k = 26))"

lemma letters_print [simp]: "letters (print l s) = letters s @ (if is_letter l then [l] else [])"
  by (simp add: letters_def print_def)

lemma letters_update [simp]:
  "letters (s\<lparr>c1 := a\<rparr>) = letters s" "letters (s\<lparr>c2 := b\<rparr>) = letters s" "letters (s\<lparr>mpc := m\<rparr>) = letters s"
  "letters (s\<lparr>flag := g\<rparr>) = letters s" "letters (s\<lparr>flag2 := g\<rparr>) = letters s"
  "letters (s\<lparr>opened := n\<rparr>) = letters s" "letters (say m' s) = letters s" "letters (s\<lparr>samples := n\<rparr>) = letters s" "letters (s\<lparr>crashed := g\<rparr>) = letters s"
  by (simp_all add: letters_def say_def)

lemma done1_print [simp]: "done1 (print l s) \<longleftrightarrow> done1 s \<or> l = Child1Done"
  by (auto simp: done1_def print_def)

lemma done1_update [simp]:
  "done1 (s\<lparr>c1 := a\<rparr>) = done1 s" "done1 (s\<lparr>c2 := b\<rparr>) = done1 s" "done1 (s\<lparr>mpc := m\<rparr>) = done1 s"
  "done1 (s\<lparr>flag := g\<rparr>) = done1 s" "done1 (s\<lparr>flag2 := g\<rparr>) = done1 s"
  "done1 (s\<lparr>opened := n\<rparr>) = done1 s" "done1 (say m' s) = done1 s" "done1 (s\<lparr>samples := n\<rparr>) = done1 s" "done1 (s\<lparr>crashed := g\<rparr>) = done1 s"
  by (simp_all add: done1_def say_def)

lemma print_fields [simp]:
  "flag (print l s) = flag s" "flag2 (print l s) = flag2 s" "c1 (print l s) = c1 s" "c2 (print l s) = c2 s"
  "mpc (print l s) = mpc s" "samples (print l s) = samples s" "crashed (print l s) = crashed s"
  "gdb (print l s) = gdb s" "malloc_ok (print l s) = malloc_ok s" "stat (print l s) = stat s"
  "log (print l s) = log s @ [l]" "created (print l s) = created s"
  "opened (print l s) = opened s" "max_open (print l s) = max_open s"
  by (simp_all add: print_def)

lemma say_fields [simp]:
  "flag (say m s) = flag s" "flag2 (say m s) = flag2 s" "c1 (say m s) = c1 s" "c2 (say m s) = c2 s"
  "mpc (say m s) = mpc s" "samples (say m s) = samples s" "crashed (say m s) = crashed s"
  "gdb (say m s) = gdb s" "malloc_ok (say m s) = malloc_ok s" "stat (say m s) = stat s"
  "log (say m s) = log s" "created (say m s) = created s"
  "opened (say m s) = opened s" "max_open (say m s) = max_open s"
  by (simp_all add: say_def)

lemmas file_ops = fopen_def fclose_def no_stream_def

definition new_ok :: "bbg \<Rightarrow> bool" where
  "new_ok s \<longleftrightarrow> (mpc s = MStart \<or> mpc s = MCreate1 \<longrightarrow> c1 s = C1New)
     \<and> (mpc s = MStart \<or> mpc s = MCreate1 \<or> mpc s = MCreate2 \<longrightarrow> c2 s = C2New)"

definition bbg_ok :: "byte list \<Rightarrow> bbg \<Rightarrow> bool" where
  "bbg_ok f s \<longleftrightarrow> gdb s = Some f \<and> new_ok s \<and> child1_ok (c1 s) f s"

text \<open>A step that changes neither the first child nor its lines keeps what holds of it.\<close>

lemma child1_ok_frame:
  "letters t = letters s \<Longrightarrow> done1 t = done1 s \<Longrightarrow> child1_ok c f t = child1_ok c f s"
  by (cases c) simp_all

lemma bbg_ok_child1:
  assumes "bbg_ok f s" "child1_step s = Some t"
  shows "bbg_ok f t"
proof -
  have t: "child1_at (c1 s) s = Some t" and g: "gdb s = Some f" and n: "new_ok s" and c: "child1_ok (c1 s) f s"
    using assms by (auto simp: child1_step_def bbg_ok_def split: if_splits)
  have m: "mpc s \<noteq> MStart \<and> mpc s \<noteq> MCreate1" using n t by (auto simp: new_ok_def)
  have here: "\<exists>k \<le> 26. letter_lines f i = letter_lines f k" if "i < 26" for i
    using that by (intro exI [of _ i]) simp
  have none: "letter_lines f 0 = []" by (simp add: letter_lines_def)
  then have some: "\<exists>k \<le> 26. [] = letter_lines f k" by (intro exI [of _ 0]) simp
  show ?thesis
  proof (cases "c1 s")
    case (C1Count i cs)
    show ?thesis
    proof (cases "i < length f")
      case True
      then have "take (Suc i) f = take i f @ [f ! i]" by (rule take_Suc_conv_app_nth)
      with True C1Count t g n m c show ?thesis
        by (auto simp: bbg_ok_def new_ok_def file_ops some split: if_splits option.splits dest: counted_snoc)
    next
      case False
      with C1Count t g n m c show ?thesis
        by (auto simp: bbg_ok_def new_ok_def none)
    qed
  next
    case (C1Print i cs)
    then have "i < 26 \<Longrightarrow> cs ! i = occurrences f i" using c by (simp add: counted_def)
    with C1Print t g n m c show ?thesis
      by (auto simp: bbg_ok_def new_ok_def file_ops letter_lines_Suc here split: if_splits)
  qed (use t g n m c in \<open>auto simp: bbg_ok_def new_ok_def file_ops counted_Nil split: if_splits\<close>)
qed

lemma frame_child2:
  "child2_step s = Some t \<Longrightarrow> letters t = letters s \<and> done1 t = done1 s \<and> gdb t = gdb s \<and> c1 t = c1 s
     \<and> mpc t = mpc s \<and> c2 s \<noteq> C2New"
  by (cases "c2 s") (auto simp: child2_step_def file_ops Let_def split: if_splits option.splits)

lemma bbg_ok_child2: "bbg_ok f s \<Longrightarrow> child2_step s = Some t \<Longrightarrow> bbg_ok f t"
  using frame_child2 [of s t] child1_ok_frame [of t s] by (auto simp: bbg_ok_def new_ok_def)

lemma bbg_ok_main: "bbg_ok f s \<Longrightarrow> main_step s = Some t \<Longrightarrow> bbg_ok f t"
  using child1_ok_frame [of t s]
  by (cases "mpc s") (auto simp: main_step_def bbg_ok_def new_ok_def file_ops split: if_splits birth.splits option.splits)

lemma bbg_ok_signal: "bbg_ok f (timer_handler s) = bbg_ok f s" "bbg_ok f (kill_thread_handler s) = bbg_ok f s"
  by (simp_all add: bbg_ok_def new_ok_def timer_handler_def kill_thread_handler_def
      child1_ok_frame [of "s\<lparr>flag := True\<rparr>" s] child1_ok_frame [of "(say m s)\<lparr>flag2 := True\<rparr>" s for m])

lemma bbg_ok_act:
  assumes "bbg_ok f s" "bbg_act a s = Some t"
  shows "bbg_ok f t"
proof (cases a)
  case (Move w)
  with assms show ?thesis
    using bbg_ok_main [OF assms(1)] bbg_ok_child1 [OF assms(1)] bbg_ok_child2 [OF assms(1)] by (cases w) simp_all
qed (use assms bbg_ok_signal in \<open>auto split: if_splits\<close>)

lemma bbg_ok_run: "bbg_ok f s \<Longrightarrow> run bbg_act as s = Some t \<Longrightarrow> bbg_ok f t"
  by (rule run_invariant [of "bbg_ok f" bbg_act, OF bbg_ok_act])

lemma bbg_ok_init: "bbg_ok f (bbg_init (Some f) ok st c n)"
  by (simp add: bbg_ok_def bbg_init_def new_ok_def letters_def done1_def)

text \<open>Without SIGUSR2 the second child, when there is one, does not end.\<close>

definition waiting2 :: "bbg \<Rightarrow> bool" where
  "waiting2 s \<longleftrightarrow> snd (created s) = Made \<and> \<not> flag2 s \<and> c2 s \<noteq> C2Ended \<and> c2 s \<noteq> C2ClearUsr2 \<and> mpc s \<noteq> MClose \<and> mpc s \<noteq> MDone
     \<and> ExitMaster \<notin> set (log s) \<and> Child2Usr2 \<notin> set (log s) \<and> Child1Killed \<notin> set (log s)"

lemma waiting2_child1: "waiting2 s \<Longrightarrow> child1_step s = Some t \<Longrightarrow> waiting2 t"
  by (cases "c1 s") (auto simp: child1_step_def waiting2_def file_ops split: if_splits option.splits)

lemma waiting2_child2: "waiting2 s \<Longrightarrow> child2_step s = Some t \<Longrightarrow> waiting2 t"
  by (cases "c2 s") (auto simp: child2_step_def waiting2_def file_ops Let_def split: if_splits option.splits)

lemma waiting2_main: "waiting2 s \<Longrightarrow> main_step s = Some t \<Longrightarrow> waiting2 t"
  by (cases "mpc s") (auto simp: main_step_def waiting2_def file_ops split: if_splits birth.splits option.splits)

lemma waiting2_run: "waiting2 s \<Longrightarrow> Usr2 \<notin> set as \<Longrightarrow> run bbg_act as s = Some t \<Longrightarrow> waiting2 t"
proof (induction as arbitrary: s)
  case (Cons a as)
  then obtain u where u: "bbg_act a s = Some u" "run bbg_act as u = Some t"
    by (auto split: option.splits)
  have "waiting2 u"
  proof (cases a)
    case (Move w)
    then show ?thesis
      using u(1) waiting2_main [OF Cons.prems(1)] waiting2_child1 [OF Cons.prems(1)]
        waiting2_child2 [OF Cons.prems(1)] by (cases w) simp_all
  next
    case Usr1
    then show ?thesis using u(1) Cons.prems(1) by (auto simp: waiting2_def timer_handler_def split: if_splits)
  qed (use Cons.prems in auto)
  with Cons.IH [of u] Cons.prems(2) u(2) show ?case by simp
qed simp

text \<open>The files that a child has open.\<close>

primrec files1 :: "child1 \<Rightarrow> nat" where
  "files1 C1New = 0" | "files1 C1Start = 0" | "files1 C1Open = 1" | "files1 (C1Count i cs) = 2"
| "files1 (C1Print i cs) = 2" | "files1 C1Ended = 0"

primrec files2 :: "child2 \<Rightarrow> nat" where
  "files2 C2New = 0" | "files2 C2Start = 0" | "files2 C2Loop = 1" | "files2 C2ClearUsr2 = 1"
| "files2 C2ClearTimer = 1" | "files2 C2Ended = 0"

text \<open>Every sample leaves a file open: the open files are the standard ones, those that the children will
  close, and one for every sample.\<close>

definition is_cpu :: "line \<Rightarrow> bool" where
  "is_cpu l \<longleftrightarrow> (case l of Cpu u \<Rightarrow> True | _ \<Rightarrow> False)"

definition cpu_lines :: "bbg \<Rightarrow> nat" where
  "cpu_lines s = length (filter is_cpu (log s))"

definition files_ok :: "nat \<Rightarrow> bbg \<Rightarrow> bool" where
  "files_ok n s \<longleftrightarrow> max_open s = n \<and> opened s = 3 + samples s + files1 (c1 s) + files2 (c2 s) \<and> opened s \<le> max 3 n
     \<and> (samples s = 0 \<or> samples s + 4 \<le> n) \<and> cpu_lines s \<le> samples s"

lemma cpu_lines_update [simp]:
  "cpu_lines (print l s) = cpu_lines s + (if is_cpu l then 1 else 0)" "cpu_lines (say m s) = cpu_lines s"
  "cpu_lines (s\<lparr>c1 := a\<rparr>) = cpu_lines s" "cpu_lines (s\<lparr>c2 := b\<rparr>) = cpu_lines s" "cpu_lines (s\<lparr>mpc := p\<rparr>) = cpu_lines s"
  "cpu_lines (s\<lparr>flag := g\<rparr>) = cpu_lines s" "cpu_lines (s\<lparr>flag2 := g\<rparr>) = cpu_lines s"
  "cpu_lines (s\<lparr>samples := n\<rparr>) = cpu_lines s" "cpu_lines (s\<lparr>crashed := g\<rparr>) = cpu_lines s"
  "cpu_lines (s\<lparr>opened := n\<rparr>) = cpu_lines s"
  by (simp_all add: cpu_lines_def print_def say_def)

lemma is_cpu_simps [simp]:
  "is_cpu (Cpu u)" "\<not> is_cpu EnterMaster" "\<not> is_cpu EnterChild1" "\<not> is_cpu EnterChild2" "\<not> is_cpu ProcessedData"
  "\<not> is_cpu (Letter l k)" "\<not> is_cpu Child1Killed" "\<not> is_cpu Child1Done" "\<not> is_cpu Child2Usr2" "\<not> is_cpu ExitMaster"
  by (simp_all add: is_cpu_def)

lemma files_ok_child1: "files_ok n s \<Longrightarrow> child1_step s = Some t \<Longrightarrow> files_ok n t"
  by (cases "c1 s") (auto simp: child1_step_def files_ok_def file_ops split: if_splits option.splits)

lemma files_ok_child2: "files_ok n s \<Longrightarrow> child2_step s = Some t \<Longrightarrow> files_ok n t"
  by (cases "c2 s") (auto simp: child2_step_def files_ok_def file_ops Let_def split: if_splits option.splits)

lemma files_ok_main: "files_ok n s \<Longrightarrow> new_ok s \<Longrightarrow> main_step s = Some t \<Longrightarrow> files_ok n t"
  by (cases "mpc s") (auto simp: main_step_def files_ok_def new_ok_def file_ops split: if_splits birth.splits option.splits)

lemma frame_child1: "child1_step s = Some t \<Longrightarrow> mpc t = mpc s \<and> c2 t = c2 s \<and> c1 s \<noteq> C1New"
  by (cases "c1 s") (auto simp: child1_step_def file_ops split: if_splits option.splits)

lemma new_ok_main: "new_ok s \<Longrightarrow> main_step s = Some t \<Longrightarrow> new_ok t"
  by (cases "mpc s") (auto simp: main_step_def new_ok_def file_ops split: if_splits birth.splits option.splits)

lemma files_ok_act:
  assumes "new_ok s \<and> files_ok n s" "bbg_act a s = Some t"
  shows "new_ok t \<and> files_ok n t"
proof (cases a)
  case (Move w)
  have n: "new_ok s" and f: "files_ok n s" using assms(1) by simp_all
  show ?thesis
  proof (cases w)
    case Main
    then show ?thesis using Move assms(2) new_ok_main [OF n] files_ok_main [OF f n] by simp
  next
    case Thread1
    then show ?thesis using Move assms(2) n frame_child1 [of s t] files_ok_child1 [OF f] by (auto simp: new_ok_def)
  next
    case Thread2
    then show ?thesis using Move assms(2) n frame_child2 [of s t] files_ok_child2 [OF f] by (auto simp: new_ok_def)
  qed
qed (use assms in \<open>auto simp: files_ok_def new_ok_def timer_handler_def kill_thread_handler_def split: if_splits\<close>)

lemma files_ok_run: "new_ok s \<and> files_ok n s \<Longrightarrow> run bbg_act as s = Some t \<Longrightarrow> new_ok t \<and> files_ok n t"
  by (rule run_invariant [of "\<lambda>s. new_ok s \<and> files_ok n s" bbg_act, OF files_ok_act])

lemma files_ok_init: "new_ok (bbg_init file ok st c n) \<and> files_ok n (bbg_init file ok st c n)"
  by (simp add: files_ok_def new_ok_def bbg_init_def cpu_lines_def)

text \<open>Left alone, the first child completes its work.\<close>

primrec rank :: "byte list \<Rightarrow> child1 \<Rightarrow> nat" where
  "rank f C1New = 0" | "rank f C1Start = length f + 30" | "rank f C1Open = length f + 29"
| "rank f (C1Count i cs) = (length f - i) + 28" | "rank f (C1Print i cs) = 27 - i" | "rank f C1Ended = 0"

definition can_work :: "byte list \<Rightarrow> bbg \<Rightarrow> bool" where
  "can_work f s \<longleftrightarrow> bbg_ok f s \<and> length f < 2 ^ 31 \<and> c1 s \<noteq> C1New \<and> \<not> flag2 s \<and> \<not> crashed s \<and> malloc_ok s
     \<and> (c1 s = C1Ended \<or> opened s + 2 = 5 + files1 (c1 s)) \<and> 5 \<le> max_open s
     \<and> Child1Killed \<notin> set (log s) \<and> (c1 s = C1Ended \<longrightarrow> Child1Done \<in> set (log s) \<and> opened s = 3)"

lemma child1_moves:
  assumes "can_work f s" "c1 s \<noteq> C1Ended"
  shows "\<exists>t. child1_step s = Some t \<and> can_work f t \<and> rank f (c1 t) < rank f (c1 s)
     \<and> set (log s) \<subseteq> set (log t) \<and> c2 t = c2 s \<and> mpc t = mpc s \<and> created t = created s"
proof -
  have ok: "bbg_ok f s" using assms(1) by (simp add: can_work_def)
  show ?thesis
  proof (cases "c1 s")
    case (C1Count i cs)
    have cs: "cs = counted (take i f)" "i \<le> length f" "gdb s = Some f" using ok C1Count by (auto simp: bbg_ok_def)
    then have "i < length f \<Longrightarrow> \<exists>ys. count_char cs (f ! i) = Some ys"
      using count_char_counts [of "take i f" "f ! i"] assms(1) by (auto simp: can_work_def)
    with C1Count cs assms bbg_ok_child1 [OF ok] show ?thesis
      by (cases "i < length f") (fastforce simp: can_work_def child1_step_def)+
  qed (use assms bbg_ok_child1 [OF ok] ok in \<open>auto simp: can_work_def child1_step_def bbg_ok_def file_ops\<close>)
qed

lemma child1_finishes:
  assumes "can_work f s"
  shows "\<exists>as t. run bbg_act as s = Some t \<and> can_work f t \<and> c1 t = C1Ended
     \<and> set (log s) \<subseteq> set (log t) \<and> c2 t = c2 s \<and> mpc t = mpc s \<and> created t = created s"
  using assms
proof (induction "rank f (c1 s)" arbitrary: s rule: less_induct)
  case less
  show ?case
  proof (cases "c1 s = C1Ended")
    case True
    with less.prems show ?thesis by (intro exI [of _ "[]"] exI [of _ s]) simp
  next
    case False
    obtain u where u: "child1_step s = Some u" "can_work f u" "rank f (c1 u) < rank f (c1 s)"
      "set (log s) \<subseteq> set (log u)" "c2 u = c2 s" "mpc u = mpc s" "created u = created s"
      using child1_moves [OF less.prems False] by blast
    obtain as t where t: "run bbg_act as u = Some t" "can_work f t" "c1 t = C1Ended"
      "set (log u) \<subseteq> set (log t)" "c2 t = c2 u" "mpc t = mpc u" "created t = created u"
      using less.hyps [OF u(3,2)] by blast
    with u show ?thesis by (intro exI [of _ "Move Thread1 # as"] exI [of _ t]) auto
  qed
qed

section \<open>Joining the threads\<close>

inductive step :: "bbg \<Rightarrow> bbg \<Rightarrow> bool" where
  act: "bbg_act a s = Some t \<Longrightarrow> step s t"

text \<open>A signal: SIGUSR1 or SIGUSR2.\<close>

definition signalled :: "bool \<Rightarrow> bbg \<Rightarrow> bbg" where
  "signalled usr1 s = (if usr1 then timer_handler s else kill_thread_handler s)"

lemma bact_cases:
  "bbg_act a s = Some t \<Longrightarrow> main_step s = Some t \<or> child1_step s = Some t \<or> child2_step s = Some t
     \<or> (\<exists>w. t = signalled w s)"
  by (cases a) (auto simp: signalled_def split: who.splits if_splits)

text \<open>The reports of the failing calls.\<close>

primrec bbg_complaint :: "main_pc \<Rightarrow> string" where
  "bbg_complaint MStart = []"
| "bbg_complaint MCreate1 = crlf @ ''Child1 thread not created successfully''"
| "bbg_complaint MCreate2 = crlf @ ''Child2 thread not created successfully''"
| "bbg_complaint MJoin1 = crlf @ ''Joining of child thread 1 not successfull''"
| "bbg_complaint MJoin2 = crlf @ ''Joining of child thread 2 not successfull''"
| "bbg_complaint MClose = []"
| "bbg_complaint MDone = []"
| "bbg_complaint MLost = []"

lemma bjoins_main:
  "main_step s = Some t \<Longrightarrow> created t = created s \<and> (mpc t = mpc s \<or> mpc t \<in> main_moves (created s) (mpc s))
     \<and> (fst (created s) = Made \<or> c1 t = c1 s) \<and> (snd (created s) = Made \<or> c2 t = c2 s)
     \<and> (stage MJoin1 < stage (mpc s) \<longrightarrow> c1 t = c1 s) \<and> (stage MJoin2 < stage (mpc s) \<longrightarrow> c2 t = c2 s)
     \<and> (ExitMaster \<in> set (log t) \<longrightarrow> ExitMaster \<in> set (log s) \<or> mpc t = MDone)
     \<and> set (console s) \<subseteq> set (console t)"
  by (cases "mpc s")
     (auto simp: main_step_def file_ops say_def print_def after_join_def split: if_splits birth.splits option.splits)

lemma bjoins_passed:
  "main_step s = Some t \<Longrightarrow> mpc t \<noteq> mpc s \<Longrightarrow> (mpc s = MJoin1 \<and> fst (created s) = Made \<longrightarrow> c1 t = C1Ended)
     \<and> (mpc s = MJoin2 \<and> snd (created s) = Made \<longrightarrow> c2 t = C2Ended)
     \<and> (fails_at (created s) (mpc s) \<longrightarrow> bbg_complaint (mpc s) \<in> set (console t))"
  by (cases "mpc s")
     (auto simp: main_step_def file_ops say_def print_def bad_join_def split: if_splits birth.splits option.splits)

lemma joins_child1:
  "child1_step s = Some t \<Longrightarrow> created t = created s \<and> mpc t = mpc s \<and> c1 s \<noteq> C1New \<and> c1 s \<noteq> C1Ended \<and> c2 t = c2 s
     \<and> (ExitMaster \<in> set (log t)) = (ExitMaster \<in> set (log s)) \<and> set (console s) \<subseteq> set (console t)"
  by (cases "c1 s") (auto simp: child1_step_def file_ops say_def print_def split: if_splits option.splits)

lemma joins_child2:
  "child2_step s = Some t \<Longrightarrow> created t = created s \<and> mpc t = mpc s \<and> c2 s \<noteq> C2New \<and> c2 s \<noteq> C2Ended \<and> c1 t = c1 s
     \<and> (ExitMaster \<in> set (log t)) = (ExitMaster \<in> set (log s)) \<and> set (console s) \<subseteq> set (console t)"
  by (cases "c2 s") (auto simp: child2_step_def file_ops Let_def say_def print_def split: if_splits option.splits)

interpretation bjoin: main_joins step main_step child1_step child2_step signalled mpc created
  "\<lambda>s. c1 s = C1New" "\<lambda>s. c2 s = C2New" "\<lambda>s. c1 s = C1Ended" "\<lambda>s. c2 s = C2Ended"
  "\<lambda>s. ExitMaster \<in> set (log s)" "\<lambda>p s. bbg_complaint p \<in> set (console s)"
proof
  fix s t w p
  show "main_step s = Some t \<or> child1_step s = Some t \<or> child2_step s = Some t \<or> (\<exists>w. t = signalled w s)"
    if "step s t"
    using that bact_cases by (auto elim!: step.cases)
  show "created (signalled w s) = created s \<and> mpc (signalled w s) = mpc s
    \<and> (c1 s = C1New \<longrightarrow> c1 (signalled w s) = C1New) \<and> (c2 s = C2New \<longrightarrow> c2 (signalled w s) = C2New)
    \<and> (c1 s = C1Ended \<longrightarrow> c1 (signalled w s) = C1Ended) \<and> (c2 s = C2Ended \<longrightarrow> c2 (signalled w s) = C2Ended)
    \<and> (ExitMaster \<in> set (log (signalled w s))) = (ExitMaster \<in> set (log s))
    \<and> (bbg_complaint p \<in> set (console s) \<longrightarrow> bbg_complaint p \<in> set (console (signalled w s)))"
    by (simp add: signalled_def timer_handler_def kill_thread_handler_def say_def)
qed ((drule bjoins_main, fastforce)[1], (drule (1) bjoins_passed, fastforce)[1],
    (drule joins_child1, fastforce)[1], (drule joins_child2, fastforce)[1])

section \<open>Properties\<close>

text \<open>C39: under every schedule and whatever signals arrive, the letter lines of the log are an initial
  part of the right ones (each letter that occurs at most 100 times in the file, upper and lower case
  alike, with its number of occurrences, in alphabetical order), and all of them once the first child
  reports that it has completed its work.\<close>

theorem bbg_histogram:
  assumes "run bbg_act as (bbg_init (Some file) ok st c n) = Some s"
  shows "\<exists>k \<le> 26. letters s = letter_lines file k \<and> (Child1Done \<in> set (log s) \<longrightarrow> k = 26)"
proof -
  have ok: "child1_ok (c1 s) file s" using bbg_ok_run [OF bbg_ok_init assms] by (simp add: bbg_ok_def)
  have nil: "letters s = [] \<Longrightarrow> \<not> done1 s \<Longrightarrow> \<exists>k \<le> 26. letters s = letter_lines file k \<and> (done1 s \<longrightarrow> k = 26)"
    by (rule exI [of _ 0]) (simp add: letter_lines_def)
  show ?thesis using ok nil by (cases "c1 s") (auto simp: done1_def)
qed

theorem bbg_histogram_witness:
  "\<exists>s k. run bbg_act [Move Main, Move Main, Move Thread1, Move Thread1, Move Thread1, Move Thread1, Move Thread1] (bbg_init (Some [97]) True (\<lambda>_. []) (Made, Made) 10) = Some s
     \<and> log s = [EnterMaster, EnterChild1, ProcessedData, Letter 0 1] \<and> letters s = letter_lines [97] k"
proof -
  let ?r = "run bbg_act [Move Main, Move Main, Move Thread1, Move Thread1, Move Thread1, Move Thread1, Move Thread1] (bbg_init (Some [97]) True (\<lambda>_. []) (Made, Made) 10)"
  have "map_option log ?r = Some [EnterMaster, EnterChild1, ProcessedData, Letter 0 1]"
    by (simp add: bbg_init_def main_step_def child1_step_def file_ops count_char_def letter_pos_def)
  then obtain s where s: "?r = Some s" "log s = [EnterMaster, EnterChild1, ProcessedData, Letter 0 1]"
    by (cases ?r) simp_all
  from bbg_histogram [OF s(1)] s show ?thesis by blast
qed

text \<open>C38: the second child never closes \<^verbatim>\<open>/proc/stat\<close>. Whatever signals arrive and however the threads
  interleave, a process that may have \<open>n\<close> files open logs the CPU utilisation at most \<open>n - 4\<close> times, and when
  it has done so and the timer fires again, the next step of the second child uses the stream that did
  not open, and the whole process crashes.\<close>

theorem bbg_runs_out_of_files:
  assumes "run bbg_act as (bbg_init file ok st c n) = Some s"
  shows "cpu_lines s \<le> n - 4
    \<and> (cpu_lines s = n - 4 \<and> c2 s = C2Loop \<and> flag s \<and> \<not> flag2 s \<and> \<not> crashed s
         \<longrightarrow> child2_step s = Some (s\<lparr>crashed := True\<rparr>))"
proof -
  have "files_ok n s" using files_ok_run [OF files_ok_init assms] by blast
  then show ?thesis by (auto simp: files_ok_def child2_step_def fopen_def)
qed

theorem bbg_runs_out_of_files_witness:
  "\<exists>s. run bbg_act ([Move Main, Move Main, Move Main, Move Thread2, Usr1, Move Thread2, Move Thread2, Usr1])
       (bbg_init None True (\<lambda>_. ''cpu  1 2 3 4 5 6 7 8 9 0'') (Made, Made) 5) = Some s
     \<and> cpu_lines s = 1 \<and> child2_step s = Some (s\<lparr>crashed := True\<rparr>)"
proof -
  let ?st = "\<lambda>_ :: nat. ''cpu  1 2 3 4 5 6 7 8 9 0''"
  obtain u where u: "cpu_sample ''cpu  1 2 3 4 5 6 7 8 9 0'' = Some u"
  proof -
    have "cpu_sample ''cpu  1 2 3 4 5 6 7 8 9 0'' \<noteq> None" by code_simp
    then show thesis using that by blast
  qed
  obtain s where s: "run bbg_act [Move Main, Move Main, Move Main, Move Thread2, Usr1, Move Thread2, Move Thread2, Usr1]
       (bbg_init None True ?st (Made, Made) 5) = Some s"
    "log s = [EnterMaster, EnterChild2, Cpu u]" "c2 s = C2Loop" "flag s" "\<not> flag2 s" "\<not> crashed s"
    by (simp add: bbg_init_def main_step_def child2_step_def file_ops print_def say_def timer_handler_def u)
  have "cpu_lines s = 5 - 4" by (simp add: cpu_lines_def s)
  then show ?thesis using bbg_runs_out_of_files [OF s(1)] s by simp
qed

text \<open>SIGUSR2 is the only way out: in a run without it, when the second child could be created, \<open>main\<close> does not return, the second child
  does not end, and the first is not killed.\<close>

lemma bbg_runs_until_usr2:
  assumes "run bbg_act as (bbg_init file ok st c n) = Some s" "Usr2 \<notin> set as" "snd c = Made"
  shows "c2 s \<noteq> C2Ended \<and> mpc s \<noteq> MDone \<and> Child1Killed \<notin> set (log s)"
proof -
  have "waiting2 (bbg_init file ok st c n)" using assms(3) by (simp add: waiting2_def bbg_init_def)
  from waiting2_run [OF this assms(2,1)] show ?thesis by (simp add: waiting2_def)
qed

text \<open>the first child can miss the signal: when the second one sees \<open>flag2\<close> and clears it between
  two tests of the first, the first goes on and completes its work, whatever the file is.\<close>

lemma bbg_usr2_missed:
  assumes "length file < 2 ^ 31" "5 \<le> n"
  shows "\<exists>as s. run bbg_act as (bbg_init (Some file) True st (Made, Made) n) = Some s \<and> Usr2 \<in> set as \<and> mpc s = MDone
     \<and> Child2Usr2 \<in> set (log s) \<and> Child1Done \<in> set (log s) \<and> Child1Killed \<notin> set (log s)"
proof -
  let ?as = "[Move Main, Move Main, Move Main, Move Thread2, Usr2, Move Thread2, Move Thread2]"
  obtain s where s: "run bbg_act ?as (bbg_init (Some file) True st (Made, Made) n) = Some s"
    "c1 s = C1Start" "c2 s = C2Ended" "\<not> flag2 s" "\<not> crashed s" "malloc_ok s" "mpc s = MJoin1"
    "created s = (Made, Made)" "opened s = 3" "max_open s = n"
    "log s = [EnterMaster, EnterChild2, Child2Usr2]"
    using assms(2) by (simp add: bbg_init_def main_step_def child2_step_def file_ops print_def kill_thread_handler_def)
  have "can_work file s" using s assms bbg_ok_run [OF bbg_ok_init s(1)] by (simp add: can_work_def)
  then obtain bs t where t: "run bbg_act bs s = Some t" "can_work file t" "c1 t = C1Ended"
    "set (log s) \<subseteq> set (log t)" "c2 t = C2Ended" "mpc t = MJoin1" "created t = (Made, Made)"
    using child1_finishes [of "file" s] s(3,7,8) by auto
  obtain u where u: "run bbg_act [Move Main, Move Main, Move Main] t = Some u" "mpc u = MDone"
    "log u = log t @ [ExitMaster]"
    using t by (simp add: main_step_def can_work_def file_ops print_def)
  have "run bbg_act (?as @ bs @ [Move Main, Move Main, Move Main]) (bbg_init (Some file) True st (Made, Made) n) = Some u"
    by (simp only: run_append s(1) t(1) u(1) option.case)
  then show ?thesis using t u s(11)
    by (intro exI [of _ "?as @ bs @ [Move Main, Move Main, Move Main]"] exI [of _ u]) (auto simp: can_work_def)
qed

end
