(* ===== verification/TestLib.thy ===== *)
theory TestLib
  imports Decimal
begin

text \<open>
  The arithmetic library \<^verbatim>\<open>testlib.c\<close> (three equal copies, shared and static) and the program
  \<^verbatim>\<open>hello-arm.c\<close> that calls it. A function also prints its name; \<open>None\<close>: the result overflows.
  The arguments of a \<^verbatim>\<open>printf\<close> are evaluated before it prints.
\<close>

definition add_ints :: "int \<Rightarrow> int \<Rightarrow> string list \<Rightarrow> (int \<times> string list) option" where
  "add_ints n1 n2 out = do { r \<leftarrow> checked (n1 + n2); Some (r, out @ [''add_ints'']) }"

definition multiply_ints :: "int \<Rightarrow> int \<Rightarrow> string list \<Rightarrow> (int \<times> string list) option" where
  "multiply_ints n1 n2 out = do { r \<leftarrow> checked (n1 * n2); Some (r, out @ [''multiply_ints'']) }"

definition hello_arm_main :: "(int \<times> string list) option" where
  "hello_arm_main = do {
     let n1 = 4;
     let n2 = 5;
     let out = [''Hello from ARM''];
     (s, out) \<leftarrow> add_ints n1 n2 out;
     let out = out @ [dec (nat n1) @ '' + '' @ dec (nat n2) @ '' = '' @ dec (nat s)];
     (p, out) \<leftarrow> multiply_ints n1 n2 out;
     let out = out @ [dec (nat n1) @ '' * '' @ dec (nat n2) @ '' = '' @ dec (nat p)];
     Some (0, out)
   }"

lemma add_ints_defined: "add_ints a b out \<noteq> None \<longleftrightarrow> - (2 ^ 31) \<le> a + b \<and> a + b < 2 ^ 31"
  by (simp add: add_ints_def checked_def in_int_def)

lemma multiply_ints_defined: "multiply_ints a b out \<noteq> None \<longleftrightarrow> - (2 ^ 31) \<le> a * b \<and> a * b < 2 ^ 31"
  by (simp add: multiply_ints_def checked_def in_int_def)

lemma hello_arm_output:
  "hello_arm_main = Some (0, [''Hello from ARM'', ''add_ints'', ''4 + 5 = 9'', ''multiply_ints'', ''4 * 5 = 20''])"
proof -
  have "dec 4 = ''4''" "dec 5 = ''5''" "dec 9 = ''9''" "dec 20 = ''20''" by code_simp+
  then show ?thesis
    by (simp add: hello_arm_main_def add_ints_def multiply_ints_def checked_def in_int_def Let_def)
qed

end
