(* ===== verification/Spec2Isabelle.thy ===== *)
theory Spec2Isabelle
  imports SortClients Dispatch UtsLock Prctl Sysinfo Usage AnimalLkm TimerLkm SortStrings MemCopy FileIo
    Queues Pipes SharedMem Sockets BbgThreads TestLib
begin

text \<open>
  A model of the course work in \<^verbatim>\<open>src/\<close>, a set of C programs for a BeagleBone (32 bit ARM) and its
  Linux kernel: a sort system call with the programs that call it, kernel modules, small programs on
  memory, strings and files, programs of two or three threads that talk to each other, and the stock
  Linux 4.14 file \<^verbatim>\<open>sys.c\<close> in which the sort call lives. Every definition follows the code; \<open>None\<close> as a
  result of \<open>option\<close> type means that C leaves the behaviour undefined there (an index outside an array, an
  indeterminate cell, a null pointer, a signed overflow), unless a definition says otherwise. Errors
  that the code handles are values: negative numbers as the kernel returns them.

  \<^bold>\<open>Shared theories.\<close>
  \<^item> \<open>Prelude\<close>: C arrays as lists of cells that may be indeterminate, slices, signed 32 bit results, error numbers, and the
    locale \<open>call_invariant\<close> (what every call keeps, every sequence of calls keeps); \<open>run\<close>, which follows a schedule.
  \<^item> \<open>CStrings\<close>: \<open>strcmp\<close>, \<open>strcpy\<close> and the exchange sort that two programs share; \<open>Decimal\<close>: decimal numerals.
  \<^item> \<open>Ipc\<close>: the LED commands, the 48 byte packets and the tables of the four programs in \<^verbatim>\<open>HW4_APES/PROBLEM2\<close>.
  \<^item> \<open>Creation\<close>: what \<open>main\<close> does around its two threads in all five thread programs, and the locale \<open>main_joins\<close> (interpreted
    in each of them): \<open>main\<close> waits for the threads it has made and reports the calls that fail.
  \<^item> \<open>Handshake\<close>: an abstract machine of two parties in strict alternation and the locale \<open>handshake_impl\<close> of a
    program that implements it, which yields the order of its log, its completeness and a bound on its runs.

  \<^bold>\<open>The sort system call\<close> (\<^verbatim>\<open>HW2_APES\<close>).
  \<^item> \<open>MySort\<close>: \<open>merge\<close>, \<open>mergesort\<close>, \<open>my_sort\<close> and \<open>viks_hello\<close> of \<^verbatim>\<open>PROBLEM5/system_call/sys.c\<close>. The state is the
    user's memory, the live kernel blocks and the log. Lemmas: one merge is a merge of lists, \<open>mergesort\<close> sorts
    a range of at most 256 cells (the length of its \<open>temp\<close> array) and leaves the array on more; the result,
    the return codes and the block that every call leaks. The locales \<open>user_access\<close> and \<open>kernel_services\<close>
    say what the call needs of the two copies and of \<open>kmalloc\<close>.
  \<^item> \<open>SortClients\<close>: \<^verbatim>\<open>PROBLEM5/regression_test\<close> and \<^verbatim>\<open>PROBLEM6/cron.c\<close> together with the call; it interprets both locales
    (as \<open>user\<close> and \<open>services\<close>) on the memory of those programs. What the programs print, and where the
    regression test crashes.

  \<^bold>\<open>The rest of sys.c.\<close> A call is a function on the state that it reads and changes; tasks are numbers; an \<^verbatim>\<open>unsigned long\<close>
  is a word of any length where the width matters.
  \<^item> \<open>Creds\<close>: the calls on user and group ids. The locale \<open>identities\<close> (what no call adds to) is interpreted as
    \<open>users\<close> and \<open>groups\<close>; without a capability nothing is gained, and dropped ids stay dropped.
  \<^item> \<open>SyscallDecls\<close>: the 385 prototypes of \<^verbatim>\<open>syscalls.h\<close> and the 367 entries of \<^verbatim>\<open>syscall.tbl\<close>. \<open>SyscallEntry\<close>: the macros that
    define a call, and the way from a number over the table and the function of the macro to the
    calls of \<open>Creds\<close> and to \<open>my_sort\<close>. A body gets values of its types; of the declared calls of the table all
    fit the registers that the procedure call standard of ARM gives; each of the fourteen numbers of the identity calls does
    what its call does with the cast registers, and without a capability none of them gains an identity; 399 is \<open>my_sort\<close>.
  \<^item> \<open>Rlimits\<close>: resource limits for both widths and their 64 bit and compatibility forms: order of the limits, who can
    raise them, round trips.
  \<^item> \<open>ProcGroups\<close>: process groups and sessions; a group lies in one session, whatever the tasks call (an
    interpretation of \<open>call_invariant\<close>). \<open>Priority\<close>: \<open>setpriority\<close> and \<open>getpriority\<close> on the same tasks, against a
    specification per task.
  \<^item> \<open>Machine\<close>: several tasks that call all of these in any order, each call with the services that the caller's credentials give
    it, on one state; users are isolated from each other, under the rules for capabilities in a tree of user namespaces with
    owners, and the invariants hold together (\<open>call_invariant\<close> for the whole system). \<open>Dispatch\<close>: the same from the registers on, over \<open>SyscallEntry\<close>.
  \<^item> \<open>Uts\<close>: the names of the system; they stay terminated, and a host name comes back; the release for old programs.
    \<open>UtsLock\<close>: the same calls while any number of them overlap, byte by byte under \<^verbatim>\<open>uts_sem\<close>: each copies what it
    copies when they run one after the other, and some task can always move.
  \<^item> \<open>MmMap\<close>: the memory layout that \<^verbatim>\<open>prctl(PR_SET_MM)\<close> changes: what it checks holds ever after, except one
    comparison on 32 bit machines; the executable; the auxiliary vector. \<open>Prctl\<close>: all options of \<open>prctl\<close>, over \<open>MmMap\<close>, and
    \<open>getcpu\<close>; failing calls, the timer slack, the promise to gain no privileges.
  \<^item> \<open>Sysinfo\<close>: memory statistics in bytes or units, and what the version for 32 bit callers stores; \<open>Usage\<close>: times, resource usage and \<open>umask\<close>.

  \<^bold>\<open>Kernel modules\<close> (\<^verbatim>\<open>HW3_APES\<close>).
  \<^item> \<open>AnimalLkm\<close>: \<^verbatim>\<open>PROBLEM4/animal_lkm.c\<close>, with lists of nodes in a heap: what both sets hold after loading, the counters,
    and what unloading frees and leaks.
  \<^item> \<open>TimerLkm\<close>: \<^verbatim>\<open>PROBLEM3\<close>, the periodic timer as a step relation with its callback and exit function statement by
    statement, and the two messages of the hello module: period, log, and the race between unloading and the callback.

  \<^bold>\<open>Small programs.\<close> \<open>SortStrings\<close> and \<open>MemCopy\<close> (\<^verbatim>\<open>HW3_APES\<close>), \<open>FileIo\<close> (\<^verbatim>\<open>HW2_APES/PROBLEM2\<close>) and \<open>TestLib\<close>
  (\<^verbatim>\<open>HW1_APES\<close>): what they print, for which input they are defined.

  \<^bold>\<open>Threads\<close> (\<^verbatim>\<open>HW4_APES\<close>). Each program is a state machine: a program counter per thread, a step function per thread
  (\<open>thread1_at\<close>, ...), and a step relation that interleaves them with SIGINT and \<open>main\<close>.
  \<^item> \<open>Queues\<close> and \<open>Sockets\<close> interpret \<open>handshake_impl\<close> (as \<open>hq\<close> and \<open>hsk\<close>): without a signal the log is a
    prefix of the intended dialogue and complete at the end; with one they can deadlock. For the queues, a typing says
    what can be in the queues and the log in any run.
  \<^item> \<open>Pipes\<close>: a write sends ten times too much, the packets are right all the same, the threads never deadlock but
    run ahead of each other. \<open>SharedMem\<close>: memory character by character; texts stay terminated, but packets can be
    torn, and there is no handshake.
  \<^item> \<open>CpuStat\<close> and \<open>BbgThreads\<close>: \<^verbatim>\<open>PROBLEM1/BBG_pthread.c\<close>: the CPU utilisation from the first 46 characters of
    \<^verbatim>\<open>/proc/stat\<close>, the letter histogram, the timer, both signals,
    and the file that every sample leaves open.

  \<^bold>\<open>Bounds.\<close> All loops are total functions with a measure, but for two that need not end, which are
  \<open>partial_function\<close>s: \<open>mergesort\<close> in \<open>MySort\<close>, shown to return on every range of at most 256 cells, and \<open>page_unit\<close> in \<open>Sysinfo\<close>,
  shown to return when the unit is a power of two. No fuel is used. The runs of the
  thread programs are bounded by theorems: 184 steps for the queues and the pipes, 196 for the sockets, 1320 for the
  shared memory. Widths of \<^verbatim>\<open>unsigned long\<close> are at most 64 where a theorem says so.

  \<^bold>\<open>Parameters.\<close> What is not under \<^verbatim>\<open>src/\<close> is an argument: copies from and to user memory, allocators, capability checks
  and the security module, id maps, pid tables, clocks, files and their mappings, the delivery of
  sockets, which \<^verbatim>\<open>mq_open\<close>, \<^verbatim>\<open>pipe\<close>, \<^verbatim>\<open>shm_open\<close>, \<^verbatim>\<open>mmap\<close>, \<^verbatim>\<open>pthread_create\<close> (and, outside \<^verbatim>\<open>HW4_APES/PROBLEM2\<close>,
  \<^verbatim>\<open>fopen\<close>) succeed, how many files a process may have open,
  what \<^verbatim>\<open>pthread_join\<close> returns for a thread that was never created, what a failed \<^verbatim>\<open>fflush\<close> leaves in the buffer, the tree of
  user namespaces with their owners, and what the options of \<^verbatim>\<open>prctl\<close> that go to the architecture, to seccomp and to perf do to the process. What a theorem needs of them is a hypothesis or the contract of a locale.

  \<^bold>\<open>Not modelled.\<close> Time stamps, sleeps and thread numbers in the logs; a log file of \<^verbatim>\<open>HW4_APES/PROBLEM2\<close> that does not open; locks and reference
  counts of the kernel other than \<^verbatim>\<open>uts_sem\<close> (outside \<open>UtsLock\<close> a call runs in one piece); what a failed copy of resource limits leaves in user memory; the other headers, which only
  declare; the \<^verbatim>\<open>.mod.c\<close> files that the kernel build generates.

  \<^bold>\<open>Plan.\<close> The way from numbers to the remaining calls of \<^verbatim>\<open>sys.c\<close>; calls that overlap under the locks other than \<^verbatim>\<open>uts_sem\<close>.
\<close>

section \<open>What the thread programs share\<close>

text \<open>C12: in all five thread programs of \<^verbatim>\<open>HW4_APES\<close>, in every run, with any signals, whichever creations fail,
  whatever their other calls do and whatever \<open>pthread_join\<close> returns for a thread that was never created: a thread
  whose creation failed never runs; \<open>main\<close> gets behind the join of a thread that was created only when
  that thread has ended; the failing creations and joins behind it have been reported, each with its message; it logs its
  end only when it is behind both joins; and only an undefined join of a thread that was never created can stop it
  (\<open>accounted\<close>).\<close>

theorem threads_accounted:
  shows "(\<forall>s. Queues.step\<^sup>*\<^sup>* (Queues.queues_init q1 q2 ok c) s \<longrightarrow>
        accounted c (Queues.mpc s) (pc (Queues.th1 s) = pc.NotStarted, pc (Queues.th2 s) = pc.NotStarted)
          (pc (Queues.th1 s) = pc.Ended, pc (Queues.th2 s) = pc.Ended)
          (Exiting Main \<in> set (Queues.log s)) (\<lambda>p. complaint p \<in> set (Queues.err s)))
    \<and> (\<forall>s. Pipes.step\<^sup>*\<^sup>* (Pipes.pipes_init b1 b2 ok c) s \<longrightarrow>
        accounted c (Pipes.mpc s) (pc (Pipes.th1 s) = pc.NotStarted, pc (Pipes.th2 s) = pc.NotStarted)
          (pc (Pipes.th1 s) = pc.Ended, pc (Pipes.th2 s) = pc.Ended)
          (Exiting Main \<in> set (Pipes.log s)) (\<lambda>p. complaint p \<in> set (Pipes.err s)))
    \<and> (\<forall>s. SharedMem.step\<^sup>*\<^sup>* (SharedMem.shm_init a1 a2 o1 o2 c) s \<longrightarrow>
        accounted c (SharedMem.mpc s) (at (SharedMem.th1 s) = place.NotStarted, at (SharedMem.th2 s) = place.NotStarted)
          (at (SharedMem.th1 s) = place.Ended, at (SharedMem.th2 s) = place.Ended)
          (Exiting Main \<in> set (SharedMem.log s)) (\<lambda>p. complaint p \<in> set (SharedMem.err s)))
    \<and> (\<forall>s. Sockets.step\<^sup>*\<^sup>* (Sockets.sockets_init b d c) s \<longrightarrow>
        accounted c (Sockets.mpc s) (pc (Sockets.th1 s) = pc.NotStarted, pc (Sockets.th2 s) = pc.NotStarted)
          (pc (Sockets.th1 s) = pc.Ended, pc (Sockets.th2 s) = pc.Ended)
          (Exiting Main \<in> set (Sockets.log s)) (\<lambda>p. complaint p \<in> set (Sockets.err s)))
    \<and> (\<forall>s. BbgThreads.step\<^sup>*\<^sup>* (BbgThreads.bbg_init f m st c n) s \<longrightarrow>
        accounted c (BbgThreads.mpc s) (c1 s = C1New, c2 s = C2New) (c1 s = C1Ended, c2 s = C2Ended)
          (ExitMaster \<in> set (BbgThreads.log s)) (\<lambda>p. bbg_complaint p \<in> set (BbgThreads.console s)))"
  using qjoin.accounts [of "Queues.queues_init q1 q2 ok c"]
    pjoin.accounts [of "Pipes.pipes_init b1 b2 ok c"]
    mjoin.accounts [of "SharedMem.shm_init a1 a2 o1 o2 c"]
    sjoin.accounts [of "Sockets.sockets_init b d c"]
    bjoin.accounts [of "BbgThreads.bbg_init f m st c n"]
  by (simp add: Queues.queues_init_def Pipes.pipes_init_def SharedMem.shm_init_def new_thread_def new_worker_def
      Sockets.sockets_init_def BbgThreads.bbg_init_def)

theorem threads_accounted_witness:
  "\<exists>s. Queues.step\<^sup>*\<^sup>* (Queues.queues_init [] [] (True, True) (Refused (Some 3), Refused (Some 0))) s
     \<and> Queues.mpc s = MDone \<and> pc (Queues.th1 s) = pc.NotStarted \<and> pc (Queues.th2 s) = pc.NotStarted
     \<and> set (Queues.err s) = {complaint MCreate1, complaint MCreate2, complaint MJoin1}"
proof -
  let ?c = "(Refused (Some 3), Refused (Some 0))"
  let ?s = "Queues.queues_init [] [] (True, True) ?c"
  let ?r = "run Queues.queues_act (map Run [Main, Main, Main, Main, Main, Main]) ?s"
  have "map_option (\<lambda>s. (Queues.mpc s, set (Queues.err s))) ?r
      = Some (MDone, {complaint MCreate1, complaint MCreate2, complaint MJoin1})"
    by (simp add: Queues.queues_run Queues.queue_ops insert_commute)
  then obtain s where s: "?r = Some s" "Queues.mpc s = MDone"
    "set (Queues.err s) = {complaint MCreate1, complaint MCreate2, complaint MJoin1}"
    by (cases ?r) simp_all
  from run_reaches [of Queues.queues_act Queues.step, OF Queues.queues_act_step s(1)]
  have r: "Queues.step\<^sup>*\<^sup>* ?s s" .
  from threads_accounted [THEN conjunct1, rule_format, OF r] s r show ?thesis
    by (auto simp: accounted_def)
qed

end
